(* ===== verification/Epbs_Prelude.thy ===== *)
theory Epbs_Prelude
  imports Main
begin

text \<open>
  Shared material of the development: the faults a C operation can end in, results that carry
  them, loops whose body can fault, bounds-checked array accesses, reachability of a transition
  system with the invariant rule as a locale, and the ordered finite maps that stand for
  \<^verbatim>\<open>std::map\<close>.
\<close>

section \<open>Collections of facts\<close>

named_theorems res_simps \<open>rewriting of results and of bounds-checked accesses\<close>
named_theorems len_simps \<open>lengths of buffers and arrays after an operation\<close>
named_theorems wf_intros \<open>well-formedness is kept by an operation\<close>

section \<open>Faults and results\<close>

text \<open>
  What the C code can run into instead of a value: an access outside an array, a copy longer than
  its destination, a conversion in a format string that the call does not supply, a null pointer,
  a signed overflow, the read of a variable that was never set, and a call of \<^verbatim>\<open>exit\<close>.
\<close>

datatype fault =
    Out_Of_Bounds
  | Buffer_Overflow
  | Bad_Format
  | Null_Deref
  | Int_Overflow
  | Uninit_Read
  | Exit_Process int

type_synonym 'a res = "fault + 'a"

definition bindE :: "'a res \<Rightarrow> ('a \<Rightarrow> 'b res) \<Rightarrow> 'b res" where
  "bindE m f = (case m of Inl e \<Rightarrow> Inl e | Inr x \<Rightarrow> f x)"

lemma bindE_simps [simp]:
  "bindE (Inl e) f = Inl e"
  "bindE (Inr x) f = f x"
  by (simp_all add: bindE_def)

lemma bindE_assoc: "bindE (bindE m f) g = bindE m (\<lambda>x. bindE (f x) g)"
  by (cases m) simp_all

lemma bindE_Inr_iff: "bindE m f = Inr y \<longleftrightarrow> (\<exists>x. m = Inr x \<and> f x = Inr y)"
  by (cases m) auto

lemma bindE_Inl_iff: "bindE m f = Inl e \<longleftrightarrow> m = Inl e \<or> (\<exists>x. m = Inr x \<and> f x = Inl e)"
  by (cases m) auto

lemma bindE_InrE:
  assumes "bindE m f = Inr y"
  obtains x where "m = Inr x" and "f x = Inr y"
  using assms by (auto simp: bindE_Inr_iff)

lemma bindE_cong [fundef_cong]:
  "m = m' \<Longrightarrow> (\<And>x. m' = Inr x \<Longrightarrow> f x = f' x) \<Longrightarrow> bindE m f = bindE m' f'"
  by (cases m') auto

definition checkE :: "bool \<Rightarrow> fault \<Rightarrow> unit res" where
  "checkE b e = (if b then Inr () else Inl e)"

lemma checkE_simps [simp]:
  "checkE True e = Inr ()"
  "checkE False e = Inl e"
  by (simp_all add: checkE_def)

lemma checkE_Inr_iff: "checkE b e = Inr u \<longleftrightarrow> b"
  by (simp add: checkE_def)

text \<open>A counting loop: the body runs once for each index of the list and can fault.\<close>

fun forE :: "'i list \<Rightarrow> ('i \<Rightarrow> 's \<Rightarrow> 's res) \<Rightarrow> 's \<Rightarrow> 's res" where
  "forE [] f s = Inr s"
| "forE (i # is) f s = bindE (f i s) (forE is f)"

lemma forE_append: "forE (xs @ ys) f s = bindE (forE xs f s) (forE ys f)"
  by (induction xs arbitrary: s) (simp_all add: bindE_assoc fun_eq_iff cong: bindE_cong)

text \<open>A loop whose body keeps an invariant and never faults under it does not fault.\<close>

lemma forE_invariant:
  assumes "I s"
    and "\<And>i s. i \<in> set is \<Longrightarrow> I s \<Longrightarrow> \<exists>s'. f i s = Inr s' \<and> I s'"
  shows "\<exists>s'. forE is f s = Inr s' \<and> I s'"
  using assms
proof (induction "is" arbitrary: s)
  case Nil
  then show ?case by simp
next
  case (Cons i "is")
  from Cons.prems obtain s' where s': "f i s = Inr s'" "I s'" by force
  from Cons.IH [OF s'(2)] Cons.prems(2) obtain s'' where "forE is f s' = Inr s''" "I s''"
    by auto
  with s' show ?case by simp
qed

lemma forE_Inr_invariant:
  assumes "forE is f s = Inr t" and "I s"
    and "\<And>i s s'. i \<in> set is \<Longrightarrow> I s \<Longrightarrow> f i s = Inr s' \<Longrightarrow> I s'"
  shows "I t"
  using assms
proof (induction "is" arbitrary: s)
  case Nil
  then show ?case by simp
next
  case (Cons i "is")
  from Cons.prems(1) obtain s' where s': "f i s = Inr s'" "forE is f s' = Inr t"
    by (auto elim: bindE_InrE)
  with Cons show ?case by (meson list.set_intros)
qed

text \<open>A loop over \<open>1..n\<close> with an invariant that mentions the count.\<close>

lemma forE_count:
  assumes "P 0 s"
    and "\<And>m s. m < n \<Longrightarrow> P m s \<Longrightarrow> \<exists>s'. f (int (Suc m)) s = Inr s' \<and> P (Suc m) s'"
  shows "\<exists>t. forE [1..int n] f s = Inr t \<and> P n t"
  using assms
proof (induction n)
  case 0
  then show ?case by simp
next
  case (Suc n)
  then obtain t where t: "forE [1..int n] f s = Inr t" "P n t" by force
  from Suc.prems(2) [of n t] t(2) obtain t' where "f (int (Suc n)) t = Inr t'" "P (Suc n) t'" by auto
  with t(1) show ?case using upto_rec2 [of 1 "int (Suc n)"] by (simp add: forE_append)
qed

text \<open>The same over \<open>0..n-1\<close>.\<close>

lemma forE_count0:
  assumes "P 0 s"
    and "\<And>m s. m < n \<Longrightarrow> P m s \<Longrightarrow> \<exists>s'. f (int m) s = Inr s' \<and> P (Suc m) s'"
  shows "\<exists>t. forE [0..int n - 1] f s = Inr t \<and> P n t"
  using assms
proof (induction n)
  case 0
  then show ?case by simp
next
  case (Suc n)
  then obtain t where t: "forE [0..int n - 1] f s = Inr t" "P n t" by force
  from Suc.prems(2) [of n t] t(2) obtain t' where "f (int n) t = Inr t'" "P (Suc n) t'" by auto
  with t(1) show ?case using upto_rec2 [of 0 "int n"] by (simp add: forE_append)
qed

text \<open>A loop one of whose passes faults in every state of the invariant faults.\<close>

lemma forE_fault:
  assumes "I s" and "k \<in> set is" and "\<And>s. I s \<Longrightarrow> \<exists>e. f k s = Inl e"
    and "\<And>i s s'. i \<in> set is \<Longrightarrow> I s \<Longrightarrow> f i s = Inr s' \<Longrightarrow> I s'"
  shows "\<exists>e. forE is f s = Inl e"
  using assms(1,2,4)
proof (induction "is" arbitrary: s)
  case Nil
  then show ?case by simp
next
  case (Cons i "is")
  show ?case
  proof (cases "f i s")
    case (Inl e)
    then show ?thesis by simp
  next
    case (Inr s')
    have "i \<noteq> k" using assms(3) [OF Cons.prems(1)] Inr by auto
    moreover have "I s'" by (rule Cons.prems(3) [OF _ Cons.prems(1) Inr]) simp
    ultimately show ?thesis using Cons.IH [of s'] Cons.prems(2,3) Inr by auto
  qed
qed

section \<open>Arrays with checked indices\<close>

definition in_range :: "'a list \<Rightarrow> int \<Rightarrow> bool" where
  "in_range xs i \<longleftrightarrow> 0 \<le> i \<and> nat i < length xs"

definition nthE :: "'a list \<Rightarrow> int \<Rightarrow> 'a res" where
  "nthE xs i = (if in_range xs i then Inr (xs ! nat i) else Inl Out_Of_Bounds)"

definition updE :: "'a list \<Rightarrow> int \<Rightarrow> 'a \<Rightarrow> 'a list res" where
  "updE xs i v = (if in_range xs i then Inr (xs[nat i := v]) else Inl Out_Of_Bounds)"

lemma nthE_Inr_iff [res_simps]: "nthE xs i = Inr x \<longleftrightarrow> in_range xs i \<and> x = xs ! nat i"
  by (auto simp: nthE_def)

lemma updE_Inr_iff [res_simps]: "updE xs i v = Inr ys \<longleftrightarrow> in_range xs i \<and> ys = xs[nat i := v]"
  by (auto simp: updE_def)

lemma nthE_in [simp]: "in_range xs i \<Longrightarrow> nthE xs i = Inr (xs ! nat i)"
  by (simp add: nthE_def)

lemma updE_in [simp]: "in_range xs i \<Longrightarrow> updE xs i v = Inr (xs[nat i := v])"
  by (simp add: updE_def)

lemma nthE_out: "\<not> in_range xs i \<Longrightarrow> nthE xs i = Inl Out_Of_Bounds"
  by (simp add: nthE_def)

lemma updE_out: "\<not> in_range xs i \<Longrightarrow> updE xs i v = Inl Out_Of_Bounds"
  by (simp add: updE_def)

lemma in_range_update [simp]: "in_range (xs[k := v]) i = in_range xs i"
  by (simp add: in_range_def)

lemma in_range_int [simp]: "in_range xs (int k) \<longleftrightarrow> k < length xs"
  by (simp add: in_range_def)

section \<open>Reachable states and invariants\<close>

inductive reach :: "('s \<Rightarrow> bool) \<Rightarrow> ('s \<Rightarrow> 's \<Rightarrow> bool) \<Rightarrow> 's \<Rightarrow> bool"
  for init :: "'s \<Rightarrow> bool" and step :: "'s \<Rightarrow> 's \<Rightarrow> bool" where
  reach_init: "init s \<Longrightarrow> reach init step s"
| reach_step: "reach init step s \<Longrightarrow> step s t \<Longrightarrow> reach init step t"

lemma nth_update_changed: "xs[k := v] ! i \<noteq> xs ! i \<Longrightarrow> i = k \<and> xs[k := v] ! i = v"
  by (cases "k < length xs") (auto simp: nth_list_update list_update_beyond not_less split: if_splits)

text \<open>
  The interface every thread and socket machine of the model offers: start states, steps and an
  invariant. What follows from the two laws is proved once.
\<close>

locale invariant_system =
  fixes init :: "'s \<Rightarrow> bool"
    and step :: "'s \<Rightarrow> 's \<Rightarrow> bool"
    and inv :: "'s \<Rightarrow> bool"
  assumes inv_init: "init s \<Longrightarrow> inv s"
    and inv_step: "inv s \<Longrightarrow> step s t \<Longrightarrow> inv t"
begin

lemma reach_inv: "reach init step s \<Longrightarrow> inv s"
  by (induction rule: reach.induct) (auto intro: inv_init inv_step)

lemma steps_inv: "step\<^sup>*\<^sup>* s t \<Longrightarrow> inv s \<Longrightarrow> inv t"
  by (induction rule: rtranclp_induct) (auto intro: inv_step)

end

text \<open>
  A machine whose steps are steps of an abstract one, as long as the invariant holds: so are its runs.
\<close>

locale simulation = invariant_system +
  fixes abs :: "'s \<Rightarrow> 'a"
    and astep :: "'a \<Rightarrow> 'a \<Rightarrow> bool"
  assumes sim: "inv s \<Longrightarrow> step s t \<Longrightarrow> astep (abs s) (abs t)"
begin

lemma steps_refine:
  assumes "step\<^sup>*\<^sup>* s t" and "inv s"
  shows "astep\<^sup>*\<^sup>* (abs s) (abs t)"
  using assms
proof (induction rule: rtranclp_induct)
  case base
  then show ?case by simp
next
  case (step t u)
  with steps_inv have "inv t" by blast
  with step sim show ?case by (meson rtranclp.rtrancl_into_rtrancl)
qed

end

section \<open>Ordered maps (\<^verbatim>\<open>std::map\<close>)\<close>

text \<open>
  \<^verbatim>\<open>std::map<K,V>\<close> iterates in key order and holds a key once: an association list kept sorted.
  \<open>omap_put\<close> is \<^verbatim>\<open>m[k] = v\<close>, \<open>omap_erase\<close> is \<^verbatim>\<open>m.erase(k)\<close>.
\<close>

fun omap_put :: "'k::linorder \<Rightarrow> 'v \<Rightarrow> ('k \<times> 'v) list \<Rightarrow> ('k \<times> 'v) list" where
  "omap_put k v [] = [(k, v)]"
| "omap_put k v ((k', v') # m) =
     (if k < k' then (k, v) # (k', v') # m
      else if k = k' then (k, v) # m
      else (k', v') # omap_put k v m)"

definition omap_erase :: "'k::linorder \<Rightarrow> ('k \<times> 'v) list \<Rightarrow> ('k \<times> 'v) list" where
  "omap_erase k m = filter (\<lambda>e. fst e \<noteq> k) m"

definition omap_ok :: "('k::linorder \<times> 'v) list \<Rightarrow> bool" where
  "omap_ok m \<longleftrightarrow> sorted_wrt (<) (map fst m)"

lemma set_keys_put: "fst ` set (omap_put k v m) = insert k (fst ` set m)"
  by (induction k v m rule: omap_put.induct) auto

lemma set_put_subset: "set (omap_put k v m) \<subseteq> insert (k, v) (set m)"
  by (induction k v m rule: omap_put.induct) auto

lemma set_erase: "set (omap_erase k m) = {e \<in> set m. fst e \<noteq> k}"
  by (simp add: omap_erase_def)

lemma omap_ok_Nil [simp]: "omap_ok []"
  by (simp add: omap_ok_def)

lemma omap_ok_put: "omap_ok m \<Longrightarrow> omap_ok (omap_put k v m)"
proof (induction k v m rule: omap_put.induct)
  case (1 k v)
  then show ?case by (simp add: omap_ok_def)
next
  case (2 k v k' v' m)
  have "fst ` set (omap_put k v m) = insert k (fst ` set m)" by (rule set_keys_put)
  with 2 show ?case
    by (fastforce simp: omap_ok_def simp flip: set_map)
qed

lemma omap_ok_erase: "omap_ok m \<Longrightarrow> omap_ok (omap_erase k m)"
  by (induction m) (auto simp: omap_ok_def omap_erase_def)

lemma map_of_put: "omap_ok m \<Longrightarrow> map_of (omap_put k v m) = (map_of m)(k \<mapsto> v)"
proof (induction k v m rule: omap_put.induct)
  case (1 k v)
  then show ?case by simp
next
  case (2 k v k' v' m)
  then show ?case by (auto simp: omap_ok_def fun_eq_iff)
qed

lemma map_of_erase: "map_of (omap_erase k m) = (map_of m)(k := None)"
  by (induction m) (auto simp: omap_erase_def fun_eq_iff)

end
