(* ===== verification/C_Memory.thy ===== *)
theory C_Memory
  imports Epbs_Prelude "HOL-Library.Char_ord"
begin

text \<open>
  The part of C memory and of the C library that the program uses: byte buffers with 32- and
  64-bit integers stored in them (little endian, two's complement, LP64), C strings, and
  \<^verbatim>\<open>sprintf\<close>, \<^verbatim>\<open>strncpy\<close>, \<^verbatim>\<open>strstr\<close>, \<^verbatim>\<open>memcmp\<close> and \<^verbatim>\<open>atoi\<close> as they are called. A byte is a
  \<^typ>\<open>char\<close> (eight bits), a buffer a list of them whose length is the size of the allocation;
  every access outside it is a fault.
\<close>

section \<open>Integers as bytes\<close>

definition NUL :: char where
  "NUL = CHR 0x00"

definition enc32 :: "int \<Rightarrow> char list" where
  "enc32 x = [char_of x, char_of (x div 256), char_of (x div 65536), char_of (x div 16777216)]"

definition dec32 :: "char list \<Rightarrow> int" where
  "dec32 cs = (case cs of
     [a, b, c, d] \<Rightarrow>
       signed_take_bit 31 (of_char a + 256 * of_char b + 65536 * of_char c + 16777216 * of_char d)
   | _ \<Rightarrow> 0)"

definition enc64 :: "int \<Rightarrow> char list" where
  "enc64 x = enc32 x @ enc32 (x div 4294967296)"

definition is_int32 :: "int \<Rightarrow> bool" where
  "is_int32 x \<longleftrightarrow> - 2147483648 \<le> x \<and> x < 2147483648"

lemma length_enc32 [simp, len_simps]: "length (enc32 x) = 4"
  by (simp add: enc32_def)

lemma length_enc64 [simp, len_simps]: "length (enc64 x) = 8"
  by (simp add: enc64_def)

lemma base256_digits:
  "(x::int) mod 256 + 256 * (x div 256 mod 256) + 65536 * (x div 65536 mod 256)
     + 16777216 * (x div 16777216 mod 256) = x mod 4294967296"
  using zmod_zmult2_eq [of 256 x 256] zmod_zmult2_eq [of 256 x 65536] zmod_zmult2_eq [of 256 x 16777216]
  by simp

lemma dec32_enc32: "dec32 (enc32 x) = signed_take_bit 31 x"
proof -
  have "dec32 (enc32 x) = signed_take_bit 31 (x mod 4294967296)"
    by (simp add: dec32_def enc32_def base256_digits)
  also have "\<dots> = signed_take_bit 31 (take_bit 32 x)"
    by (simp add: take_bit_eq_mod)
  also have "\<dots> = signed_take_bit 31 x"
    by (simp add: signed_take_bit_take_bit)
  finally show ?thesis .
qed

lemma dec32_enc32_int32 [simp]: "is_int32 x \<Longrightarrow> dec32 (enc32 x) = x"
  by (simp add: dec32_enc32 is_int32_def signed_take_bit_int_eq_self)

lemma is_int32_dec32: "is_int32 (dec32 cs)"
  using signed_take_bit_int_less_exp [of 31] signed_take_bit_int_greater_eq_minus_exp [of 31]
  by (auto simp: is_int32_def dec32_def split: list.splits)

lemma is_int32_of_nat: "n < 2147483648 \<Longrightarrow> is_int32 (int n)"
  by (simp add: is_int32_def)

section \<open>Buffers\<close>

definition blit :: "char list \<Rightarrow> nat \<Rightarrow> char list \<Rightarrow> char list" where
  "blit b off bs = take off b @ bs @ drop (off + length bs) b"

definition storeE :: "char list \<Rightarrow> nat \<Rightarrow> char list \<Rightarrow> char list res" where
  "storeE b off bs = (if off + length bs \<le> length b then Inr (blit b off bs) else Inl Buffer_Overflow)"

definition loadE :: "char list \<Rightarrow> nat \<Rightarrow> nat \<Rightarrow> char list res" where
  "loadE b off n = (if off + n \<le> length b then Inr (take n (drop off b)) else Inl Out_Of_Bounds)"

text \<open>
  \<open>get_int b k\<close> is \<^verbatim>\<open>*((int *)b + k)\<close>, \<open>put_int b k x\<close> the assignment to it.
\<close>

definition get_int :: "char list \<Rightarrow> nat \<Rightarrow> int res" where
  "get_int b k = bindE (loadE b (4 * k) 4) (\<lambda>bs. Inr (dec32 bs))"

definition put_int :: "char list \<Rightarrow> nat \<Rightarrow> int \<Rightarrow> char list res" where
  "put_int b k x = storeE b (4 * k) (enc32 x)"

lemma length_blit [simp, len_simps]: "off + length bs \<le> length b \<Longrightarrow> length (blit b off bs) = length b"
  by (simp add: blit_def)

lemma take_drop_blit_same:
  "off + length bs \<le> length b \<Longrightarrow> take (length bs) (drop off (blit b off bs)) = bs"
  by (simp add: blit_def)

lemma nth_blit:
  assumes "off + length bs \<le> length b" and "i < length b"
  shows "blit b off bs ! i =
    (if off \<le> i \<and> i < off + length bs then bs ! (i - off) else b ! i)"
  using assms by (auto simp: blit_def nth_append min_def)

lemma take_drop_blit_other:
  assumes "off + length bs \<le> length b" and "off' + n \<le> off \<or> off + length bs \<le> off'"
    and "off' + n \<le> length b"
  shows "take n (drop off' (blit b off bs)) = take n (drop off' b)"
  using assms by (intro nth_equalityI) (auto simp: nth_blit)

lemma storeE_Inr_iff [res_simps]:
  "storeE b off bs = Inr b' \<longleftrightarrow> off + length bs \<le> length b \<and> b' = blit b off bs"
  by (auto simp: storeE_def)

lemma get_int_in: "4 * k + 4 \<le> length b \<Longrightarrow> get_int b k = Inr (dec32 (take 4 (drop (4 * k) b)))"
  by (simp add: get_int_def loadE_def)

lemma get_int_out: "\<not> 4 * k + 4 \<le> length b \<Longrightarrow> get_int b k = Inl Out_Of_Bounds"
  by (simp add: get_int_def loadE_def)

lemma put_int_in: "4 * k + 4 \<le> length b \<Longrightarrow> put_int b k x = Inr (blit b (4 * k) (enc32 x))"
  by (simp add: put_int_def storeE_def)

lemma put_int_out: "\<not> 4 * k + 4 \<le> length b \<Longrightarrow> put_int b k x = Inl Buffer_Overflow"
  by (simp add: put_int_def storeE_def)

lemma put_int_Inr_iff [res_simps]:
  "put_int b k x = Inr b' \<longleftrightarrow> 4 * k + 4 \<le> length b \<and> b' = blit b (4 * k) (enc32 x)"
  by (auto simp: put_int_def storeE_def)

section \<open>The interface of an integer buffer\<close>

text \<open>
  Every message is built and read through one contract: an index below the capacity can be
  written, reading it back gives the value if it is representable, other indices are untouched.
  \<open>put_all\<close> is the sequence of assignments with which a header is filled.
\<close>

fun put_all :: "('b \<Rightarrow> nat \<Rightarrow> int \<Rightarrow> 'b res) \<Rightarrow> (nat \<times> int) list \<Rightarrow> 'b \<Rightarrow> 'b res" where
  "put_all put [] b = Inr b"
| "put_all put ((k, x) # ws) b = bindE (put b k x) (put_all put ws)"

locale int_array =
  fixes get :: "'b \<Rightarrow> nat \<Rightarrow> int res"
    and put :: "'b \<Rightarrow> nat \<Rightarrow> int \<Rightarrow> 'b res"
    and cap :: "'b \<Rightarrow> nat"
    and ok :: "int \<Rightarrow> bool"
  assumes put_defined: "k < cap b \<Longrightarrow> \<exists>b'. put b k x = Inr b'"
    and put_cap: "put b k x = Inr b' \<Longrightarrow> cap b' = cap b"
    and get_put_same: "put b k x = Inr b' \<Longrightarrow> ok x \<Longrightarrow> get b' k = Inr x"
    and get_put_other: "put b k x = Inr b' \<Longrightarrow> j \<noteq> k \<Longrightarrow> j < cap b \<Longrightarrow> get b' j = get b j"
begin

lemma put_all_defined:
  "\<forall>w \<in> set ws. fst w < cap b \<Longrightarrow> \<exists>b'. put_all put ws b = Inr b' \<and> cap b' = cap b"
proof (induction ws arbitrary: b)
  case Nil
  then show ?case by simp
next
  case (Cons w ws)
  obtain k x where w: "w = (k, x)" by (cases w)
  from Cons.prems w obtain b1 where b1: "put b k x = Inr b1"
    using put_defined [of k b x] by auto
  then have "cap b1 = cap b" by (rule put_cap)
  with Cons.prems Cons.IH [of b1] w b1 show ?case by auto
qed

lemma put_all_cap: "put_all put ws b = Inr b' \<Longrightarrow> cap b' = cap b"
proof (induction ws arbitrary: b)
  case Nil
  then show ?case by simp
next
  case (Cons w ws)
  obtain k x where w: "w = (k, x)" by (cases w)
  from Cons.prems w show ?case by (auto elim!: bindE_InrE dest!: Cons.IH put_cap)
qed

lemma put_all_other:
  "put_all put ws b = Inr b' \<Longrightarrow> j \<notin> fst ` set ws \<Longrightarrow> j < cap b \<Longrightarrow> get b' j = get b j"
proof (induction ws arbitrary: b)
  case Nil
  then show ?case by simp
next
  case (Cons w ws)
  obtain k x where w: "w = (k, x)" by (cases w)
  from Cons.prems(1) w obtain b1 where b1: "put b k x = Inr b1" "put_all put ws b1 = Inr b'"
    by (auto elim: bindE_InrE)
  have "cap b1 = cap b" using b1(1) by (rule put_cap)
  moreover have "get b1 j = get b j"
    using Cons.prems w by (intro get_put_other [OF b1(1)]) auto
  ultimately show ?case using Cons.IH [OF b1(2)] Cons.prems by auto
qed

lemma put_all_get:
  "put_all put ws b = Inr b' \<Longrightarrow> distinct (map fst ws) \<Longrightarrow> \<forall>w \<in> set ws. fst w < cap b \<Longrightarrow>
   (k, x) \<in> set ws \<Longrightarrow> ok x \<Longrightarrow> get b' k = Inr x"
proof (induction ws arbitrary: b)
  case Nil
  then show ?case by simp
next
  case (Cons w ws)
  obtain j y where w: "w = (j, y)" by (cases w)
  from Cons.prems(1) w obtain b1 where b1: "put b j y = Inr b1" "put_all put ws b1 = Inr b'"
    by (auto elim: bindE_InrE)
  have cap1: "cap b1 = cap b" using b1(1) by (rule put_cap)
  show ?case
  proof (cases "(k, x) = (j, y)")
    case True
    then have "get b1 k = Inr x" using get_put_same [OF b1(1)] Cons.prems(5) by simp
    moreover have "get b' k = get b1 k"
      using Cons.prems w True cap1 by (intro put_all_other [OF b1(2)]) auto
    ultimately show ?thesis by simp
  next
    case False
    with Cons.prems w cap1 show ?thesis by (intro Cons.IH [OF b1(2)]) auto
  qed
qed

end

interpretation ibuf: int_array get_int put_int "\<lambda>b. length b div 4" is_int32
proof unfold_locales
  fix k x and b :: "char list"
  assume "k < length b div 4"
  then show "\<exists>b'. put_int b k x = Inr b'" by (simp add: put_int_in)
next
  fix k x and b b' :: "char list"
  assume "put_int b k x = Inr b'"
  then show "length b' div 4 = length b div 4" by (auto simp: res_simps)
next
  fix k x and b b' :: "char list"
  assume p: "put_int b k x = Inr b'" and "is_int32 x"
  then show "get_int b' k = Inr x"
    using take_drop_blit_same [of "4 * k" "enc32 x" b] by (auto simp: res_simps get_int_in)
next
  fix k j x and b b' :: "char list"
  assume p: "put_int b k x = Inr b'" and jk: "j \<noteq> k" and j: "j < length b div 4"
  have "4 * j + 4 \<le> 4 * k \<or> 4 * k + length (enc32 x) \<le> 4 * j" using jk by simp arith
  moreover have "4 * k + length (enc32 x) \<le> length b" and "b' = blit b (4 * k) (enc32 x)"
    using p by (simp_all add: res_simps)
  ultimately show "get_int b' j = get_int b j"
    using j by (simp add: get_int_in take_drop_blit_other)
qed

definition put_ints :: "(nat \<times> int) list \<Rightarrow> char list \<Rightarrow> char list res" where
  "put_ints = put_all put_int"

lemma length_put_int: "put_int b k x = Inr b' \<Longrightarrow> length b' = length b"
  by (auto simp: res_simps)

lemma length_put_ints: "put_ints ws b = Inr b' \<Longrightarrow> length b' = length b"
proof (induction ws arbitrary: b)
  case Nil
  then show ?case by (simp add: put_ints_def)
next
  case (Cons w ws)
  then show ?case
    by (cases w) (auto simp: put_ints_def elim!: bindE_InrE dest!: Cons.IH length_put_int)
qed

text \<open>
  The facts of the interface over the byte buffers, with the capacity spelled out, and the bytes
  beyond the integers written.
\<close>

lemma int_index: "k < n div 4 \<longleftrightarrow> 4 * k + 4 \<le> (n :: nat)"
  by arith

lemma put_ints_defined:
  "\<forall>w \<in> set ws. 4 * fst w + 4 \<le> length b \<Longrightarrow> \<exists>b'. put_ints ws b = Inr b' \<and> length b' = length b"
  using ibuf.put_all_defined [of ws b] length_put_ints [of ws b]
  unfolding put_ints_def int_index by blast

lemma put_ints_get:
  "put_ints ws b = Inr b' \<Longrightarrow> (k, x) \<in> set ws \<Longrightarrow> distinct (map fst ws) \<Longrightarrow>
   \<forall>w \<in> set ws. 4 * fst w + 4 \<le> length b \<Longrightarrow> is_int32 x \<Longrightarrow> get_int b' k = Inr x"
  unfolding put_ints_def by (rule ibuf.put_all_get) (simp_all add: int_index)

lemma put_ints_other:
  "put_ints ws b = Inr b' \<Longrightarrow> j \<notin> fst ` set ws \<Longrightarrow> 4 * j + 4 \<le> length b \<Longrightarrow>
   get_int b' j = get_int b j"
  unfolding put_ints_def by (rule ibuf.put_all_other) (simp_all add: int_index)

lemma drop_blit: "off + length bs \<le> length b \<Longrightarrow> off + length bs \<le> n \<Longrightarrow> drop n (blit b off bs) = drop n b"
  by (simp add: blit_def)

lemma put_ints_drop:
  "put_ints ws b = Inr b' \<Longrightarrow> \<forall>w \<in> set ws. 4 * fst w + 4 \<le> n \<Longrightarrow> drop n b' = drop n b"
proof (induction ws arbitrary: b)
  case Nil
  then show ?case by (simp add: put_ints_def)
next
  case (Cons w ws)
  obtain k x where w: "w = (k, x)" by (cases w)
  from Cons.prems(1) w obtain b1 where b1: "put_int b k x = Inr b1" "put_ints ws b1 = Inr b'"
    by (auto simp: put_ints_def elim: bindE_InrE)
  from b1(1) have "drop n b1 = drop n b"
    using Cons.prems(2) w by (auto simp: res_simps intro!: drop_blit)
  with Cons.IH [OF b1(2)] Cons.prems(2) show ?case by simp
qed

section \<open>C strings\<close>

definition c_str_of :: "char list \<Rightarrow> char list" where
  "c_str_of b = takeWhile (\<lambda>c. c \<noteq> NUL) b"

text \<open>
  Reading the string that starts at an offset; running off the end of the allocation is a fault.
\<close>

definition cstrE :: "char list \<Rightarrow> nat \<Rightarrow> char list res" where
  "cstrE b off = (if NUL \<in> set (drop off b) then Inr (c_str_of (drop off b)) else Inl Out_Of_Bounds)"

definition no_nul :: "char list \<Rightarrow> bool" where
  "no_nul s \<longleftrightarrow> NUL \<notin> set s"

lemma c_str_of_append: "no_nul s \<Longrightarrow> c_str_of (s @ NUL # r) = s"
  by (induction s) (auto simp: c_str_of_def no_nul_def)

lemma no_nul_c_str_of [simp]: "no_nul (c_str_of b)"
  by (auto simp: c_str_of_def no_nul_def dest: set_takeWhileD)

lemma cstrE_append: "no_nul s \<Longrightarrow> cstrE (p @ s @ NUL # r) (length p) = Inr s"
  by (simp add: cstrE_def c_str_of_append)

lemma cstrE_no_nul: "cstrE b off = Inr s \<Longrightarrow> no_nul s"
  by (auto simp: cstrE_def split: if_splits)

lemma length_c_str_of: "length (c_str_of b) \<le> length b"
  by (simp add: c_str_of_def length_takeWhile_le)

lemma length_c_str_of_less: "NUL \<in> set b \<Longrightarrow> length (c_str_of b) < length b"
  by (induction b) (auto simp: c_str_of_def)

text \<open>Writing a string with its terminator into an array (\<^verbatim>\<open>strcpy\<close>, the result of \<^verbatim>\<open>sprintf\<close>).\<close>

definition put_cstr :: "char list \<Rightarrow> char list \<Rightarrow> char list res" where
  "put_cstr arr s = storeE arr 0 (s @ [NUL])"

lemma put_cstr_in: "length s < length arr \<Longrightarrow>
    put_cstr arr s = Inr (s @ NUL # drop (Suc (length s)) arr)"
  by (simp add: put_cstr_def storeE_def blit_def)

lemma put_cstr_out: "length arr \<le> length s \<Longrightarrow> put_cstr arr s = Inl Buffer_Overflow"
  by (simp add: put_cstr_def storeE_def)

lemma put_cstr_Inr_iff: "put_cstr arr s = Inr arr' \<longleftrightarrow>
    length s < length arr \<and> arr' = s @ NUL # drop (Suc (length s)) arr"
  by (auto simp: put_cstr_def storeE_def blit_def)

text \<open>\<^verbatim>\<open>strncpy(dst, src, n)\<close>: at most \<open>n\<close> bytes, padded with NULs when the source is shorter.\<close>

definition strncpyE :: "char list \<Rightarrow> char list \<Rightarrow> nat \<Rightarrow> char list res" where
  "strncpyE dst src n =
     storeE dst 0 (take n (c_str_of src) @ replicate (n - length (c_str_of src)) NUL)"

text \<open>The bytes it writes.\<close>

definition strncpy_bytes :: "char list \<Rightarrow> nat \<Rightarrow> char list" where
  "strncpy_bytes src n = take n (c_str_of src) @ replicate (n - length (c_str_of src)) NUL"

lemma length_strncpy_bytes [simp]: "length (strncpy_bytes src n) = n"
  by (simp add: strncpy_bytes_def)

lemma strncpyE_bytes: "strncpyE dst src n = storeE dst 0 (strncpy_bytes src n)"
  by (simp add: strncpyE_def strncpy_bytes_def)

lemma strncpyE_in: "n \<le> length dst \<Longrightarrow> \<exists>d. strncpyE dst src n = Inr d \<and> length d = length dst"
  by (simp add: strncpyE_def storeE_def)

text \<open>
  \<^verbatim>\<open>sprintf(dst, fmt, arg)\<close> with one integer argument, as the program calls it with a string it
  received as the format: \<^verbatim>\<open>%%\<close> prints a percent sign, the first \<^verbatim>\<open>%d\<close> or \<^verbatim>\<open>%i\<close> prints the
  argument, and every other conversion is a \<^const>\<open>Bad_Format\<close>: it reads an argument that was not
  passed or has another type, or is a directive (flags, widths, hexadecimal) outside this model.
\<close>

fun nat_digits :: "nat \<Rightarrow> nat \<Rightarrow> string" where
  "nat_digits 0 n = []"
| "nat_digits (Suc f) n =
     (if n < 10 then [char_of (48 + n)]
      else nat_digits f (n div 10) @ [char_of (48 + n mod 10)])"

definition show_int :: "int \<Rightarrow> string" where
  "show_int x = (if x < 0 then CHR ''-'' # nat_digits (Suc (nat (- x))) (nat (- x))
                 else nat_digits (Suc (nat x)) (nat x))"

fun fmt_int :: "string \<Rightarrow> int option \<Rightarrow> string res" where
  "fmt_int [] a = Inr []"
| "fmt_int (c # cs) a =
     (if c \<noteq> CHR ''%'' then bindE (fmt_int cs a) (\<lambda>r. Inr (c # r))
      else (case cs of
         [] \<Rightarrow> Inl Bad_Format
       | d # ds \<Rightarrow>
           if d = CHR ''%'' then bindE (fmt_int ds a) (\<lambda>r. Inr (CHR ''%'' # r))
           else if d = CHR ''d'' \<or> d = CHR ''i'' then
             (case a of None \<Rightarrow> Inl Bad_Format
              | Some v \<Rightarrow> bindE (fmt_int ds None) (\<lambda>r. Inr (show_int v @ r)))
           else Inl Bad_Format))"

definition sprintf_int :: "char list \<Rightarrow> string \<Rightarrow> int \<Rightarrow> char list res" where
  "sprintf_int dst fmt v = bindE (fmt_int fmt (Some v)) (put_cstr dst)"

definition plain :: "string \<Rightarrow> bool" where
  "plain s \<longleftrightarrow> CHR ''%'' \<notin> set s"

lemma fmt_int_plain: "plain s \<Longrightarrow> fmt_int s a = Inr s"
  by (induction s) (auto simp: plain_def)

lemma sprintf_int_plain: "plain s \<Longrightarrow> sprintf_int dst s v = put_cstr dst s"
  by (simp add: sprintf_int_def fmt_int_plain)

lemma sprintf_int_length: "sprintf_int dst s v = Inr d \<Longrightarrow> length d = length dst"
  by (auto simp: sprintf_int_def put_cstr_Inr_iff elim!: bindE_InrE)

lemma digit_char_not_NUL:
  assumes "k < 10"
  shows "NUL \<noteq> char_of (48 + k :: nat)"
proof
  assume "NUL = char_of (48 + k)"
  then have "(of_char NUL :: nat) = of_char (char_of (48 + k) :: char)" by simp
  with assms show False by (simp add: NUL_def)
qed

lemma no_nul_nat_digits: "no_nul (nat_digits f n)"
proof (induction f n rule: nat_digits.induct)
  case (1 n)
  then show ?case by (simp add: no_nul_def)
next
  case (2 f n)
  with digit_char_not_NUL [of n] digit_char_not_NUL [of "n mod 10"] show ?case
    by (auto simp: no_nul_def)
qed

lemma no_nul_Cons [simp]: "no_nul (c # s) \<longleftrightarrow> c \<noteq> NUL \<and> no_nul s"
  by (auto simp: no_nul_def)

lemma no_nul_append [simp]: "no_nul (s @ t) \<longleftrightarrow> no_nul s \<and> no_nul t"
  by (auto simp: no_nul_def)

lemma no_nul_show_int: "no_nul (show_int v)"
  unfolding show_int_def by (simp del: nat_digits.simps add: no_nul_nat_digits) (simp add: NUL_def)

lemma fmt_int_no_nul: "fmt_int s a = Inr r \<Longrightarrow> no_nul s \<Longrightarrow> no_nul r"
proof (induction s a arbitrary: r rule: fmt_int.induct)
  case (1 a)
  then show ?case by simp
next
  case (2 c cs a)
  then show ?case
    using no_nul_show_int
    by (auto simp: bindE_Inr_iff NUL_def split: if_splits list.splits option.splits)
qed

lemma sprintf_int_str:
  "sprintf_int dst s v = Inr d \<Longrightarrow> no_nul s \<Longrightarrow>
     \<exists>r. fmt_int s (Some v) = Inr r \<and> length r < length dst \<and> c_str_of d = r \<and> NUL \<in> set d"
proof -
  assume "sprintf_int dst s v = Inr d" and s: "no_nul s"
  then obtain r where r: "fmt_int s (Some v) = Inr r" "length r < length dst"
    "d = r @ NUL # drop (Suc (length r)) dst"
    by (auto simp: sprintf_int_def put_cstr_Inr_iff elim!: bindE_InrE)
  have "no_nul r" using r(1) s by (rule fmt_int_no_nul)
  with r show ?thesis by (auto simp: c_str_of_append)
qed

section \<open>\<^verbatim>\<open>atoi\<close>\<close>

text \<open>
  White space, an optional sign and digits; \<^verbatim>\<open>atoi\<close> is \<^verbatim>\<open>strtol\<close>, which stops at the ends of
  \<^verbatim>\<open>long\<close>, cut to an \<^verbatim>\<open>int\<close>.
\<close>

definition is_space :: "char \<Rightarrow> bool" where
  "is_space c \<longleftrightarrow> c \<in> {CHR '' '', CHR 0x09, CHR 0x0A, CHR 0x0B, CHR 0x0C, CHR 0x0D}"

definition is_digit :: "char \<Rightarrow> bool" where
  "is_digit c \<longleftrightarrow> 48 \<le> (of_char c :: nat) \<and> (of_char c :: nat) \<le> 57"

definition digits_value :: "string \<Rightarrow> int" where
  "digits_value = foldl (\<lambda>v c. 10 * v + (of_char c - 48)) 0"

definition atoi :: "string \<Rightarrow> int" where
  "atoi s =
     (let t = dropWhile is_space s;
          neg = (t \<noteq> [] \<and> hd t = CHR ''-'');
          u = (if t \<noteq> [] \<and> (hd t = CHR ''-'' \<or> hd t = CHR ''+'') then tl t else t);
          v = digits_value (takeWhile is_digit u);
          w = (if neg then - v else v)
      in signed_take_bit 31 (max (- 9223372036854775808) (min 9223372036854775807 w)))"

lemma of_char_digit: "k < 10 \<Longrightarrow> of_char (char_of (48 + k :: nat)) = (48 + k :: nat)"
  "k < 10 \<Longrightarrow> of_char (char_of (48 + k :: nat)) = (48 + int k)"
proof -
  assume k: "k < 10"
  then have "(48 + k) mod 256 = 48 + k" by simp
  then show 1: "of_char (char_of (48 + k :: nat)) = (48 + k :: nat)" by simp
  have "(of_char (char_of (48 + k)) :: int) = int (of_char (char_of (48 + k)))"
    by (simp only: of_nat_of_char)
  with 1 show "of_char (char_of (48 + k :: nat)) = (48 + int k)" by simp
qed

lemma digits_value_snoc: "digits_value (s @ [c]) = 10 * digits_value s + (of_char c - 48)"
  by (simp add: digits_value_def)

lemma nat_digits_value:
  "n < f \<Longrightarrow> digits_value (nat_digits f n) = int n \<and> (\<forall>c \<in> set (nat_digits f n). is_digit c)
     \<and> nat_digits f n \<noteq> []"
proof (induction f n rule: nat_digits.induct)
  case (1 n)
  then show ?case by simp
next
  case (2 f n)
  show ?case
  proof (cases "n < 10")
    case True
    then show ?thesis by (simp add: digits_value_def is_digit_def of_char_digit)
  next
    case False
    then have IH: "digits_value (nat_digits f (n div 10)) = int (n div 10)"
      "\<forall>c \<in> set (nat_digits f (n div 10)). is_digit c" using 2 by simp_all
    have m: "n mod 10 < 10" by simp
    have "is_digit (char_of (48 + n mod 10))" by (simp add: is_digit_def of_char_digit(1) [OF m])
    moreover have "10 * int (n div 10) + int (n mod 10) = int n"
      using mult_div_mod_eq [of "10 :: int" "int n"] by (simp only: zdiv_int zmod_int of_nat_numeral)
    moreover have "nat_digits (Suc f) n = nat_digits f (n div 10) @ [char_of (48 + n mod 10)]"
      using False by simp
    ultimately show ?thesis
      using IH by (simp only: digits_value_snoc of_char_digit(2) [OF m]) auto
  qed
qed

lemma digit_not_sign: "is_digit c \<Longrightarrow> c \<noteq> CHR ''-'' \<and> c \<noteq> CHR ''+'' \<and> \<not> is_space c"
  by (auto simp: is_digit_def is_space_def)

lemma takeWhile_digits: "\<forall>c \<in> set s. is_digit c \<Longrightarrow> r = [] \<or> \<not> is_digit (hd r) \<Longrightarrow> takeWhile is_digit (s @ r) = s"
  by (cases r) (simp_all add: takeWhile_tail)

text \<open>Printing a number and reading it back, whatever follows it.\<close>

lemma atoi_show_int:
  assumes x: "is_int32 x" and r: "r = [] \<or> \<not> is_digit (hd r)"
  shows "atoi (show_int x @ r) = x"
proof (cases "x < 0")
  case True
  let ?n = "nat (- x)"
  note d = nat_digits_value [of ?n "Suc ?n"]
  have s: "show_int x @ r = CHR ''-'' # (nat_digits (Suc ?n) ?n @ r)"
    using True by (simp add: show_int_def del: nat_digits.simps)
  have "\<not> is_space (CHR ''-'')" by (simp add: is_space_def)
  then show ?thesis
    using d x takeWhile_digits [OF _ r, of "nat_digits (Suc ?n) ?n"] True unfolding s
    by (simp add: atoi_def is_int32_def signed_take_bit_int_eq_self del: nat_digits.simps)
next
  case False
  let ?n = "nat x"
  note d = nat_digits_value [of ?n "Suc ?n"]
  obtain c cs where c: "nat_digits (Suc ?n) ?n = c # cs" using d by (cases "nat_digits (Suc ?n) ?n") auto
  have s: "show_int x @ r = nat_digits (Suc ?n) ?n @ r"
    using False by (simp add: show_int_def del: nat_digits.simps)
  have "is_digit c" using d unfolding c by simp
  then show ?thesis
    using d x takeWhile_digits [OF _ r, of "nat_digits (Suc ?n) ?n"] False digit_not_sign [of c] unfolding s c
    by (simp add: atoi_def is_int32_def signed_take_bit_int_eq_self del: nat_digits.simps)
qed

lemma length_nat_digits: "n < 10 ^ Suc k \<Longrightarrow> length (nat_digits f n) \<le> Suc k"
proof (induction k arbitrary: f n)
  case 0
  then show ?case by (cases f) simp_all
next
  case (Suc k)
  have "n div 10 < 10 ^ Suc k" using Suc.prems by (simp add: less_mult_imp_div_less mult.commute)
  with Suc.IH show ?case by (cases f) simp_all
qed

lemma show_int_chars: "0 \<le> x \<Longrightarrow> c \<in> set (show_int x) \<Longrightarrow> is_digit c"
  using nat_digits_value [of "nat x" "Suc (nat x)"] by (simp add: show_int_def del: nat_digits.simps)

text \<open>Numbers are printed digit by digit; this is how the examples evaluate.\<close>

lemma nat_digits_fuel: "n < f \<Longrightarrow> n < g \<Longrightarrow> nat_digits f n = nat_digits g n"
proof (induction f n arbitrary: g rule: nat_digits.induct)
  case (1 n)
  then show ?case by simp
next
  case (2 f n)
  then obtain h where g: "g = Suc h" by (cases g) simp_all
  show ?case
  proof (cases "n < 10")
    case True
    then show ?thesis by (simp add: g)
  next
    case False
    then have "n div 10 < f" "n div 10 < h" using 2(2,3) g by simp_all
    from 2(1) [OF False this] False show ?thesis by (simp add: g)
  qed
qed

lemma show_int_digit: "0 \<le> x \<Longrightarrow> x < 10 \<Longrightarrow> show_int x = [char_of (48 + nat x)]"
  by (simp add: show_int_def)

lemma show_int_step:
  assumes "10 \<le> x"
  shows "show_int x = show_int (x div 10) @ [char_of (48 + nat (x mod 10))]"
proof -
  have n: "nat (x div 10) = nat x div 10" "nat (x mod 10) = nat x mod 10" "\<not> nat x < 10"
    using assms by (simp_all add: nat_div_distrib nat_mod_distrib)
  have "nat_digits (nat x) (nat x div 10) = nat_digits (Suc (nat x div 10)) (nat x div 10)"
    using n(3) by (intro nat_digits_fuel) simp_all
  then have "nat_digits (Suc (nat x)) (nat x)
      = nat_digits (Suc (nat (x div 10))) (nat (x div 10)) @ [char_of (48 + nat (x mod 10))]"
    unfolding n using n(3) by (subst nat_digits.simps(2)) (simp del: nat_digits.simps)
  then show ?thesis using assms by (simp add: show_int_def del: nat_digits.simps)
qed

section \<open>Records written one behind the other\<close>

text \<open>A read that ends where two buffers still agree gives the same in both.\<close>

lemma loadE_prefix_eq:
  "take n b' = take n b \<Longrightarrow> length b' = length b \<Longrightarrow> off + k \<le> n \<Longrightarrow> loadE b' off k = loadE b off k"
proof -
  assume t: "take n b' = take n b" and l: "length b' = length b" and n: "off + k \<le> n"
  have "take k (drop off b') = take k (drop off (take n b'))" using n by (simp add: take_drop min_def)
  also have "\<dots> = take k (drop off b)" unfolding t using n by (simp add: take_drop min_def)
  finally show ?thesis using l by (simp add: loadE_def)
qed

lemma get_int_prefix_eq:
  "take n b' = take n b \<Longrightarrow> length b' = length b \<Longrightarrow> 4 * k + 4 \<le> n \<Longrightarrow> get_int b' k = get_int b k"
  using loadE_prefix_eq [of n b' b "4 * k" 4] by (simp add: get_int_def)

lemma take_blit_before: "off + length bs \<le> length b \<Longrightarrow> n \<le> off \<Longrightarrow> take n (blit b off bs) = take n b"
  by (simp add: blit_def min_def)

lemma get_int_blit_same: "4 * k + 4 \<le> length b \<Longrightarrow> is_int32 x \<Longrightarrow> get_int (blit b (4 * k) (enc32 x)) k = Inr x"
  by (rule ibuf.get_put_same [OF put_int_in])

lemma get_int_blit_other:
  "off + length bs \<le> length b \<Longrightarrow> 4 * k + 4 \<le> off \<or> off + length bs \<le> 4 * k \<Longrightarrow> 4 * k + 4 \<le> length b \<Longrightarrow>
   get_int (blit b off bs) k = get_int b k"
  by (simp add: get_int_in take_drop_blit_other)

lemma loadE_blit_same: "off + length bs \<le> length b \<Longrightarrow> loadE (blit b off bs) off (length bs) = Inr bs"
  by (simp add: loadE_def take_drop_blit_same)

section \<open>Reading messages back\<close>

lemma get_int_at: "length p = 4 * k \<Longrightarrow> get_int (p @ enc32 x @ r) k = Inr (dec32 (enc32 x))"
  by (simp add: get_int_in)

lemma loadE_append: "length p = n \<Longrightarrow> loadE (p @ s @ r) n (length s) = Inr s"
  by (simp add: loadE_def)

text \<open>Six integers at the start of a buffer.\<close>

definition header :: "int \<Rightarrow> int \<Rightarrow> int \<Rightarrow> int \<Rightarrow> int \<Rightarrow> int \<Rightarrow> char list" where
  "header a b c d e f = enc32 a @ enc32 b @ enc32 c @ enc32 d @ enc32 e @ enc32 f"

lemma length_header [simp]: "length (header a b c d e f) = 24"
  by (simp add: header_def)

lemma get_header:
  "get_int (header a b c d e f @ r) 0 = Inr (dec32 (enc32 a))"
  "get_int (header a b c d e f @ r) 1 = Inr (dec32 (enc32 b))"
  "get_int (header a b c d e f @ r) 2 = Inr (dec32 (enc32 c))"
  "get_int (header a b c d e f @ r) 3 = Inr (dec32 (enc32 d))"
  "get_int (header a b c d e f @ r) 4 = Inr (dec32 (enc32 e))"
  "get_int (header a b c d e f @ r) 5 = Inr (dec32 (enc32 f))"
  using get_int_at [of "[]" 0 a] get_int_at [of "enc32 a" 1 b] get_int_at [of "enc32 a @ enc32 b" 2 c]
    get_int_at [of "enc32 a @ enc32 b @ enc32 c" 3 d] get_int_at [of "enc32 a @ enc32 b @ enc32 c @ enc32 d" 4 e]
    get_int_at [of "enc32 a @ enc32 b @ enc32 c @ enc32 d @ enc32 e" 5 f]
  by (simp_all add: header_def)

lemma get_int_prefix: "4 * k + 4 \<le> length h \<Longrightarrow> get_int (h @ r) k = get_int h k"
  by (simp add: get_int_in)

lemma take_cstr: "cstrE b 0 = Inr s \<Longrightarrow> take (length s + 1) b = s @ [NUL]"
proof -
  assume "cstrE b 0 = Inr s"
  then have n: "NUL \<in> set b" "s = takeWhile (\<lambda>c. c \<noteq> NUL) b"
    by (auto simp: cstrE_def c_str_of_def split: if_splits)
  then show ?thesis by (induction b arbitrary: s) auto
qed

lemma blit_end: "length b = off + length bs \<Longrightarrow> blit b off bs = take off b @ bs"
  by (simp add: blit_def)

text \<open>Twenty-four bytes of header, then a body: how all messages are laid out.\<close>

lemma split_24:
  assumes "put_ints ws junk = Inr b" and "length junk = 24 + n"
  shows "\<exists>h. length h = 24 \<and> take 24 b = h \<and> (\<forall>k < 6. get_int h k = get_int b k)"
proof (intro exI conjI allI impI)
  have "length b = 24 + n" using length_put_ints [OF assms(1)] assms(2) by simp
  then show "length (take 24 b) = 24" by simp
  fix k :: nat
  assume "k < 6"
  with \<open>length b = 24 + n\<close> show "get_int (take 24 b) k = get_int b k"
    using get_int_prefix [of k "take 24 b" "drop 24 b"] by simp
qed simp

lemma blit_at_prefix: "blit (p @ r) (length p) bs = p @ bs @ drop (length bs) r"
  by (simp add: blit_def)

lemma put_int_next:
  "length p = 4 * k \<Longrightarrow> 4 \<le> length r \<Longrightarrow> put_int (p @ r) k x = Inr ((p @ enc32 x) @ drop 4 r)"
  using blit_at_prefix [of p r "enc32 x"] by (simp add: put_int_in)

text \<open>Integers written one behind the other from the start of a buffer.\<close>

lemma put_ints_front:
  "length p = 4 * k \<Longrightarrow> 4 * length xs \<le> length r \<Longrightarrow>
     put_ints (enumerate k xs) (p @ r) = Inr (p @ concat (map enc32 xs) @ drop (4 * length xs) r)"
proof (induction xs arbitrary: k p r)
  case Nil
  then show ?case by (simp add: put_ints_def)
next
  case (Cons x xs)
  then have "put_ints (enumerate (Suc k) xs) ((p @ enc32 x) @ drop 4 r)
      = Inr ((p @ enc32 x) @ concat (map enc32 xs) @ drop (4 * length xs) (drop 4 r))"
    by (intro Cons.IH) simp_all
  then show ?case using Cons.prems put_int_next [of p k r x] by (simp add: put_ints_def add.commute)
qed

lemma put_ints_4:
  "16 \<le> length r \<Longrightarrow> put_ints [(0, a), (1, b), (2, c), (3, d)] r = Inr (enc32 a @ enc32 b @ enc32 c @ enc32 d @ drop 16 r)"
proof -
  have "[(0, a), (1, b), (2, c), (3, d)] = enumerate 0 [a, b, c, d]" by (simp add: eval_nat_numeral)
  note e = this [symmetric]
  assume "16 \<le> length r"
  then show ?thesis using put_ints_front [of "[]" 0 "[a, b, c, d]" r] unfolding e by simp
qed

lemma put_ints_6:
  "24 \<le> length r \<Longrightarrow> put_ints [(0, a), (1, b), (2, c), (3, d), (4, e), (5, f)] r = Inr (header a b c d e f @ drop 24 r)"
proof -
  have "[(0, a), (1, b), (2, c), (3, d), (4, e), (5, f)] = enumerate 0 [a, b, c, d, e, f]" by (simp add: eval_nat_numeral)
  note e = this [symmetric]
  assume "24 \<le> length r"
  then show ?thesis using put_ints_front [of "[]" 0 "[a, b, c, d, e, f]" r] unfolding e by (simp add: header_def)
qed

text \<open>Any four bytes are an integer.\<close>

lemma enc32_shift: "enc32 (x + 4294967296 * k) = enc32 x"
proof -
  have d: "(x + 4294967296 * k) div 256 = x div 256 + 256 * (65536 * k)"
    "(x + 4294967296 * k) div 65536 = x div 65536 + 256 * (256 * k)"
    "(x + 4294967296 * k) div 16777216 = x div 16777216 + 256 * k"
    using div_mult_self2 [of 256 x "16777216 * k"] div_mult_self2 [of 65536 x "65536 * k"]
      div_mult_self2 [of 16777216 x "256 * k"] by (simp_all add: mult.assoc [symmetric])
  have e: "x + 4294967296 * k = x + 256 * (16777216 * k)" by simp
  have c: "char_of (y + 256 * j) = char_of y" for y j :: int
    by simp
  show ?thesis unfolding enc32_def d unfolding e c ..
qed

lemma enc32_dec32:
  assumes "length cs = 4"
  shows "enc32 (dec32 cs) = cs"
proof -
  obtain a b c d where cs: "cs = [a, b, c, d]" using assms by (auto simp: numeral_eq_Suc length_Suc_conv)
  let ?n = "\<lambda>c. of_char c :: int"
  have r: "0 \<le> ?n x \<and> ?n x < 256" for x using of_char_mod_256 [of x, where 'a = int] pos_mod_bound [of 256 "of_char x :: int"] pos_mod_sign [of 256 "of_char x :: int"] by simp
  define X where "X = ?n a + 256 * ?n b + 65536 * ?n c + 16777216 * ?n d"
  have "\<exists>k. dec32 cs = X + 4294967296 * k"
  proof -
    have "take_bit 32 (dec32 cs) = take_bit 32 X" by (simp add: cs dec32_def X_def take_bit_signed_take_bit)
    then have "dec32 cs mod 4294967296 = X mod 4294967296" by (simp add: take_bit_eq_mod)
    then show ?thesis by (metis mod_eqE)
  qed
  then have "enc32 (dec32 cs) = enc32 X" using enc32_shift by auto
  also have "\<dots> = cs"
  proof -
    have "X div 256 = ?n b + 256 * ?n c + 65536 * ?n d" "X div 65536 = ?n c + 256 * ?n d" "X div 16777216 = ?n d"
      using r [of a] r [of b] r [of c] unfolding X_def by linarith+
    moreover have "X = ?n a + (?n b + 256 * ?n c + 65536 * ?n d) * 256"
      "?n b + 256 * ?n c + 65536 * ?n d = ?n b + (?n c + 256 * ?n d) * 256" "?n c + 256 * ?n d = ?n c + ?n d * 256"
      unfolding X_def by simp_all
    then have "X mod 256 = ?n a" "(?n b + 256 * ?n c + 65536 * ?n d) mod 256 = ?n b" "(?n c + 256 * ?n d) mod 256 = ?n c"
      by (metis mod_mult_self1 of_char_mod_256)+
    then have "char_of X = a" "char_of (?n b + 256 * ?n c + 65536 * ?n d) = b" "char_of (?n c + 256 * ?n d) = c"
      by (simp_all add: char_of_eq_iff take_bit_eq_mod)
    ultimately show ?thesis by (simp add: enc32_def cs)
  qed
  finally show ?thesis .
qed

lemma header_of_bytes:
  assumes "length r = 8"
  shows "enc32 a @ enc32 b @ enc32 c @ enc32 d @ r = header a b c d (dec32 (take 4 r)) (dec32 (drop 4 r))"
  using enc32_dec32 [of "take 4 r"] enc32_dec32 [of "drop 4 r"] assms by (simp add: header_def)

end
