(* ===== verification/Msg_Wire.thy ===== *)
theory Msg_Wire
  imports C_Memory
begin

text \<open>
  \<^verbatim>\<open>libmsg.h\<close> and \<^verbatim>\<open>libmsg.c\<close>: the message header, the ports, the datagram primitives
  \<^verbatim>\<open>udp_send\<close> and \<^verbatim>\<open>udp_recv\<close>, and the stream messages of \<^verbatim>\<open>msg_send\<close>, \<^verbatim>\<open>msg_recv\<close> and
  \<^verbatim>\<open>deal_msg_request\<close> (\<^verbatim>\<open>epbssrv.c\<close>). The operating system (name resolution, \<^verbatim>\<open>sendto\<close>,
  \<^verbatim>\<open>recvfrom\<close>, \<^verbatim>\<open>read\<close>) is an argument; memory from \<^verbatim>\<open>malloc\<close> has contents that are an
  argument too (\<open>junk\<close>).
\<close>

section \<open>Constants\<close>

definition MSG_BUFF_SIZE :: nat where
  "MSG_BUFF_SIZE = 2000"

definition MSG_HEAD_SIZE :: nat where
  "MSG_HEAD_SIZE = 6"

text \<open>The size of a header in bytes, \<^verbatim>\<open>sizeof(int)*MSG_HEAD_SIZE\<close>.\<close>

definition HEAD_BYTES :: nat where
  "HEAD_BYTES = 4 * MSG_HEAD_SIZE"

lemma msg_sizes [simp]:
  "MSG_BUFF_SIZE = 2000" "MSG_HEAD_SIZE = 6" "HEAD_BYTES = 24"
  by (simp_all add: MSG_BUFF_SIZE_def MSG_HEAD_SIZE_def HEAD_BYTES_def)

datatype msg_type =
    MSG_TYPE_DATA
  | MSG_TYPE_HOST
  | MSG_TYPE_JOB_RUN
  | MSG_TYPE_JOB_SUBMIT
  | MSG_TYPE_JOB_CANCEL
  | MSG_TYPE_JOB_RETURN
  | MSG_TYPE_JOB_QUERY

fun msg_code :: "msg_type \<Rightarrow> int" where
  "msg_code MSG_TYPE_DATA = 1"
| "msg_code MSG_TYPE_HOST = 2"
| "msg_code MSG_TYPE_JOB_RUN = 3"
| "msg_code MSG_TYPE_JOB_SUBMIT = 4"
| "msg_code MSG_TYPE_JOB_CANCEL = 5"
| "msg_code MSG_TYPE_JOB_RETURN = 6"
| "msg_code MSG_TYPE_JOB_QUERY = 7"

lemma is_int32_msg_code [simp]: "is_int32 (msg_code t)"
  by (cases t) (simp_all add: is_int32_def)

datatype transport = Udp | Tcp

text \<open>The ports by the names of \<^verbatim>\<open>libmsg.h\<close>.\<close>

definition MSG_PORT_NUMBER :: int where
  "MSG_PORT_NUMBER = 4010"

definition UDP_CANCEL_JOB_SRV_PORT_NUMBER :: int where
  "UDP_CANCEL_JOB_SRV_PORT_NUMBER = 4016"

definition UDP_HOST_STAT_SRV_PORT_NUMBER :: int where
  "UDP_HOST_STAT_SRV_PORT_NUMBER = 4022"

definition UDP_INTER_JOB_SRV_PORT_NUMBER :: int where
  "UDP_INTER_JOB_SRV_PORT_NUMBER = 4032"

definition UDP_JOB_RELT_SRV_PORT_NUMBER :: int where
  "UDP_JOB_RELT_SRV_PORT_NUMBER = 4036"

definition UDP_JOB_QUE_SRV_PORT_NUMBER :: int where
  "UDP_JOB_QUE_SRV_PORT_NUMBER = 4052"

definition UDP_JOB_QUE_CLI_PORT_NUMBER :: int where
  "UDP_JOB_QUE_CLI_PORT_NUMBER = 4054"

definition UDP_JOB_STAT_CLI_PORT_NUMBER :: int where
  "UDP_JOB_STAT_CLI_PORT_NUMBER = 4058"

definition UDP_JOB_MONITOR_SRV_PORT_NUMBER :: int where
  "UDP_JOB_MONITOR_SRV_PORT_NUMBER = 4060"

definition UDP_HOST_MONITOR_SRV_PORT_NUMBER :: int where
  "UDP_HOST_MONITOR_SRV_PORT_NUMBER = 4061"

lemmas port_defs =
  MSG_PORT_NUMBER_def UDP_CANCEL_JOB_SRV_PORT_NUMBER_def UDP_HOST_STAT_SRV_PORT_NUMBER_def
  UDP_INTER_JOB_SRV_PORT_NUMBER_def UDP_JOB_RELT_SRV_PORT_NUMBER_def
  UDP_JOB_QUE_SRV_PORT_NUMBER_def UDP_JOB_QUE_CLI_PORT_NUMBER_def
  UDP_JOB_STAT_CLI_PORT_NUMBER_def UDP_JOB_MONITOR_SRV_PORT_NUMBER_def
  UDP_HOST_MONITOR_SRV_PORT_NUMBER_def

section \<open>Datagrams\<close>

record packet =
  pk_transport :: transport
  pk_addr :: string
  pk_port :: int
  pk_data :: "char list"

text \<open>
  What the sender asks of the system: \<open>os_resolve\<close> is \<^verbatim>\<open>gethostbyname\<close> (\<^const>\<open>None\<close> for a null
  result), \<open>os_sendto\<close> the count \<^verbatim>\<open>sendto\<close> returns.
\<close>

record net_os =
  os_resolve :: "string \<Rightarrow> string option"
  os_sendto :: "packet \<Rightarrow> int"

text \<open>
  The address table \<^verbatim>\<open>char *ips[]\<close>: \<^const>\<open>None\<close> is a null pointer, \<open>Some a\<close> an allocation with
  the bytes \<open>a\<close>.
\<close>

definition ptr_cstr :: "char list option list \<Rightarrow> int \<Rightarrow> string res" where
  "ptr_cstr tab i = bindE (nthE tab i) (\<lambda>p.
     case p of None \<Rightarrow> Inl Null_Deref | Some a \<Rightarrow> cstrE a 0)"

definition udp_send ::
  "net_os \<Rightarrow> char list option list \<Rightarrow> int \<Rightarrow> int \<Rightarrow> char list \<Rightarrow> nat \<Rightarrow> int \<Rightarrow> (int \<times> packet list) res" where
  "udp_send os ips src dist buffer len port =
     bindE (ptr_cstr ips dist) (\<lambda>name.
     case os_resolve os name of
       None \<Rightarrow> Inl Null_Deref
     | Some addr \<Rightarrow>
         bindE (loadE buffer 0 len) (\<lambda>data.
         let p = \<lparr>pk_transport = Udp, pk_addr = addr, pk_port = port, pk_data = data\<rparr>;
             nbytes = os_sendto os p
         in if nbytes = -1 then Inl (Exit_Process 1) else Inr (nbytes, [p])))"

text \<open>
  \<^verbatim>\<open>udp_recv\<close>: a socket is created and bound for the one call, the datagram is truncated to the
  length asked for, and a count that is not positive ends the process. \<open>dgram\<close> is what
  \<^verbatim>\<open>recvfrom\<close> delivers (\<^const>\<open>None\<close> for an error return).
\<close>

definition udp_recv ::
  "bool \<Rightarrow> bool \<Rightarrow> char list option \<Rightarrow> char list \<Rightarrow> nat \<Rightarrow> (int \<times> char list) res" where
  "udp_recv socket_ok bind_ok dgram buffer len =
     (if \<not> socket_ok then Inl (Exit_Process 1)
      else if \<not> bind_ok then Inl (Exit_Process 1)
      else (case dgram of
        None \<Rightarrow> Inl (Exit_Process 1)
      | Some d \<Rightarrow>
          let rbytes = length (take len d) in
          if rbytes = 0 \<or> rbytes > len then Inl (Exit_Process 1)
          else bindE (checkE (12 \<le> len) Out_Of_Bounds) (\<lambda>_.
               bindE (storeE buffer 0 (take len d)) (\<lambda>b. Inr (int rbytes, b)))))"

lemma udp_send_Inr_iff:
  "udp_send os ips src dst buf n port = Inr r \<longleftrightarrow>
   (\<exists>name addr. ptr_cstr ips dst = Inr name \<and> os_resolve os name = Some addr \<and> n \<le> length buf \<and>
      (let p = \<lparr>pk_transport = Udp, pk_addr = addr, pk_port = port, pk_data = take n buf\<rparr> in
         os_sendto os p \<noteq> -1 \<and> r = (os_sendto os p, [p])))"
  by (auto simp: udp_send_def bindE_Inr_iff loadE_def Let_def split: option.splits if_splits)

lemma udp_recv_datagram:
  assumes "d \<noteq> []" and "length d \<le> n" and "n \<le> length buf" and "12 \<le> n"
  shows "udp_recv True True (Some d) buf n = Inr (int (length d), blit buf 0 d)"
  using assms by (simp add: udp_recv_def storeE_def Let_def)

section \<open>Stream messages\<close>

text \<open>
  \<^verbatim>\<open>msg_send\<close> puts a header before the payload; the fifth and sixth words of the header stay as
  the allocation left them. The result is what is written to the connection.
\<close>

definition msg_send :: "char list \<Rightarrow> int \<Rightarrow> int \<Rightarrow> char list \<Rightarrow> nat \<Rightarrow> char list res" where
  "msg_send junk src dist buffer len =
     bindE (loadE buffer 0 len) (\<lambda>body.
     bindE (storeE junk HEAD_BYTES body) (\<lambda>m.
     put_ints [(0, msg_code MSG_TYPE_DATA), (1, src), (2, dist), (3, int len)] m))"

text \<open>
  One pass of the loop of \<^verbatim>\<open>deal_msg_request\<close>: one \<^verbatim>\<open>read\<close> of at most \<^const>\<open>MSG_BUFF_SIZE\<close> bytes,
  all of which go to the pipe.
\<close>

definition deal_msg_request_iter :: "char list \<Rightarrow> char list \<Rightarrow> char list" where
  "deal_msg_request_iter conn pipe = pipe @ take MSG_BUFF_SIZE conn"

text \<open>
  \<^verbatim>\<open>msg_recv\<close>: one \<^verbatim>\<open>read\<close> of the pipe into a fresh allocation, three checks of the header that
  end the process, then the payload. It returns the count, the buffer and the rest of the pipe.
\<close>

definition msg_recv ::
  "char list \<Rightarrow> int \<Rightarrow> int \<Rightarrow> char list \<Rightarrow> nat \<Rightarrow> char list \<Rightarrow> (int \<times> char list \<times> char list) res" where
  "msg_recv junk local_id src buffer len pipe =
     (if src \<noteq> local_id then Inl (Exit_Process 1) else
      let nbytes = len + HEAD_BYTES; got = take nbytes pipe in
      bindE (storeE junk 0 got) (\<lambda>m.
      bindE (get_int m 0) (\<lambda>m_type.
      bindE (get_int m 2) (\<lambda>m_dist.
      bindE (get_int m 3) (\<lambda>m_len.
        if m_type \<noteq> msg_code MSG_TYPE_DATA then Inl (Exit_Process 1)
        else if m_dist \<noteq> src then Inl (Exit_Process 1)
        else if m_len \<noteq> int len then Inl (Exit_Process 1)
        else bindE (loadE m HEAD_BYTES len) (\<lambda>body.
             bindE (storeE buffer 0 body) (\<lambda>b. Inr (int (length got), b, drop nbytes pipe))))))))"

text \<open>\<^verbatim>\<open>msg_check_configure\<close>: \<open>resolves\<close> is whether \<^verbatim>\<open>gethostbyname(hosts[local_id])\<close> finds a host.\<close>

definition msg_check_configure :: "int \<Rightarrow> int \<Rightarrow> bool \<Rightarrow> unit res" where
  "msg_check_configure num_hosts local_id resolves =
     (if num_hosts < 1 then Inl (Exit_Process (-1))
      else if local_id < 1 \<or> local_id > num_hosts then Inl (Exit_Process (-1))
      else if \<not> resolves then Inl (Exit_Process (-1))
      else Inr ())"

lemma msg_send_Inr:
  assumes "length junk = n + 24" and "n \<le> length buf"
  shows "\<exists>m. msg_send junk src dst buf n = Inr m \<and> length m = n + 24 \<and> drop 24 m = take n buf"
proof -
  let ?b = "blit junk 24 (take n buf)"
  have "\<forall>w \<in> set [(0, 1), (1, src), (2, dst), (3, int n)]. 4 * fst w + 4 \<le> length ?b"
    using assms by simp
  from put_ints_defined [OF this] obtain m
    where m: "put_ints [(0, 1), (1, src), (2, dst), (3, int n)] ?b = Inr m" "length m = length ?b"
    by blast
  have "drop 24 m = drop 24 ?b" by (rule put_ints_drop [OF m(1)]) simp
  also have "\<dots> = take n buf" using assms by (simp add: blit_def)
  finally have "drop 24 m = take n buf" .
  with m assms show ?thesis by (simp add: msg_send_def loadE_def storeE_def)
qed

text \<open>The header of a message built by \<^verbatim>\<open>msg_send\<close>.\<close>

lemma msg_send_header:
  assumes m: "msg_send junk src dst buf n = Inr m" and j: "length junk = n + 24" and n: "n \<le> length buf"
    and r: "is_int32 src" "is_int32 dst" "is_int32 (int n)"
  shows "get_int m 0 = Inr 1" "get_int m 1 = Inr src" "get_int m 2 = Inr dst" "get_int m 3 = Inr (int n)"
proof -
  let ?b = "blit junk 24 (take n buf)"
  let ?ws = "[(0::nat, 1), (1, src), (2, dst), (3, int n)]"
  from m j n have p: "put_ints ?ws ?b = Inr m"
    by (simp add: msg_send_def loadE_def storeE_def)
  have 1: "is_int32 1" by (simp add: is_int32_def)
  have cap: "\<forall>w \<in> set ?ws. 4 * fst w + 4 \<le> length ?b" using j n by simp
  have d: "distinct (map fst ?ws)" by simp
  note get = put_ints_get [OF p _ d cap]
  show "get_int m 0 = Inr 1" using 1 by (intro get) simp_all
  show "get_int m 1 = Inr src" using r by (intro get) simp_all
  show "get_int m 2 = Inr dst" using r by (intro get) simp_all
  show "get_int m 3 = Inr (int n)" using r by (intro get) simp_all
qed

text \<open>
  A message that fits the transfer buffer arrives: sent by \<^verbatim>\<open>msg_send\<close>, read once by
  \<^verbatim>\<open>deal_msg_request\<close> and put into an empty pipe, it is read back by \<^verbatim>\<open>msg_recv\<close> on the host it
  was addressed to, which returns the payload and leaves the pipe empty.
\<close>

lemma msg_roundtrip:
  assumes "length junk = n + 24" and "length junk' = n + 24" and "n \<le> length buf"
    and "n + 24 \<le> MSG_BUFF_SIZE" and "n \<le> length dest"
    and "is_int32 src" and "is_int32 dst" and "msg_send junk src dst buf n = Inr m"
  shows "msg_recv junk' dst dst dest n (deal_msg_request_iter m []) =
           Inr (int (n + 24), blit dest 0 (take n buf), [])"
proof -
  from msg_send_Inr [OF assms(1,3), of src dst] assms(8)
  have len: "length m = n + 24" and body: "drop 24 m = take n buf" by auto
  have i: "is_int32 (int n)" using assms(4) by (simp add: is_int32_def)
  have p: "deal_msg_request_iter m [] = m" using len assms(4) by (simp add: deal_msg_request_iter_def)
  have s: "storeE junk' 0 m = Inr m" using len assms(2) by (simp add: storeE_def blit_def)
  show ?thesis
    using len body s assms(3,5) msg_send_header [OF assms(8,1,3,6,7) i] unfolding p
    by (simp add: msg_recv_def loadE_def storeE_def)
qed

lemma msg_roundtrip_witness:
  "msg_send (replicate 26 NUL) 1 2 ''ok'' 2 =
     Inr (enc32 1 @ enc32 1 @ enc32 2 @ enc32 2 @ replicate 8 NUL @ ''ok'') \<and>
   msg_recv (replicate 26 NUL) 2 2 ''..'' 2
     (deal_msg_request_iter (enc32 1 @ enc32 1 @ enc32 2 @ enc32 2 @ replicate 8 NUL @ ''ok'') []) =
     Inr (26, ''ok'', [])"
proof -
  have m: "msg_send (replicate 26 NUL) 1 2 ''ok'' 2 =
     Inr (enc32 1 @ enc32 1 @ enc32 2 @ enc32 2 @ replicate 8 NUL @ ''ok'')"
    by code_simp
  have "blit ''..'' 0 (take 2 ''ok'') = ''ok''" by code_simp
  then show ?thesis
    using m msg_roundtrip [OF _ _ _ _ _ _ _ m, of "replicate 26 NUL" "''..''"]
    by (simp add: is_int32_def)
qed

end
