(* ===== verification/Server_State.thy ===== *)
theory Server_State
  imports Msg_Wire
begin

text \<open>
  The data of the server process: \<^verbatim>\<open>batch_job_info\<close> (\<^verbatim>\<open>libjobq.h\<close>), \<^verbatim>\<open>epbs_host_info\<close>
  (\<^verbatim>\<open>libhost.h\<close>), their layout in memory, and the global variables that the threads of
  \<^verbatim>\<open>epbssrv.c\<close> share. A \<^verbatim>\<open>char\<close> array is a byte list of its length; \<^verbatim>\<open>int\<close>, \<^verbatim>\<open>time_t\<close>,
  \<^verbatim>\<open>clock_t\<close> and \<^verbatim>\<open>pthread_t\<close> members are integers.
\<close>

section \<open>Constants\<close>

definition MAX_JOB_QUEUE :: nat where
  "MAX_JOB_QUEUE = 32"

definition NUM_HOSTS :: nat where
  "NUM_HOSTS = 2"

definition MAX_NUM_HOSTS :: nat where
  "MAX_NUM_HOSTS = 2 * NUM_HOSTS + 1"

definition JOB_STAT_INQUEUE :: int where
  "JOB_STAT_INQUEUE = 1"

definition JOB_STAT_RUNNING :: int where
  "JOB_STAT_RUNNING = 2"

definition JOB_STAT_FINISHED :: int where
  "JOB_STAT_FINISHED = 3"

definition JOB_STAT_UNKNOW :: int where
  "JOB_STAT_UNKNOW = 4"

definition HOST_STAT_BUSY :: int where
  "HOST_STAT_BUSY = 1"

definition HOST_STAT_FREE :: int where
  "HOST_STAT_FREE = 2"

definition HOST_STAT_OFFLINE :: int where
  "HOST_STAT_OFFLINE = 3"

definition HOST_STAT_ONLINE :: int where
  "HOST_STAT_ONLINE = 4"

lemma table_sizes [simp]:
  "MAX_JOB_QUEUE = 32" "MAX_NUM_HOSTS = 5"
  by (simp_all add: MAX_JOB_QUEUE_def MAX_NUM_HOSTS_def NUM_HOSTS_def)

lemmas job_stat_defs =
  JOB_STAT_INQUEUE_def JOB_STAT_RUNNING_def JOB_STAT_FINISHED_def JOB_STAT_UNKNOW_def

lemmas host_stat_defs =
  HOST_STAT_BUSY_def HOST_STAT_FREE_def HOST_STAT_OFFLINE_def HOST_STAT_ONLINE_def

section \<open>Structures\<close>

record batch_job_info =
  pcomm :: "char list"
  username :: "char list"
  num_req_nodes :: int
  time0 :: int
  time1 :: int
  time2 :: int
  time3 :: int
  job_stat :: int
  job_id :: int
  tid :: int

record epbs_host_info =
  host_id :: int
  host_stat :: int
  num_cores :: int
  num_mem :: int
  clock1 :: int
  clock2 :: int
  ip :: "char list"

text \<open>
  The structures as \<^verbatim>\<open>memcpy\<close> sees them. \<^verbatim>\<open>batch_job_info\<close>: 256 + 32 bytes of text, an
  \<^verbatim>\<open>int\<close>, four bytes of padding, four times, two \<^verbatim>\<open>int\<close>s and a thread id, 344 bytes.
  \<^verbatim>\<open>epbs_host_info\<close>: four \<^verbatim>\<open>int\<close>s, two clocks, 32 bytes of text, 64 bytes.
\<close>

definition job_bytes :: "batch_job_info \<Rightarrow> char list" where
  "job_bytes j =
     pcomm j @ username j @ enc32 (num_req_nodes j) @ replicate 4 NUL
     @ enc64 (time0 j) @ enc64 (time1 j) @ enc64 (time2 j) @ enc64 (time3 j)
     @ enc32 (job_stat j) @ enc32 (job_id j) @ enc64 (tid j)"

definition SIZEOF_JOB :: nat where
  "SIZEOF_JOB = 344"

definition SIZEOF_HOST :: nat where
  "SIZEOF_HOST = 64"

definition job_ok :: "batch_job_info \<Rightarrow> bool" where
  "job_ok j \<longleftrightarrow> length (pcomm j) = 256 \<and> length (username j) = 32
     \<and> NUL \<in> set (pcomm j) \<and> NUL \<in> set (username j)"

lemma length_job_bytes [len_simps]: "job_ok j \<Longrightarrow> length (job_bytes j) = SIZEOF_JOB"
  by (simp add: job_ok_def job_bytes_def SIZEOF_JOB_def)

section \<open>The state the threads share\<close>

text \<open>
  \<^verbatim>\<open>job_head\<close> and \<^verbatim>\<open>job_tail\<close> are \<^verbatim>\<open>int\<close>s that start at 0 and are only ever assigned a value
  modulo the queue size, so they are natural numbers here. \<open>hosts\<close> and \<open>ips\<close> are the two
  arrays of pointers (\<^const>\<open>None\<close> for a null pointer).
\<close>

record server =
  jobq :: "batch_job_info list"
  jobnodes :: "int list"
  nodesstat :: "int list"
  job_head :: nat
  job_tail :: nat
  pcstat :: "int list"
  hostq :: "epbs_host_info list"
  local_id :: int
  num_hosts :: int
  hosts :: "char list option list"
  ips :: "char list option list"

text \<open>The sizes of the arrays, which no operation changes, and the ranges of the indices.\<close>

definition server_ok :: "server \<Rightarrow> bool" where
  "server_ok s \<longleftrightarrow>
     length (jobq s) = MAX_JOB_QUEUE \<and> length (jobnodes s) = MAX_JOB_QUEUE
     \<and> length (nodesstat s) = MAX_NUM_HOSTS \<and> length (pcstat s) = MAX_NUM_HOSTS
     \<and> length (hostq s) = MAX_NUM_HOSTS + 1
     \<and> length (hosts s) = MAX_NUM_HOSTS + 1 \<and> length (ips s) = MAX_NUM_HOSTS + 1
     \<and> job_head s < MAX_JOB_QUEUE \<and> job_tail s < MAX_JOB_QUEUE
     \<and> (\<forall>j \<in> set (jobq s). job_ok j)"

lemma server_okD:
  assumes "server_ok s"
  shows "length (jobq s) = 32" "length (jobnodes s) = 32" "length (nodesstat s) = 5"
    "length (pcstat s) = 5" "length (hostq s) = 6" "length (hosts s) = 6" "length (ips s) = 6"
    "job_head s < 32" "job_tail s < 32"
  using assms by (simp_all add: server_ok_def)

lemma server_ok_job: "server_ok s \<Longrightarrow> i < 32 \<Longrightarrow> job_ok (jobq s ! i)"
  by (auto simp: server_ok_def)

lemma set_update_ball: "\<forall>x \<in> set xs. P x \<Longrightarrow> P v \<Longrightarrow> \<forall>x \<in> set (xs[i := v]). P x"
  by (auto dest!: set_update_subset_insert [THEN subsetD])

text \<open>An update of one job keeps the state well formed when the new contents of the slot are.\<close>

lemma server_ok_jobq [wf_intros]:
  "server_ok s \<Longrightarrow> job_ok j \<Longrightarrow> server_ok (s\<lparr>jobq := (jobq s)[i := j]\<rparr>)"
  using set_update_ball [of "jobq s" job_ok j i] by (simp add: server_ok_def)

lemma server_ok_tables [wf_intros]:
  "server_ok s \<Longrightarrow> server_ok (s\<lparr>jobnodes := (jobnodes s)[i := n]\<rparr>)"
  "server_ok s \<Longrightarrow> server_ok (s\<lparr>nodesstat := (nodesstat s)[i := n]\<rparr>)"
  "server_ok s \<Longrightarrow> server_ok (s\<lparr>pcstat := (pcstat s)[i := n]\<rparr>)"
  "server_ok s \<Longrightarrow> server_ok (s\<lparr>hostq := (hostq s)[i := h]\<rparr>)"
  by (simp_all add: server_ok_def)

lemma server_ok_ring [wf_intros]:
  "server_ok s \<Longrightarrow> server_ok (s\<lparr>job_head := k mod MAX_JOB_QUEUE\<rparr>)"
  "server_ok s \<Longrightarrow> server_ok (s\<lparr>job_tail := k mod MAX_JOB_QUEUE\<rparr>)"
  by (simp_all add: server_ok_def)

text \<open>\<^verbatim>\<open>epbssrv_configure\<close> leaves every slot empty; the static storage is zero before.\<close>

definition zero_job :: batch_job_info where
  "zero_job = \<lparr>pcomm = replicate 256 NUL, username = replicate 32 NUL, num_req_nodes = 0,
     time0 = 0, time1 = 0, time2 = 0, time3 = 0, job_stat = 0, job_id = 0, tid = 0\<rparr>"

definition zero_host :: epbs_host_info where
  "zero_host = \<lparr>host_id = 0, host_stat = 0, num_cores = 0, num_mem = 0, clock1 = 0, clock2 = 0,
     ip = replicate 32 NUL\<rparr>"

definition zero_server :: server where
  "zero_server = \<lparr>jobq = replicate MAX_JOB_QUEUE zero_job, jobnodes = replicate MAX_JOB_QUEUE 0,
     nodesstat = replicate MAX_NUM_HOSTS 0, job_head = 0, job_tail = 0,
     pcstat = replicate MAX_NUM_HOSTS 0, hostq = replicate (MAX_NUM_HOSTS + 1) zero_host,
     local_id = 0, num_hosts = 0, hosts = replicate (MAX_NUM_HOSTS + 1) None,
     ips = replicate (MAX_NUM_HOSTS + 1) None\<rparr>"

lemma job_ok_zero: "job_ok zero_job"
  by (simp add: job_ok_def zero_job_def)

lemma server_ok_zero: "server_ok zero_server"
  by (simp add: server_ok_def zero_server_def job_ok_zero)

end
