(* ===== verification/Job_Ring.thy ===== *)
theory Job_Ring
  imports Server_State
begin

text \<open>
  The job queue of \<^verbatim>\<open>libjobq.c\<close>: the ring \<^verbatim>\<open>jobq\<close> between \<^verbatim>\<open>job_tail\<close> and \<^verbatim>\<open>job_head\<close>,
  the critical sections that put a job in and take one out, and the queue they implement. The
  contract of a bounded queue is a locale; the ring is its instance.
\<close>

section \<open>The critical sections\<close>

text \<open>The test \<^verbatim>\<open>(job_head+1)%MAX_JOB_QUEUE == job_tail\<close>.\<close>

definition ring_full :: "server \<Rightarrow> bool" where
  "ring_full s \<longleftrightarrow> (job_head s + 1) mod MAX_JOB_QUEUE = job_tail s"

text \<open>
  The section that pushes a job (\<^verbatim>\<open>job_monitor_etransfer\<close>, \<^verbatim>\<open>job_queue_push\<close>): the received
  command and user name are used as format strings, the length as the one argument. The result
  holds the new job's id.
\<close>

definition job_enqueue ::
  "string \<Rightarrow> int \<Rightarrow> string \<Rightarrow> int \<Rightarrow> int \<Rightarrow> int \<Rightarrow> server \<Rightarrow> (server \<times> int) res" where
  "job_enqueue comm_str comm_str_len user user_len nreq now s =
     bindE (nthE (jobq s) (int (job_head s))) (\<lambda>job.
     bindE (sprintf_int (pcomm job) comm_str comm_str_len) (\<lambda>pc.
     bindE (sprintf_int (username job) user user_len) (\<lambda>un.
       let new_job_id = int (job_head s);
           job' = job\<lparr>pcomm := pc, username := un, num_req_nodes := nreq, time1 := now,
                      job_stat := JOB_STAT_INQUEUE, job_id := new_job_id\<rparr>
       in Inr (s\<lparr>jobq := (jobq s)[job_head s := job'],
                 job_head := (job_head s + 1) mod MAX_JOB_QUEUE\<rparr>, new_job_id))))"

text \<open>
  The section that takes the job at the tail (\<^verbatim>\<open>job_queue_pop\<close>): \<^const>\<open>None\<close> when the queue is
  empty. The command is copied, again as a format, into a local array \<^verbatim>\<open>char pcomm[32]\<close>;
  \<open>tk_slot\<close> is the pointer \<^verbatim>\<open>job\<close> that the thread keeps using after it releases the lock.
\<close>

record taken_job =
  tk_slot :: nat
  tk_job_id :: int
  tk_pcomm :: "char list"
  tk_nreq :: int

definition job_dequeue :: "char list \<Rightarrow> server \<Rightarrow> (server \<times> taken_job option) res" where
  "job_dequeue local_pcomm s =
     (if job_head s = job_tail s then Inr (s, None)
      else bindE (nthE (jobq s) (int (job_tail s))) (\<lambda>job.
           bindE (cstrE (pcomm job) 0) (\<lambda>fmt.
           bindE (sprintf_int local_pcomm fmt (int (length fmt))) (\<lambda>pc.
             Inr (s\<lparr>job_tail := (job_tail s + 1) mod MAX_JOB_QUEUE,
                    jobq := (jobq s)[job_tail s := job\<lparr>job_stat := JOB_STAT_RUNNING\<rparr>]\<rparr>,
                  Some \<lparr>tk_slot = job_tail s, tk_job_id = job_id job, tk_pcomm = pc,
                        tk_nreq = num_req_nodes job\<rparr>)))))"

section \<open>The queue they implement\<close>

definition ring_len :: "server \<Rightarrow> nat" where
  "ring_len s = (job_head s + MAX_JOB_QUEUE - job_tail s) mod MAX_JOB_QUEUE"

definition ring_slots :: "server \<Rightarrow> nat list" where
  "ring_slots s = map (\<lambda>k. (job_tail s + k) mod MAX_JOB_QUEUE) [0..<ring_len s]"

type_synonym request = "string \<times> int"

definition job_request :: "batch_job_info \<Rightarrow> request" where
  "job_request j = (c_str_of (pcomm j), num_req_nodes j)"

text \<open>The waiting requests in the order in which they were submitted.\<close>

definition pending :: "server \<Rightarrow> request list" where
  "pending s = map (\<lambda>i. job_request (jobq s ! i)) (ring_slots s)"

lemma length_pending: "length (pending s) = ring_len s"
  by (simp add: pending_def ring_slots_def)

lemma ring_slots_lt: "i \<in> set (ring_slots s) \<Longrightarrow> i < 32"
  by (auto simp: ring_slots_def)

text \<open>Sums of two indices need at most one reduction.\<close>

lemma mod32_once: "x < 64 \<Longrightarrow> x mod 32 = (if x < 32 then x else x - 32)" for x :: nat
  by (simp add: le_mod_geq)

lemma mod_shift_inj:
  assumes "(t + a) mod 32 = (t + b) mod 32" and "a < 32" and "b < 32"
  shows "a = (b :: nat)"
proof -
  have "(t mod 32 + a) mod 32 = (t mod 32 + b) mod 32"
    using assms(1) by (simp add: mod_add_left_eq)
  moreover have "t mod 32 + a < 64" "t mod 32 + b < 64"
    using assms(2,3) mod_less_divisor [of 32 t] by linarith+
  ultimately show ?thesis
    using assms(2,3) by (simp add: mod32_once split: if_splits)
qed

lemma distinct_ring_slots: "distinct (ring_slots s)"
proof -
  have "ring_len s < 32" by (simp add: ring_len_def)
  then show ?thesis
    by (auto simp: ring_slots_def distinct_map inj_on_def dest: mod_shift_inj)
qed

text \<open>Lengths of the ring around a push and a pop.\<close>

lemma ring_len_push:
  assumes "h < 32" and "t < 32" and "(h + 1) mod 32 \<noteq> t"
  shows "((h + 1) mod 32 + 32 - t) mod 32 = Suc ((h + 32 - t) mod 32)"
    and "(t + (h + 32 - t) mod 32) mod 32 = (h :: nat)"
  using assms by (auto simp: mod32_once split: if_splits)

lemma ring_len_pop:
  assumes "h < 32" and "t < 32" and "h \<noteq> t"
  shows "(h + 32 - t) mod 32 = Suc ((h + 32 - (t + 1) mod 32) mod (32 :: nat))"
  using assms by (auto simp: mod32_once)

lemma ring_slots_push:
  assumes "server_ok s" and "\<not> ring_full s"
  shows "ring_slots (s\<lparr>jobq := q, job_head := (job_head s + 1) mod MAX_JOB_QUEUE\<rparr>)
           = ring_slots s @ [job_head s]"
  using assms ring_len_push [of "job_head s" "job_tail s"]
  by (simp add: ring_slots_def ring_len_def ring_full_def server_okD del: upt_Suc) simp

lemma ring_slots_pop:
  assumes "server_ok s" and "job_head s \<noteq> job_tail s"
  shows "ring_slots s = job_tail s # ring_slots (s\<lparr>job_tail := (job_tail s + 1) mod MAX_JOB_QUEUE, jobq := q\<rparr>)"
proof -
  let ?t = "job_tail s"
  let ?n = "(job_head s + 32 - (?t + 1) mod 32) mod 32"
  have "ring_slots s = map (\<lambda>k. (?t + k) mod 32) [0..<Suc ?n]"
    using assms ring_len_pop [of "job_head s" ?t]
    by (simp add: ring_slots_def ring_len_def server_okD del: upt_Suc)
  also have "\<dots> = ?t mod 32 # map (\<lambda>k. (?t + Suc k) mod 32) [0..<?n]"
    by (simp add: upt_conv_Cons map_Suc_upt [symmetric] del: upt_Suc)
  also have "\<dots> = ?t # map (\<lambda>k. ((?t + 1) mod 32 + k) mod 32) [0..<?n]"
    using assms(1) by (simp add: server_okD mod_simps)
  finally show ?thesis by (simp add: ring_slots_def ring_len_def)
qed

lemma head_not_pending: "server_ok s \<Longrightarrow> job_head s \<notin> set (ring_slots s)"
proof
  assume ok: "server_ok s" and "job_head s \<in> set (ring_slots s)"
  then obtain k where "k < ring_len s" "job_head s = (job_tail s + k) mod 32"
    by (auto simp: ring_slots_def)
  with server_okD(8,9) [OF ok] show False
    by (auto simp: ring_len_def mod32_once split: if_splits)
qed

section \<open>Push and pop on the queue\<close>

lemma put_cstr_job:
  assumes "length s < length arr" and "no_nul s"
  shows "\<exists>a. put_cstr arr s = Inr a \<and> length a = length arr \<and> NUL \<in> set a \<and> c_str_of a = s"
  using assms by (simp add: put_cstr_in c_str_of_append)

definition printable :: "nat \<Rightarrow> string \<Rightarrow> bool" where
  "printable n s \<longleftrightarrow> plain s \<and> no_nul s \<and> length s < n"

lemma sprintf_int_printable:
  assumes "printable n s" and "n \<le> length arr"
  shows "\<exists>a. sprintf_int arr s v = Inr a \<and> length a = length arr \<and> NUL \<in> set a \<and> c_str_of a = s"
  using assms put_cstr_job [of s arr] by (simp add: printable_def sprintf_int_plain)

lemma job_enqueue_printable:
  assumes ok: "server_ok s" and comm: "printable 256 comm" and user: "printable 32 user"
  shows "\<exists>j. job_enqueue comm cl user ul nreq now s =
      Inr (s\<lparr>jobq := (jobq s)[job_head s := j], job_head := (job_head s + 1) mod MAX_JOB_QUEUE\<rparr>,
           int (job_head s))
    \<and> job_ok j \<and> job_request j = (comm, nreq) \<and> c_str_of (username j) = user
    \<and> job_id j = int (job_head s) \<and> job_stat j = JOB_STAT_INQUEUE \<and> time1 j = now"
proof -
  let ?old = "jobq s ! job_head s"
  have old: "length (pcomm ?old) = 256" "length (username ?old) = 32"
    using server_ok_job [OF ok server_okD(8) [OF ok]] by (simp_all add: job_ok_def)
  obtain pc where pc: "sprintf_int (pcomm ?old) comm cl = Inr pc" "length pc = 256"
    "NUL \<in> set pc" "c_str_of pc = comm"
    using sprintf_int_printable [OF comm, of "pcomm ?old" cl] old by auto
  obtain un where un: "sprintf_int (username ?old) user ul = Inr un" "length un = 32"
    "NUL \<in> set un" "c_str_of un = user"
    using sprintf_int_printable [OF user, of "username ?old" ul] old by auto
  have slot: "in_range (jobq s) (int (job_head s))" using ok by (simp add: server_okD)
  show ?thesis
    by (rule exI [of _ "?old\<lparr>pcomm := pc, username := un, num_req_nodes := nreq, time1 := now,
        job_stat := JOB_STAT_INQUEUE, job_id := int (job_head s)\<rparr>"])
      (use slot pc un in \<open>simp add: job_enqueue_def job_ok_def job_request_def Let_def\<close>)
qed

lemma pending_push:
  assumes "server_ok s" and "\<not> ring_full s"
  shows "pending (s\<lparr>jobq := (jobq s)[job_head s := j], job_head := (job_head s + 1) mod MAX_JOB_QUEUE\<rparr>)
           = pending s @ [job_request j]"
proof -
  have "\<forall>i \<in> set (ring_slots s). (jobq s)[job_head s := j] ! i = jobq s ! i"
    using head_not_pending [OF assms(1)] by (metis nth_list_update_neq)
  then show ?thesis
    using ring_slots_push [OF assms, of "(jobq s)[job_head s := j]"] server_okD(1,8) [OF assms(1)]
    by (simp add: pending_def cong: map_cong)
qed

lemma job_dequeue_printable:
  assumes ok: "server_ok s" and ne: "job_head s \<noteq> job_tail s" and len: "length arr = 32"
    and comm: "printable 32 (c_str_of (pcomm (jobq s ! job_tail s)))"
  shows "\<exists>t. job_dequeue arr s =
      Inr (s\<lparr>job_tail := (job_tail s + 1) mod MAX_JOB_QUEUE,
             jobq := (jobq s)[job_tail s := (jobq s ! job_tail s)\<lparr>job_stat := JOB_STAT_RUNNING\<rparr>]\<rparr>, Some t)
    \<and> tk_slot t = job_tail s \<and> tk_job_id t = job_id (jobq s ! job_tail s)
    \<and> (c_str_of (tk_pcomm t), tk_nreq t) = job_request (jobq s ! job_tail s)
    \<and> length (tk_pcomm t) = 32 \<and> NUL \<in> set (tk_pcomm t)"
proof -
  let ?j = "jobq s ! job_tail s"
  have "NUL \<in> set (pcomm ?j)"
    using server_ok_job [OF ok server_okD(9) [OF ok]] by (simp add: job_ok_def)
  then have c: "cstrE (pcomm ?j) 0 = Inr (c_str_of (pcomm ?j))" by (simp add: cstrE_def)
  obtain pc where pc: "sprintf_int arr (c_str_of (pcomm ?j)) (int (length (c_str_of (pcomm ?j)))) = Inr pc"
    "length pc = 32" "NUL \<in> set pc" "c_str_of pc = c_str_of (pcomm ?j)"
    using sprintf_int_printable [OF comm, of arr] len by auto
  have slot: "in_range (jobq s) (int (job_tail s))" using ok by (simp add: server_okD)
  show ?thesis
    by (rule exI [of _ "\<lparr>tk_slot = job_tail s, tk_job_id = job_id ?j, tk_pcomm = pc,
        tk_nreq = num_req_nodes ?j\<rparr>"])
      (use slot ne c pc in \<open>simp add: job_dequeue_def job_request_def\<close>)
qed

lemma pending_pop:
  assumes "server_ok s" and "job_head s \<noteq> job_tail s"
  shows "pending s = job_request (jobq s ! job_tail s) #
    pending (s\<lparr>job_tail := (job_tail s + 1) mod MAX_JOB_QUEUE, jobq := (jobq s)[job_tail s := j]\<rparr>)"
proof -
  let ?s' = "s\<lparr>job_tail := (job_tail s + 1) mod MAX_JOB_QUEUE, jobq := (jobq s)[job_tail s := j]\<rparr>"
  have slots: "ring_slots s = job_tail s # ring_slots ?s'" by (rule ring_slots_pop [OF assms])
  then have "job_tail s \<notin> set (ring_slots ?s')" using distinct_ring_slots [of s] by simp
  then have "\<forall>i \<in> set (ring_slots ?s'). (jobq s)[job_tail s := j] ! i = jobq s ! i"
    by (metis nth_list_update_neq)
  then show ?thesis by (simp add: pending_def slots)
qed

lemma pending_Nil_iff: "server_ok s \<Longrightarrow> pending s = [] \<longleftrightarrow> job_head s = job_tail s"
  using server_okD(8,9) [of s] length_pending [of s]
  by (auto simp: ring_len_def mod32_once simp flip: length_0_conv split: if_splits)

lemma not_full_iff: "server_ok s \<Longrightarrow> \<not> ring_full s \<longleftrightarrow> length (pending s) < 31"
  using server_okD(8,9) [of s]
  by (auto simp: ring_full_def length_pending ring_len_def mod32_once split: if_splits)

section \<open>The contract of a bounded queue\<close>

datatype 'r qop = Enq 'r | Deq

text \<open>
  A script of operations run on an implementation, with the list of what was taken out; and on a
  plain list. \<open>fits\<close>: the script never asks for more room than there is.
\<close>

fun queue_run ::
  "('r \<Rightarrow> 'q \<Rightarrow> 'q res) \<Rightarrow> ('q \<Rightarrow> ('q \<times> 'k option) res) \<Rightarrow> 'r qop list \<Rightarrow> 'q \<Rightarrow> ('q \<times> 'k option list) res" where
  "queue_run enq deq [] q = Inr (q, [])"
| "queue_run enq deq (Enq r # ops) q = bindE (enq r q) (queue_run enq deq ops)"
| "queue_run enq deq (Deq # ops) q =
     bindE (deq q) (\<lambda>(q', k). bindE (queue_run enq deq ops q') (\<lambda>(q'', ks). Inr (q'', k # ks)))"

fun list_run :: "('r \<Rightarrow> 'k) \<Rightarrow> 'r qop list \<Rightarrow> 'k list \<Rightarrow> 'k list \<times> 'k option list" where
  "list_run key [] ks = (ks, [])"
| "list_run key (Enq r # ops) ks = list_run key ops (ks @ [key r])"
| "list_run key (Deq # ops) ks =
     (let (ks', out) = list_run key ops (tl ks)
      in (ks', (case ks of [] \<Rightarrow> None | k # _ \<Rightarrow> Some k) # out))"

fun fits :: "('r \<Rightarrow> bool) \<Rightarrow> nat \<Rightarrow> 'r qop list \<Rightarrow> nat \<Rightarrow> bool" where
  "fits ok cap [] n = True"
| "fits ok cap (Enq r # ops) n = (ok r \<and> n < cap \<and> fits ok cap ops (Suc n))"
| "fits ok cap (Deq # ops) n = fits ok cap ops (n - 1)"

locale bounded_queue =
  fixes enq :: "'r \<Rightarrow> 'q \<Rightarrow> 'q res"
    and deq :: "'q \<Rightarrow> ('q \<times> 'k option) res"
    and contents :: "'q \<Rightarrow> 'k list"
    and inv :: "'q \<Rightarrow> bool"
    and ok :: "'r \<Rightarrow> bool"
    and key :: "'r \<Rightarrow> 'k"
    and capacity :: nat
  assumes enq_law: "inv q \<Longrightarrow> ok r \<Longrightarrow> length (contents q) < capacity \<Longrightarrow>
      \<exists>q'. enq r q = Inr q' \<and> inv q' \<and> contents q' = contents q @ [key r]"
    and deq_empty: "inv q \<Longrightarrow> contents q = [] \<Longrightarrow> deq q = Inr (q, None)"
    and deq_law: "inv q \<Longrightarrow> contents q = k # ks \<Longrightarrow>
      \<exists>q'. deq q = Inr (q', Some k) \<and> inv q' \<and> contents q' = ks"
begin

text \<open>Every script that fits gives what the list gives, without a fault.\<close>

lemma run_refines:
  "inv q \<Longrightarrow> fits ok capacity ops (length (contents q)) \<Longrightarrow>
   \<exists>q' out. queue_run enq deq ops q = Inr (q', out) \<and> inv q'
      \<and> list_run key ops (contents q) = (contents q', out)"
proof (induction ops arbitrary: q)
  case Nil
  then show ?case by simp
next
  case (Cons op ops)
  show ?case
  proof (cases op)
    case (Enq r)
    with Cons.prems enq_law [of q r] obtain q1 where
      q1: "enq r q = Inr q1" "inv q1" "contents q1 = contents q @ [key r]" by auto
    with Cons.IH [of q1] Cons.prems Enq show ?thesis by auto
  next
    case Deq
    show ?thesis
    proof (cases "contents q")
      case Nil
      with Cons.prems deq_empty [of q] Cons.IH [of q] Deq show ?thesis by fastforce
    next
      case (Cons k ks)
      from deq_law [OF \<open>inv q\<close> Cons] obtain q1 where
        q1: "deq q = Inr (q1, Some k)" "inv q1" "contents q1 = ks" by blast
      with Cons.IH [of q1] Cons.prems Deq Cons show ?thesis by fastforce
    qed
  qed
qed

end

section \<open>The ring is a bounded queue\<close>

text \<open>
  A submission as the monitor thread performs it: command, user, nodes asked for, and the time.
  The lengths passed to \<^verbatim>\<open>sprintf\<close> count the terminating NUL.
\<close>

type_synonym submission = "string \<times> string \<times> int \<times> int"

definition ring_push :: "submission \<Rightarrow> server \<Rightarrow> server res" where
  "ring_push = (\<lambda>(comm, user, nreq, now) s.
     bindE (job_enqueue comm (int (length comm) + 1) user (int (length user) + 1) nreq now s)
       (\<lambda>(s', _). Inr s'))"

definition ring_pop :: "server \<Rightarrow> (server \<times> request option) res" where
  "ring_pop s = bindE (job_dequeue (replicate 32 NUL) s)
     (\<lambda>(s', t). Inr (s', map_option (\<lambda>t. (c_str_of (tk_pcomm t), tk_nreq t)) t))"

text \<open>
  Commands of less than 32 characters without a percent sign: the ones the pop thread can copy.
\<close>

definition ring_inv :: "server \<Rightarrow> bool" where
  "ring_inv s \<longleftrightarrow> server_ok s \<and> (\<forall>r \<in> set (pending s). printable 32 (fst r))"

fun submission_ok :: "submission \<Rightarrow> bool" where
  "submission_ok (comm, user, nreq, now) = (printable 32 comm \<and> printable 32 user)"

fun submission_key :: "submission \<Rightarrow> request" where
  "submission_key (comm, user, nreq, now) = (comm, nreq)"

lemma printable_mono: "printable m s \<Longrightarrow> m \<le> n \<Longrightarrow> printable n s"
  by (simp add: printable_def)

lemma server_ok_push:
  "server_ok s \<Longrightarrow> job_ok j \<Longrightarrow>
   server_ok (s\<lparr>jobq := (jobq s)[i := j], job_head := k mod MAX_JOB_QUEUE\<rparr>)"
  using server_ok_ring(1) [OF server_ok_jobq [of s j i], of k] by simp

lemma server_ok_pop:
  "server_ok s \<Longrightarrow> job_ok j \<Longrightarrow>
   server_ok (s\<lparr>job_tail := k mod MAX_JOB_QUEUE, jobq := (jobq s)[i := j]\<rparr>)"
  using set_update_ball [of "jobq s" job_ok j i] by (simp add: server_ok_def)

lemma ring_push_ok:
  assumes inv: "ring_inv s" and ok: "submission_ok r" and len: "length (pending s) < 31"
  shows "\<exists>q'. ring_push r s = Inr q' \<and> ring_inv q' \<and> pending q' = pending s @ [submission_key r]"
proof -
  obtain comm user nreq now where r: "r = (comm, user, nreq, now)" by (cases r)
  have sok: "server_ok s" using inv by (simp add: ring_inv_def)
  have comm: "printable 256 comm" "printable 32 user"
    using ok r by (auto intro: printable_mono)
  from job_enqueue_printable [OF sok comm] obtain j where j:
    "job_enqueue comm (int (length comm) + 1) user (int (length user) + 1) nreq now s =
      Inr (s\<lparr>jobq := (jobq s)[job_head s := j], job_head := (job_head s + 1) mod MAX_JOB_QUEUE\<rparr>,
           int (job_head s))" "job_ok j" "job_request j = (comm, nreq)"
    by blast
  let ?s' = "s\<lparr>jobq := (jobq s)[job_head s := j], job_head := (job_head s + 1) mod MAX_JOB_QUEUE\<rparr>"
  have p: "pending ?s' = pending s @ [(comm, nreq)]"
    using pending_push [OF sok, of j] not_full_iff [OF sok] len j(3) by simp
  have "ring_inv ?s'"
    using inv ok r p server_ok_push [OF sok j(2)] by (simp add: ring_inv_def)
  then show ?thesis
    using j(1) p r by (simp add: ring_push_def)
qed

lemma ring_pop_ok:
  assumes inv: "ring_inv s" and ks: "pending s = k # ks"
  shows "\<exists>q'. ring_pop s = Inr (q', Some k) \<and> ring_inv q' \<and> pending q' = ks"
proof -
  have sok: "server_ok s" using inv by (simp add: ring_inv_def)
  have ne: "job_head s \<noteq> job_tail s" using ks pending_Nil_iff [OF sok] by auto
  let ?j = "jobq s ! job_tail s"
  have k: "k = job_request ?j" using ks pending_pop [OF sok ne] by simp
  have "printable 32 (c_str_of (pcomm ?j))"
    using inv ks k by (simp add: ring_inv_def job_request_def)
  from job_dequeue_printable [OF sok ne _ this, of "replicate 32 NUL"] obtain t where t:
    "job_dequeue (replicate 32 NUL) s =
      Inr (s\<lparr>job_tail := (job_tail s + 1) mod MAX_JOB_QUEUE,
             jobq := (jobq s)[job_tail s := ?j\<lparr>job_stat := JOB_STAT_RUNNING\<rparr>]\<rparr>, Some t)"
    "(c_str_of (tk_pcomm t), tk_nreq t) = job_request ?j"
    by auto
  let ?s' = "s\<lparr>job_tail := (job_tail s + 1) mod MAX_JOB_QUEUE,
             jobq := (jobq s)[job_tail s := ?j\<lparr>job_stat := JOB_STAT_RUNNING\<rparr>]\<rparr>"
  have p: "pending ?s' = ks" using ks pending_pop [OF sok ne] by simp
  have "job_ok (?j\<lparr>job_stat := JOB_STAT_RUNNING\<rparr>)"
    using server_ok_job [OF sok server_okD(9) [OF sok]] by (simp add: job_ok_def)
  then have "ring_inv ?s'"
    using inv ks p server_ok_pop [OF sok] by (simp add: ring_inv_def)
  then show ?thesis
    using t p k by (simp add: ring_pop_def)
qed

lemma ring_pop_empty: "ring_inv s \<Longrightarrow> pending s = [] \<Longrightarrow> ring_pop s = Inr (s, None)"
  by (simp add: ring_pop_def job_dequeue_def ring_inv_def pending_Nil_iff)

interpretation job_queue: bounded_queue ring_push ring_pop pending ring_inv submission_ok submission_key 31
  by unfold_locales (rule ring_push_ok ring_pop_ok ring_pop_empty; assumption)+





end
