(* ===== verification/Sock_Addr.thy ===== *)
theory Sock_Addr
  imports C_Memory "HOL-Library.Word"
begin

text \<open>
  The address classes of \<^verbatim>\<open>etransfer/NetAux.h\<close>: \<^verbatim>\<open>CSockAddr\<close>, which keeps a
  \<^verbatim>\<open>sockaddr_in\<close> in network byte order, with its comparison operators, and \<^verbatim>\<open>CHost\<close>, which
  keeps an address and a port in host order. What \<^verbatim>\<open>std::map\<close> asks of a comparison is a locale.
  \<^verbatim>\<open>inet_addr\<close> and \<^verbatim>\<open>gethostbyname\<close> are arguments.
\<close>

unbundle bit_operations_syntax

section \<open>Byte order\<close>

definition htonl :: "32 word \<Rightarrow> 32 word" where
  "htonl x = push_bit 24 x OR (push_bit 8 x AND 0xFF0000) OR (drop_bit 8 x AND 0xFF00) OR drop_bit 24 x"

definition htons :: "16 word \<Rightarrow> 16 word" where
  "htons x = push_bit 8 x OR drop_bit 8 x"

text \<open>\<^verbatim>\<open>ntohl\<close> and \<^verbatim>\<open>ntohs\<close> are the same exchange of bytes.\<close>

abbreviation ntohl :: "32 word \<Rightarrow> 32 word" where "ntohl \<equiv> htonl"
abbreviation ntohs :: "16 word \<Rightarrow> 16 word" where "ntohs \<equiv> htons"

lemma bit_byte_mask:
  "bit (0xFF0000 :: 32 word) n \<longleftrightarrow> 16 \<le> n \<and> n < 24"
  "bit (0xFF00 :: 32 word) n \<longleftrightarrow> 8 \<le> n \<and> n < 16"
proof -
  have m: "(0xFF0000 :: 32 word) = push_bit 16 (mask 8)" "(0xFF00 :: 32 word) = push_bit 8 (mask 8)"
    by (simp_all add: push_bit_eq_mult mask_eq_exp_minus_1)
  show "bit (0xFF0000 :: 32 word) n \<longleftrightarrow> 16 \<le> n \<and> n < 24" "bit (0xFF00 :: 32 word) n \<longleftrightarrow> 8 \<le> n \<and> n < 16"
    unfolding m by (auto simp: bit_simps)
qed

lemma bit_htonl: "bit (htonl x) n \<longleftrightarrow> n < 32 \<and> bit x (8 * (3 - n div 8) + n mod 8)"
proof (cases "n < 32")
  case True
  then consider "n < 8" | "8 \<le> n" "n < 16" | "16 \<le> n" "n < 24" | "24 \<le> n" by linarith
  then show ?thesis
  proof cases
    case 1
    then have "\<not> bit (0xFF0000 :: 32 word) n" "\<not> bit (0xFF00 :: 32 word) n" unfolding bit_byte_mask by simp_all
    with 1 show ?thesis by (simp add: htonl_def bit_simps add.commute)
  next
    case 2
    then have "n div 8 = 1" "n mod 8 = n - 8" by (simp_all add: div_nat_eqI mod_if)
    moreover have "\<not> bit (0xFF0000 :: 32 word) n" "bit (0xFF00 :: 32 word) n" using 2 unfolding bit_byte_mask by simp_all
    ultimately show ?thesis using 2 by (auto simp: htonl_def bit_simps add.commute dest: bit_imp_le_length)
  next
    case 3
    then have "n div 8 = 2" "n mod 8 = n - 16" by (simp_all add: div_nat_eqI mod_if)
    moreover have "bit (0xFF0000 :: 32 word) n" "\<not> bit (0xFF00 :: 32 word) n" using 3 unfolding bit_byte_mask by simp_all
    ultimately show ?thesis using 3 by (auto simp: htonl_def bit_simps add.commute dest: bit_imp_le_length)
  next
    case 4
    with True have "n div 8 = 3" "n mod 8 = n - 24" by (simp_all add: div_nat_eqI mod_if)
    moreover have "\<not> bit (0xFF0000 :: 32 word) n" "\<not> bit (0xFF00 :: 32 word) n" using 4 unfolding bit_byte_mask by simp_all
    ultimately show ?thesis using 4 True by (auto simp: htonl_def bit_simps add.commute dest: bit_imp_le_length)
  qed
qed (auto simp: htonl_def bit_simps dest: bit_imp_le_length)

lemma ntohl_htonl [simp]: "ntohl (htonl x) = x"
proof (rule bit_word_eqI)
  fix n
  assume n: "n < LENGTH(32)"
  then have "8 * (3 - n div 8) + n mod 8 < 32" "(8 * (3 - n div 8) + n mod 8) div 8 = 3 - n div 8"
    "(8 * (3 - n div 8) + n mod 8) mod 8 = n mod 8" by (auto simp: less_mult_imp_div_less)
  with n show "bit (htonl (htonl x)) n \<longleftrightarrow> bit x n"
    by (simp add: bit_htonl less_mult_imp_div_less)
qed

lemma ntohs_htons [simp]: "ntohs (htons x) = x"
  by (rule bit_word_eqI) (auto simp: htons_def bit_simps)

lemma htonl_inj [simp]: "htonl x = htonl y \<longleftrightarrow> x = y"
  by (metis ntohl_htonl)

lemma htons_inj [simp]: "htons x = htons y \<longleftrightarrow> x = y"
  by (metis ntohs_htons)

section \<open>Text of addresses\<close>

text \<open>\<^verbatim>\<open>inet_ntoa\<close> on an address in network order: the first byte in memory is printed first.\<close>

definition inet_ntoa :: "32 word \<Rightarrow> string" where
  "inet_ntoa a =
     show_int (uint (a AND 0xFF)) @ ''.'' @ show_int (uint (drop_bit 8 a AND 0xFF)) @ ''.''
     @ show_int (uint (drop_bit 16 a AND 0xFF)) @ ''.'' @ show_int (uint (drop_bit 24 a))"

text \<open>The library functions that turn text into an address in network order.\<close>

record resolver =
  rs_inet_addr :: "string \<Rightarrow> 32 word"
  rs_gethostbyname :: "string \<Rightarrow> 32 word option"

definition INADDR_NONE :: "32 word" where
  "INADDR_NONE = 0xFFFFFFFF"

text \<open>\<^verbatim>\<open>CNetAux::resolveHostName\<close>: the result is in host order, 0 for a name without address.\<close>

definition resolveHostName :: "resolver \<Rightarrow> string \<Rightarrow> 32 word" where
  "resolveHostName rs name =
     (let a = rs_inet_addr rs name
      in ntohl (if a = INADDR_NONE
                then (case rs_gethostbyname rs name of None \<Rightarrow> 0 | Some h \<Rightarrow> h) else a))"

section \<open>\<^verbatim>\<open>CSockAddr\<close>\<close>

definition AF_INET :: nat where
  "AF_INET = 2"

datatype csockaddr = CSockAddr (sin_family: nat) (sin_port: "16 word") (sin_addr: "32 word")

definition sa_reset :: csockaddr where
  "sa_reset = CSockAddr 0 0 0"

text \<open>The constructor from an \<^verbatim>\<open>unsigned long\<close> and a port, and \<^verbatim>\<open>fromIntIP\<close>.\<close>

definition sa_of_ip :: "64 word \<Rightarrow> 16 word \<Rightarrow> csockaddr" where
  "sa_of_ip i p = CSockAddr AF_INET (htons p) (htonl (ucast i))"

definition sa_fromIntIP :: "32 word \<Rightarrow> 16 word \<Rightarrow> csockaddr" where
  "sa_fromIntIP i p = CSockAddr AF_INET (htons p) (htonl i)"

text \<open>
  The constructor from a host name and a port: when the name does not resolve it returns early,
  with the result of \<^verbatim>\<open>inet_addr\<close> as the address and without the port.
\<close>

definition sa_of_host :: "resolver \<Rightarrow> string \<Rightarrow> 16 word \<Rightarrow> csockaddr" where
  "sa_of_host rs host p =
     (if host = [] then CSockAddr AF_INET (htons p) 0
      else if rs_inet_addr rs host = INADDR_NONE
      then (case rs_gethostbyname rs host of
              None \<Rightarrow> CSockAddr AF_INET 0 INADDR_NONE
            | Some h \<Rightarrow> CSockAddr AF_INET (htons p) h)
      else CSockAddr AF_INET (htons p) (rs_inet_addr rs host))"

text \<open>
  The common part of the two \<^verbatim>\<open>fromStr\<close>: at most 127 characters are kept, the text after the
  first colon is the port, the text before it the name.
\<close>

definition split_host_port :: "string \<Rightarrow> 16 word \<Rightarrow> string \<times> 16 word" where
  "split_host_port s p =
     (let name = take 127 s
      in if CHR '':'' \<in> set name
         then (takeWhile (\<lambda>c. c \<noteq> CHR '':'') name,
               word_of_int (atoi (tl (dropWhile (\<lambda>c. c \<noteq> CHR '':'') name))))
         else (name, p))"

definition sa_fromStr :: "resolver \<Rightarrow> string \<Rightarrow> 16 word \<Rightarrow> csockaddr" where
  "sa_fromStr rs s p =
     (case split_host_port s p of (name, prt) \<Rightarrow>
        CSockAddr AF_INET (htons prt) (htonl (resolveHostName rs name)))"

definition GetIP :: "csockaddr \<Rightarrow> 64 word" where
  "GetIP a = ucast (ntohl (sin_addr a))"

definition GetPort :: "csockaddr \<Rightarrow> 16 word" where
  "GetPort a = ntohs (sin_port a)"

definition sa_eq :: "csockaddr \<Rightarrow> csockaddr \<Rightarrow> bool" where
  "sa_eq a b \<longleftrightarrow> GetIP a = GetIP b \<and> GetPort a = GetPort b"

definition sa_neq :: "csockaddr \<Rightarrow> csockaddr \<Rightarrow> bool" where
  "sa_neq a b \<longleftrightarrow> GetIP a \<noteq> GetIP b \<or> GetPort a \<noteq> GetPort b"

definition sa_less :: "csockaddr \<Rightarrow> csockaddr \<Rightarrow> bool" where
  "sa_less a b =
     (if GetIP a < GetIP b then True
      else if GetIP a > GetIP b then False
      else if GetPort a < GetPort b then True
      else False)"

definition sa_isValid :: "csockaddr \<Rightarrow> bool" where
  "sa_isValid a = (if GetIP a = 0 \<or> GetIP a = 0xffffffff then False else True)"

definition sa_ToString :: "csockaddr \<Rightarrow> string" where
  "sa_ToString a = inet_ntoa (sin_addr a) @ '':'' @ show_int (uint (GetPort a))"

section \<open>\<^verbatim>\<open>CHost\<close>\<close>

datatype chost = CHost (ch_ip: "32 word") (ch_port: "16 word")

definition ch_eq :: "chost \<Rightarrow> chost \<Rightarrow> bool" where
  "ch_eq a b \<longleftrightarrow> ch_ip b = ch_ip a \<and> ch_port b = ch_port a"

definition ch_isValid :: "chost \<Rightarrow> bool" where
  "ch_isValid a \<longleftrightarrow> ch_ip a \<noteq> 0"

definition ch_toStr :: "chost \<Rightarrow> string" where
  "ch_toStr a = inet_ntoa (htonl (ch_ip a)) @ '':'' @ show_int (uint (ch_port a))"

definition ch_fromStr :: "resolver \<Rightarrow> string \<Rightarrow> 16 word \<Rightarrow> chost" where
  "ch_fromStr rs s p =
     (case split_host_port s p of (name, prt) \<Rightarrow> CHost (resolveHostName rs name) prt)"

definition ch_neq :: "chost \<Rightarrow> chost \<Rightarrow> bool" where
  "ch_neq a b \<longleftrightarrow> ch_ip b \<noteq> ch_ip a \<or> ch_port b \<noteq> ch_port a"

definition ch_isSame :: "chost \<Rightarrow> chost \<Rightarrow> bool" where
  "ch_isSame a b \<longleftrightarrow> ch_ip b = ch_ip a \<and> ch_port b = ch_port a"

definition ch_IPtoStr :: "chost \<Rightarrow> string" where
  "ch_IPtoStr a = inet_ntoa (htonl (ch_ip a))"

definition ch_fromIntIP :: "32 word \<Rightarrow> 16 word \<Rightarrow> chost" where
  "ch_fromIntIP i p = CHost i p"

text \<open>The constructor from a text, which is handed on as a C string.\<close>

definition ch_of_text :: "resolver \<Rightarrow> string \<Rightarrow> 16 word \<Rightarrow> chost" where
  "ch_of_text rs s p = ch_fromStr rs (c_str_of s) p"

definition sa_IPtoStr :: "csockaddr \<Rightarrow> string" where
  "sa_IPtoStr a = inet_ntoa (sin_addr a)"

text \<open>The text of an address and a port put together again.\<close>

lemma ch_text_parts:
  "ch_toStr a = ch_IPtoStr a @ '':'' @ show_int (uint (ch_port a))"
  "sa_ToString b = sa_IPtoStr b @ '':'' @ show_int (uint (GetPort b))"
  "ch_neq a c \<longleftrightarrow> \<not> ch_eq a c" "ch_isSame a c \<longleftrightarrow> ch_eq a c" "ch_eq a c \<longleftrightarrow> a = c"
  by (cases a; cases c; auto simp: ch_toStr_def ch_IPtoStr_def sa_ToString_def sa_IPtoStr_def ch_neq_def ch_isSame_def ch_eq_def)+

section \<open>The order of \<^verbatim>\<open>std::map\<close>\<close>

text \<open>
  What \<^verbatim>\<open>std::map\<close> and \<^verbatim>\<open>std::set\<close> ask of their comparison, and what it then gives: keys that
  compare neither way are the same key.
\<close>

locale map_order =
  fixes less :: "'a \<Rightarrow> 'a \<Rightarrow> bool"
    and same :: "'a \<Rightarrow> 'a \<Rightarrow> bool"
  assumes less_irrefl: "\<not> less a a"
    and less_trans: "less a b \<Longrightarrow> less b c \<Longrightarrow> less a c"
    and incomparable: "\<not> less a b \<and> \<not> less b a \<longleftrightarrow> same a b"
    and same_trans: "same a b \<Longrightarrow> same b c \<Longrightarrow> same a c"
begin

lemma less_asym: "less a b \<Longrightarrow> \<not> less b a"
  using less_irrefl less_trans by blast

lemma same_sym: "same a b \<Longrightarrow> same b a"
  using incomparable by blast

lemma trichotomy: "less a b \<or> same a b \<or> less b a"
  using incomparable by blast

lemma less_same: "less a b \<Longrightarrow> same b c \<Longrightarrow> less a c"
proof -
  assume l: "less a b" and s: "same b c"
  have "\<not> less c a" using less_trans [OF _ l] s incomparable by blast
  moreover have "\<not> same a c" using same_trans [OF _ same_sym [OF s]] incomparable l by blast
  ultimately show "less a c" using incomparable by blast
qed

end

lemma GetIP_eq: "GetIP a = GetIP b \<longleftrightarrow> sin_addr a = sin_addr b"
proof -
  have "GetIP a = GetIP b \<longleftrightarrow> ntohl (sin_addr a) = ntohl (sin_addr b)"
    by (auto simp: GetIP_def dest!: arg_cong [where f = "unsigned :: 64 word \<Rightarrow> 32 word"])
      (simp add: ucast_up_ucast_id is_up)
  then show ?thesis by simp
qed

lemma sa_less_iff: "sa_less a b \<longleftrightarrow> GetIP a < GetIP b \<or> (GetIP a = GetIP b \<and> GetPort a < GetPort b)"
  by (auto simp: sa_less_def)

interpretation sa_order: map_order sa_less sa_eq
  by unfold_locales (auto simp: sa_less_iff sa_eq_def not_less)

section \<open>Properties\<close>


lemma length_show_byte:
  assumes "uint w < 256"
  shows "length (show_int (uint w)) \<le> 3"
proof -
  have "nat (uint w) < nat 1000" using assms by (subst nat_less_eq_zless) simp_all
  then have "nat (uint w) < 10 ^ Suc 2" by (simp only: nat_numeral) simp
  from length_nat_digits [OF this] show ?thesis by (simp add: show_int_def del: nat_digits.simps)
qed

lemma uint_byte:
  "uint (x AND 0xFF :: 32 word) < 256" "uint (drop_bit 24 x :: 32 word) < 256"
proof -
  have "(0xFF :: 32 word) = mask 8" by (simp add: mask_eq_exp_minus_1)
  then have "x AND 0xFF = take_bit 8 x" by (simp only: take_bit_eq_mask)
  then have "uint (x AND 0xFF) = uint x mod 2 ^ 8"
    by (simp only: unsigned_take_bit_eq) (simp only: take_bit_eq_mod)
  moreover have "uint x mod 2 ^ 8 < 256" by simp
  ultimately show "uint (x AND 0xFF :: 32 word) < 256" by (simp only:)
  have "uint x < 2 ^ 32" using uint_bounded [of x] by simp
  then show "uint (drop_bit 24 x :: 32 word) < 256"
    by (simp add: unsigned_drop_bit_eq drop_bit_eq_div uint_div)
qed

lemma inet_ntoa_text:
  "length (inet_ntoa a) \<le> 15" "CHR '':'' \<notin> set (inet_ntoa a)"
proof -
  note b = uint_byte(1) [of a] uint_byte(1) [of "drop_bit 8 a"] uint_byte(1) [of "drop_bit 16 a"]
    uint_byte(2) [of a]
  have l: "length (show_int (uint w)) \<le> 3" if "uint w < 256" for w :: "32 word"
    by (rule length_show_byte) (fact that)
  show "length (inet_ntoa a) \<le> 15"
    using l [OF b(1)] l [OF b(2)] l [OF b(3)] l [OF b(4)] by (simp add: inet_ntoa_def)
  have c: "CHR '':'' \<notin> set (show_int (uint w))" for w :: "32 word"
    using show_int_chars [of "uint w" "CHR '':''"] by (auto simp: is_digit_def)
  show "CHR '':'' \<notin> set (inet_ntoa a)" unfolding inet_ntoa_def using c by simp
qed

lemma length_show_port: "length (show_int (uint (p :: 16 word))) \<le> 5"
proof -
  have "uint p < 2 ^ 16" using uint_bounded [of p] by simp
  then have "nat (uint p) < nat 100000" by (subst nat_less_eq_zless) simp_all
  then have "nat (uint p) < 10 ^ Suc 4" by (simp only: nat_numeral) simp
  from length_nat_digits [OF this] show ?thesis by (simp add: show_int_def del: nat_digits.simps)
qed

lemma split_host_port_text:
  assumes "length n \<le> 15" and "CHR '':'' \<notin> set n"
  shows "split_host_port (n @ '':'' @ show_int (uint p)) q = (n, p)"
proof -
  let ?s = "n @ '':'' @ show_int (uint p)"
  have t: "take 127 ?s = ?s" using assms(1) length_show_port [of p] by simp
  have w: "takeWhile (\<lambda>c. c \<noteq> CHR '':'') ?s = n" "dropWhile (\<lambda>c. c \<noteq> CHR '':'') ?s = '':'' @ show_int (uint p)"
    using assms(2) by (induction n) auto
  have "uint p < 65536" using uint_bounded [of p] by simp
  then have "is_int32 (uint p)" unfolding is_int32_def using uint_ge_0 [of p] by (intro conjI; linarith)
  then have "atoi (show_int (uint p)) = uint p" using atoi_show_int [of "uint p" "[]"] by simp
  then show ?thesis unfolding split_host_port_def t Let_def w by simp
qed

text \<open>
  A printed \<^verbatim>\<open>CHost\<close> reads back as itself, whatever default port is given, when the resolver
  knows the dotted form of its address (which is not the broadcast address); a \<^verbatim>\<open>CSockAddr\<close>
  comes back equal under its own \<^verbatim>\<open>==\<close>.
\<close>

lemma host_text_roundtrip:
  assumes "rs_inet_addr rs (inet_ntoa (htonl i)) = htonl i" and "htonl i \<noteq> INADDR_NONE"
  shows "ch_fromStr rs (ch_toStr (CHost i p)) q = CHost i p
    \<and> sa_eq (sa_fromStr rs (sa_ToString (sa_fromIntIP i p)) q) (sa_fromIntIP i p)"
proof -
  have "resolveHostName rs (inet_ntoa (htonl i)) = i"
    using assms by (simp add: resolveHostName_def Let_def)
  then show ?thesis
    by (simp add: ch_fromStr_def ch_toStr_def sa_fromStr_def sa_ToString_def sa_fromIntIP_def GetPort_def
        sa_eq_def GetIP_def split_host_port_text inet_ntoa_text del: append.simps)
qed

definition example_resolver :: resolver where
  "example_resolver = \<lparr>rs_inet_addr = (\<lambda>s. if s = ''127.0.0.1'' then 0x0100007F else INADDR_NONE),
     rs_gethostbyname = (\<lambda>_. None)\<rparr>"

lemma host_text_roundtrip_witness:
  "ch_toStr (CHost 0x7F000001 8080) = ''127.0.0.1:8080''
   \<and> ch_fromStr example_resolver (ch_toStr (CHost 0x7F000001 8080)) 0 = CHost 0x7F000001 8080"
proof -
  have h: "htonl 0x7F000001 = 0x0100007F" by (simp add: htonl_def)
  have s: "show_int 0 = ''0''" "show_int 1 = ''1''" "show_int 127 = ''127''" "show_int 8080 = ''8080''"
    by (simp_all add: show_int_step char_of_def show_int_digit bit_0)
  have n: "inet_ntoa 0x0100007F = ''127.0.0.1''" by (simp add: inet_ntoa_def s)
  moreover have "ch_toStr (CHost 0x7F000001 8080) = ''127.0.0.1:8080''" by (simp add: ch_toStr_def h n s)
  ultimately show ?thesis
    using h host_text_roundtrip [where rs = example_resolver and i = "0x7F000001" and p = 8080 and q = 0]
    by (simp add: example_resolver_def INADDR_NONE_def)
qed

text \<open>
  The constructor from a host name returns before it sets the port when the name does not
  resolve: the port that was asked for is lost and the address is the one \<^verbatim>\<open>isValid\<close> rejects. In
  every other case the port is the one asked for.
\<close>

lemma sa_of_host_port:
  "(let a = sa_of_host rs host p;
        unresolved = (host \<noteq> [] \<and> rs_inet_addr rs host = INADDR_NONE \<and> rs_gethostbyname rs host = None)
    in GetPort a = (if unresolved then 0 else p) \<and> \<not> (unresolved \<and> sa_isValid a))"
proof -
  have "htonl INADDR_NONE = INADDR_NONE" "htons 0 = 0" by (simp_all add: htonl_def htons_def INADDR_NONE_def)
  moreover have "(ucast INADDR_NONE :: 64 word) = 0xffffffff" by (simp add: INADDR_NONE_def)
  ultimately show ?thesis
    by (auto simp: sa_of_host_def Let_def GetPort_def GetIP_def sa_isValid_def split: option.splits)
qed

end
