(* ===== verification/Tcp_Socket.thy ===== *)
theory Tcp_Socket
  imports Sock_Addr "HOL-Library.Multiset"
begin

text \<open>
  \<^verbatim>\<open>USocket\<close> (\<^verbatim>\<open>etransfer/usocket.h\<close>) and its one subclass \<^verbatim>\<open>UTcpSocket\<close>
  (\<^verbatim>\<open>etransfer/utcp_socket.cpp\<close>): the state of a socket and every method, with the answers of the
  operating system as arguments. \<^verbatim>\<open>CUtility::Min(len, MAX_RECV_LEN)\<close> and its counterpart for
  sending are not in the repository; they are the functions \<open>ut_recv_cap\<close> and \<open>ut_send_cap\<close>.
  Descriptors given to \<^verbatim>\<open>CLOSESOCKET\<close> are returned in a list.
\<close>

section \<open>Constants and state\<close>

definition SOCK_TYPE_TCP :: int where
  "SOCK_TYPE_TCP = 1"

datatype sock_status =
    SOCK_CONNECTING
  | SOCK_ACCEPTED
  | SOCK_CONNECTED
  | SOCK_CLOSED
  | SOCK_ERROR

text \<open>The error numbers that the code compares with, as Linux has them (\<^verbatim>\<open>EAGAIN\<close> is the first).\<close>

definition EWOULDBLOCK :: int where
  "EWOULDBLOCK = 11"

definition EINPROGRESS :: int where
  "EINPROGRESS = 115"

definition FD_SETSIZE :: int where
  "FD_SETSIZE = 1024"

record usocket =
  m_type :: int
  m_sock :: int
  m_status :: sock_status
  m_reason :: int
  m_bneedreadselect :: bool
  m_bneedwriteselect :: bool
  m_addr :: csockaddr

text \<open>The constructor leaves \<^verbatim>\<open>m_reason\<close> as the allocation had it.\<close>

definition new_UTcpSocket :: "int \<Rightarrow> usocket" where
  "new_UTcpSocket junk = \<lparr>m_type = SOCK_TYPE_TCP, m_sock = -1, m_status = SOCK_CLOSED, m_reason = junk,
     m_bneedreadselect = False, m_bneedwriteselect = False, m_addr = sa_reset\<rparr>"

section \<open>Descriptor sets\<close>

text \<open>An \<^verbatim>\<open>fd_set\<close> is a bit array of \<^const>\<open>FD_SETSIZE\<close> bits; \<^verbatim>\<open>FD_SET\<close> does not check the index.\<close>

type_synonym fds = "int list"

definition FD_SET :: "int \<Rightarrow> fds \<Rightarrow> fds res" where
  "FD_SET fd s = (if 0 \<le> fd \<and> fd < FD_SETSIZE then Inr (List.insert fd s) else Inl Out_Of_Bounds)"

definition FD_ISSET :: "int \<Rightarrow> fds \<Rightarrow> bool res" where
  "FD_ISSET fd s = (if 0 \<le> fd \<and> fd < FD_SETSIZE then Inr (fd \<in> set s) else Inl Out_Of_Bounds)"

section \<open>The methods of \<^verbatim>\<open>UTcpSocket\<close>\<close>

definition tcp_init :: "csockaddr \<Rightarrow> usocket \<Rightarrow> usocket \<times> int" where
  "tcp_init a u = (u\<lparr>m_addr := a\<rparr>, 0)"

text \<open>\<open>nonblock\<close> is what \<^verbatim>\<open>CNetAux::setSockNonBlocking\<close> returns, \<open>err\<close> the last error.\<close>

definition tcp_bind :: "int \<Rightarrow> int \<Rightarrow> int \<Rightarrow> csockaddr \<Rightarrow> usocket \<Rightarrow> usocket \<times> int" where
  "tcp_bind nonblock err fd a u =
     (let u = u\<lparr>m_sock := fd\<rparr>
      in if nonblock = 0 then (u\<lparr>m_addr := a\<rparr>, 0) else (u, err))"

record connect_os =
  co_socket :: int
  co_nonblock :: int
  co_connect :: int
  co_err :: int

definition tcp_connect :: "connect_os \<Rightarrow> usocket \<Rightarrow> usocket \<times> int \<times> fds" where
  "tcp_connect os u =
     (let u = u\<lparr>m_sock := co_socket os\<rparr>;
          failed = (u\<lparr>m_status := SOCK_ERROR, m_reason := co_err os, m_sock := -1\<rparr>, co_err os, [m_sock u])
      in if m_sock u < 0 then (u, co_err os, [])
         else if co_nonblock os = 0
         then (if co_connect os = 0 then (u\<lparr>m_status := SOCK_CONNECTED\<rparr>, 0, [])
               else if co_connect os < 0 \<and> (co_err os = EINPROGRESS \<or> co_err os = EWOULDBLOCK)
               then (u\<lparr>m_status := SOCK_CONNECTING\<rparr>, 0, [])
               else failed)
         else failed)"

text \<open>What \<^verbatim>\<open>::recv\<close> and \<^verbatim>\<open>::send\<close> answer: at most the bytes asked for, or an error number.\<close>

datatype recv_answer = Received "char list" | Recv_Failed int

datatype send_answer = Sent nat | Send_Failed int

record sock_util =
  ut_recv_cap :: "nat \<Rightarrow> nat"
  ut_send_cap :: "nat \<Rightarrow> nat"

definition util_ok :: "sock_util \<Rightarrow> bool" where
  "util_ok ut \<longleftrightarrow> (\<forall>n. ut_recv_cap ut n \<le> n \<and> ut_send_cap ut n \<le> n)"

text \<open>
  \<^verbatim>\<open>UTcpSocket::recv(buf + off, len, NULL)\<close>: the result is the socket, the buffer and the count
  returned, -1 for an error.
\<close>

definition tcp_recv ::
  "sock_util \<Rightarrow> (int \<Rightarrow> nat \<Rightarrow> recv_answer) \<Rightarrow> char list \<Rightarrow> nat \<Rightarrow> nat \<Rightarrow> usocket
     \<Rightarrow> (usocket \<times> char list \<times> int) res" where
  "tcp_recv ut os buf off len u =
     (if m_status u = SOCK_ERROR then Inr (u, buf, -1)
      else let n = ut_recv_cap ut len in
        case os (m_sock u) n of
          Recv_Failed e \<Rightarrow>
            Inr (u\<lparr>m_reason := e, m_status := (if e \<noteq> EWOULDBLOCK then SOCK_ERROR else m_status u)\<rparr>, buf, -1)
        | Received d \<Rightarrow>
            let got = take n d in
            bindE (storeE buf off got) (\<lambda>b.
              Inr (if got = [] then u\<lparr>m_status := SOCK_CLOSED\<rparr> else u, b, int (length got))))"

definition tcp_send ::
  "sock_util \<Rightarrow> (int \<Rightarrow> char list \<Rightarrow> send_answer) \<Rightarrow> char list \<Rightarrow> nat \<Rightarrow> nat \<Rightarrow> usocket
     \<Rightarrow> (usocket \<times> char list \<times> int) res" where
  "tcp_send ut os buf off len u =
     (if m_status u = SOCK_ERROR then Inr (u, [], -1)
      else let n = ut_send_cap ut len in
        bindE (loadE buf off n) (\<lambda>bytes.
        case os (m_sock u) bytes of
          Send_Failed e \<Rightarrow>
            Inr (u\<lparr>m_reason := e, m_status := (if e \<noteq> EWOULDBLOCK then SOCK_ERROR else m_status u)\<rparr>, [], -1)
        | Sent k \<Rightarrow> Inr (u, take k bytes, int (min k n))))"

definition tcp_close :: "usocket \<Rightarrow> usocket \<times> int \<times> fds" where
  "tcp_close u =
     (if m_sock u \<ge> 0 then (u\<lparr>m_status := SOCK_CLOSED, m_sock := -1\<rparr>, 0, [m_sock u]) else (u, 0, []))"

text \<open>\<open>ready\<close> tells for which descriptors the zero-timeout \<^verbatim>\<open>select\<close> returns a positive count.\<close>

definition tcp_can_read :: "(int \<Rightarrow> bool) \<Rightarrow> usocket \<Rightarrow> bool res" where
  "tcp_can_read ready u =
     (if m_sock u < 0 then Inr False
      else bindE (FD_SET (m_sock u) []) (\<lambda>_. Inr (ready (m_sock u))))"

definition tcp_can_write :: "(int \<Rightarrow> bool) \<Rightarrow> usocket \<Rightarrow> bool res" where
  "tcp_can_write ready u =
     (if m_sock u < 0 then Inr False
      else bindE (FD_SET (m_sock u) []) (\<lambda>_. Inr (ready (m_sock u))))"

text \<open>\<open>local_addr\<close> is what \<^verbatim>\<open>getsockname\<close> writes.\<close>

definition tcp_register_sock :: "int \<Rightarrow> csockaddr \<Rightarrow> usocket \<Rightarrow> usocket \<times> int \<times> fds" where
  "tcp_register_sock fd local_addr u =
     (if fd \<le> 0 then (u, -1, [])
      else case tcp_close u of (u, _, c) \<Rightarrow>
        (u\<lparr>m_sock := fd, m_status := SOCK_CONNECTED, m_addr := local_addr\<rparr>, 0, c))"

definition tcp_is_error :: "usocket \<Rightarrow> bool" where
  "tcp_is_error u \<longleftrightarrow> m_status u = SOCK_ERROR"

section \<open>Life of a socket\<close>

text \<open>
  The calls on one socket, with whatever the system answers, as a transition system that also
  tracks the descriptors the object was given and those it closed. \<^verbatim>\<open>connect\<close> and \<^verbatim>\<open>bind\<close> are
  called on an object without a descriptor, as all callers do.
\<close>

record tcp_life =
  tl_sock :: usocket
  tl_opened :: fds
  tl_closed :: fds

inductive tcp_step :: "tcp_life \<Rightarrow> tcp_life \<Rightarrow> bool" where
  step_connect:
    "m_sock (tl_sock s) < 0 \<Longrightarrow> tcp_connect os (tl_sock s) = (u, r, c) \<Longrightarrow>
     tcp_step s (s\<lparr>tl_sock := u,
       tl_opened := tl_opened s @ (if co_socket os \<ge> 0 then [co_socket os] else []),
       tl_closed := tl_closed s @ c\<rparr>)"
| step_bind:
    "m_sock (tl_sock s) < 0 \<Longrightarrow> 0 \<le> fd \<Longrightarrow> tcp_bind nonblock err fd a (tl_sock s) = (u, r) \<Longrightarrow>
     tcp_step s (s\<lparr>tl_sock := u, tl_opened := tl_opened s @ [fd]\<rparr>)"
| step_register:
    "tcp_register_sock fd a (tl_sock s) = (u, r, c) \<Longrightarrow>
     tcp_step s (s\<lparr>tl_sock := u, tl_opened := tl_opened s @ (if r = 0 then [fd] else []),
       tl_closed := tl_closed s @ c\<rparr>)"
| step_recv:
    "tcp_recv ut rv buf off len (tl_sock s) = Inr (u, b, n) \<Longrightarrow> tcp_step s (s\<lparr>tl_sock := u\<rparr>)"
| step_send:
    "tcp_send ut sd buf off len (tl_sock s) = Inr (u, b, n) \<Longrightarrow> tcp_step s (s\<lparr>tl_sock := u\<rparr>)"
| step_close:
    "tcp_close (tl_sock s) = (u, r, c) \<Longrightarrow>
     tcp_step s (s\<lparr>tl_sock := u, tl_closed := tl_closed s @ c\<rparr>)"

definition tcp_start :: "tcp_life \<Rightarrow> bool" where
  "tcp_start s \<longleftrightarrow> (\<exists>junk. s = \<lparr>tl_sock = new_UTcpSocket junk, tl_opened = [], tl_closed = []\<rparr>)"

definition held :: "usocket \<Rightarrow> fds" where
  "held u = (if m_sock u \<ge> 0 then [m_sock u] else [])"

definition tcp_accounts :: "tcp_life \<Rightarrow> bool" where
  "tcp_accounts s \<longleftrightarrow> mset (tl_opened s) = mset (tl_closed s) + mset (held (tl_sock s))
     \<and> m_type (tl_sock s) = SOCK_TYPE_TCP
     \<and> (m_status (tl_sock s) \<in> {SOCK_CONNECTING, SOCK_CONNECTED} \<longrightarrow> m_sock (tl_sock s) \<ge> 0)"

lemma tcp_recv_frame:
  "tcp_recv ut os buf off len u = Inr (u', b, n) \<Longrightarrow>
     m_sock u' = m_sock u \<and> m_type u' = m_type u
     \<and> (m_status u' = m_status u \<or> m_status u' = SOCK_ERROR \<or> m_status u' = SOCK_CLOSED)"
  by (auto simp: tcp_recv_def Let_def split: if_splits recv_answer.splits elim!: bindE_InrE)

lemma tcp_recv_positive:
  "tcp_recv ut os buf off len u = Inr (u', b, n) \<Longrightarrow> 0 < n \<Longrightarrow> u' = u \<and> m_status u \<noteq> SOCK_ERROR"
  by (auto simp: tcp_recv_def Let_def split: if_splits recv_answer.splits elim!: bindE_InrE)

lemma tcp_send_frame:
  "tcp_send ut os buf off len u = Inr (u', b, n) \<Longrightarrow>
     m_sock u' = m_sock u \<and> m_type u' = m_type u
     \<and> (m_status u' = m_status u \<or> m_status u' = SOCK_ERROR)"
  by (auto simp: tcp_send_def Let_def split: if_splits send_answer.splits elim!: bindE_InrE)

lemma tcp_accounts_step:
  assumes "tcp_accounts s" and "tcp_step s t"
  shows "tcp_accounts t"
  using assms(2,1)
proof cases
  case (step_connect os u r c)
  then show ?thesis using assms(1)
    by (auto simp: tcp_accounts_def tcp_connect_def held_def Let_def split: if_splits)
next
  case (step_bind fd nonblock err a u r)
  then show ?thesis using assms(1)
    by (auto simp: tcp_accounts_def tcp_bind_def held_def Let_def split: if_splits)
next
  case (step_register fd a u r c)
  then show ?thesis using assms(1)
    by (auto simp: tcp_accounts_def tcp_register_sock_def tcp_close_def held_def split: if_splits)
next
  case (step_recv ut rv buf off len u b n)
  then show ?thesis using assms(1) tcp_recv_frame [OF step_recv(2)]
    by (auto simp: tcp_accounts_def held_def)
next
  case (step_send ut sd buf off len u b n)
  then show ?thesis using assms(1) tcp_send_frame [OF step_send(2)]
    by (auto simp: tcp_accounts_def held_def)
next
  case (step_close u r c)
  then show ?thesis using assms(1)
    by (auto simp: tcp_accounts_def tcp_close_def held_def split: if_splits)
qed

interpretation tcp_life: invariant_system tcp_start tcp_step tcp_accounts
proof unfold_locales
  fix s
  assume "tcp_start s"
  then show "tcp_accounts s" by (auto simp: tcp_start_def tcp_accounts_def new_UTcpSocket_def held_def)
qed (rule tcp_accounts_step)

section \<open>Properties\<close>



text \<open>
  \<^verbatim>\<open>recv\<close> never writes outside the \<open>len\<close> bytes it was given, its count is between -1 and
  \<open>len\<close>, and -1 leaves the buffer as it was.
\<close>

lemma tcp_recv_bounds:
  assumes "util_ok ut" and "off + len \<le> length buf"
  shows "\<exists>u' b n. tcp_recv ut os buf off len u = Inr (u', b, n)
    \<and> -1 \<le> n \<and> n \<le> int len \<and> length b = length buf
    \<and> take off b = take off buf \<and> drop (off + len) b = drop (off + len) buf
    \<and> (n = -1 \<longrightarrow> b = buf) \<and> (n = 0 \<longrightarrow> m_status u' = SOCK_CLOSED)"
proof (cases "m_status u = SOCK_ERROR")
  case True
  then show ?thesis by (simp add: tcp_recv_def)
next
  case False
  let ?n = "ut_recv_cap ut len"
  have n: "?n \<le> len" using assms(1) by (simp add: util_ok_def)
  show ?thesis
  proof (cases "os (m_sock u) ?n")
    case (Received d)
    let ?g = "take ?n d"
    have g: "off + length ?g \<le> length buf" "length ?g \<le> len" using n assms(2) by simp_all
    have "take off (blit buf off ?g) = take off buf" using assms(2) by (simp add: blit_def)
    moreover have "drop (off + len) (blit buf off ?g) = drop (off + len) buf"
      using drop_blit [OF g(1), of "off + len"] g(2) by simp
    ultimately show ?thesis
      using False Received g length_blit [OF g(1)] by (simp add: tcp_recv_def storeE_def Let_def min_def)
  next
    case (Recv_Failed e)
    with False show ?thesis by (simp add: tcp_recv_def Let_def)
  qed
qed

lemma tcp_recv_bounds_witness:
  "\<exists>u' b n. tcp_recv \<lparr>ut_recv_cap = min 1000, ut_send_cap = min 1000\<rparr> (\<lambda>_ _. Received ''abc'')
      (replicate 8 NUL) 2 2 (new_UTcpSocket 0) = Inr (u', b, n) \<and> n \<le> 2 \<and> drop 4 b = replicate 4 NUL"
  using tcp_recv_bounds [of "\<lparr>ut_recv_cap = min 1000, ut_send_cap = min 1000\<rparr>" 2 2 "replicate 8 NUL"
      "\<lambda>_ _. Received ''abc''" "new_UTcpSocket 0"]
  by (simp add: util_ok_def) blast

end
