(* ===== verification/Etransfer.thy ===== *)
theory Etransfer
  imports Tcp_Socket
begin

text \<open>
  The class \<^verbatim>\<open>eTransfer\<close> (\<^verbatim>\<open>etransfer/eTransfer.cpp\<close>): a listening socket, a map from
  descriptors to sockets, the list of accepted connections nobody has taken yet, the list of
  sockets to destroy, and the poll loop built on them. Sockets live on a heap, since the class, the
  poll lists and the callers all hold pointers to them.
\<close>

section \<open>Pointers to sockets\<close>

text \<open>A \<^verbatim>\<open>USocket*\<close>. Pointers are ordered, because callers key a \<^verbatim>\<open>std::map\<close> with them.\<close>

datatype sockref = Sock_Ptr (ref_addr: nat)

instantiation sockref :: linorder
begin

definition less_eq_sockref :: "sockref \<Rightarrow> sockref \<Rightarrow> bool" where
  "less_eq_sockref a b \<longleftrightarrow> ref_addr a \<le> ref_addr b"

definition less_sockref :: "sockref \<Rightarrow> sockref \<Rightarrow> bool" where
  "less_sockref a b \<longleftrightarrow> ref_addr a < ref_addr b"

instance
  by standard (auto simp: less_eq_sockref_def less_sockref_def sockref.expand)

end

section \<open>State\<close>

text \<open>
  \<open>next_ref\<close> is where the next socket is allocated. \<open>closed_fds\<close> is the trace of
  \<^verbatim>\<open>CLOSESOCKET\<close>.
\<close>

record etransfer =
  heap :: "sockref \<Rightarrow> usocket option"
  next_ref :: nat
  m_tcp_sock :: int
  m_tcp_port :: int
  m_tcp_listener :: "sockref option"
  m_tcp_map :: "(int \<times> sockref) list"
  m_tcp_accept_list :: "sockref list"
  m_destroy_list :: "sockref list"
  closed_fds :: fds

text \<open>The constructor; \<open>junk\<close> is the uninitialised \<^verbatim>\<open>m_tcp_port\<close>.\<close>

definition new_eTransfer :: "int \<Rightarrow> etransfer" where
  "new_eTransfer junk = \<lparr>heap = Map.empty, next_ref = 0, m_tcp_sock = -1, m_tcp_port = junk,
     m_tcp_listener = None, m_tcp_map = [], m_tcp_accept_list = [], m_destroy_list = [], closed_fds = []\<rparr>"

definition deref :: "etransfer \<Rightarrow> sockref \<Rightarrow> usocket res" where
  "deref et r = (case heap et r of None \<Rightarrow> Inl Null_Deref | Some u \<Rightarrow> Inr u)"

definition set_sock :: "sockref \<Rightarrow> usocket \<Rightarrow> etransfer \<Rightarrow> etransfer" where
  "set_sock r u et = et\<lparr>heap := (heap et)(r \<mapsto> u)\<rparr>"

definition alloc :: "usocket \<Rightarrow> etransfer \<Rightarrow> etransfer \<times> sockref" where
  "alloc u et = (let r = Sock_Ptr (next_ref et) in (set_sock r u et\<lparr>next_ref := Suc (next_ref et)\<rparr>, r))"

section \<open>Poll entries\<close>

text \<open>\<^verbatim>\<open>short events\<close> of the bits 1, 2 and 4; \<open>pointer\<close> is the payload of type \<open>'p\<close>.\<close>

definition UPOLL_READ_T :: "16 word" where
  "UPOLL_READ_T = 1"

definition UPOLL_WRITE_T :: "16 word" where
  "UPOLL_WRITE_T = 2"

definition UPOLL_ERROR_T :: "16 word" where
  "UPOLL_ERROR_T = 4"

definition has_event :: "16 word \<Rightarrow> 16 word \<Rightarrow> bool" where
  "has_event events flag \<longleftrightarrow> events AND flag \<noteq> 0"

lemma has_event_simps [simp]:
  "has_event UPOLL_READ_T UPOLL_READ_T" "\<not> has_event UPOLL_READ_T UPOLL_WRITE_T"
  "\<not> has_event UPOLL_READ_T UPOLL_ERROR_T" "has_event UPOLL_WRITE_T UPOLL_WRITE_T"
  "\<not> has_event UPOLL_WRITE_T UPOLL_READ_T" "\<not> has_event UPOLL_WRITE_T UPOLL_ERROR_T"
  "has_event UPOLL_ERROR_T UPOLL_ERROR_T" "\<not> has_event UPOLL_ERROR_T UPOLL_READ_T"
  "\<not> has_event UPOLL_ERROR_T UPOLL_WRITE_T"
  by (simp_all add: has_event_def UPOLL_READ_T_def UPOLL_WRITE_T_def UPOLL_ERROR_T_def)

record 'p upoll =
  usock :: "sockref option"
  events :: "16 word"
  pointer :: "'p option"

section \<open>Destroying sockets\<close>

definition add_destroy_socket :: "sockref \<Rightarrow> etransfer \<Rightarrow> etransfer" where
  "add_destroy_socket r et = et\<lparr>m_destroy_list := m_destroy_list et @ [r]\<rparr>"

definition destroy_socket :: "sockref \<Rightarrow> etransfer \<Rightarrow> etransfer res" where
  "destroy_socket r et = bindE (deref et r) (\<lambda>u.
     Inr (add_destroy_socket r (set_sock r (u\<lparr>m_status := SOCK_CLOSED\<rparr>) et)))"

definition destroy_one :: "sockref \<Rightarrow> etransfer \<Rightarrow> etransfer res" where
  "destroy_one r et = bindE (deref et r) (\<lambda>u.
     let et = (if m_type u = SOCK_TYPE_TCP
               then et\<lparr>m_tcp_map := omap_erase (m_sock u) (m_tcp_map et)\<rparr> else et)
     in case tcp_close u of (u', _, c) \<Rightarrow>
          Inr (set_sock r u' et\<lparr>closed_fds := closed_fds et @ c\<rparr>))"

text \<open>The list is walked and not emptied.\<close>

definition do_destroy_sockets :: "etransfer \<Rightarrow> etransfer res" where
  "do_destroy_sockets et =
     (if m_destroy_list et = [] then Inr et else forE (m_destroy_list et) destroy_one et)"

section \<open>The descriptor sets of \<^verbatim>\<open>walk_through\<close>\<close>

record fdsets =
  rset :: fds
  wset :: fds
  eset :: fds

definition set_conn_one :: "etransfer \<Rightarrow> int \<times> sockref \<Rightarrow> int \<times> fdsets \<Rightarrow> (int \<times> fdsets) res" where
  "set_conn_one et e acc = (case acc of (max_conn, s) \<Rightarrow>
     bindE (deref et (snd e)) (\<lambda>u.
     bindE (if m_bneedreadselect u then FD_SET (m_sock u) (rset s) else Inr (rset s)) (\<lambda>r.
     bindE (if m_bneedwriteselect u then FD_SET (m_sock u) (wset s) else Inr (wset s)) (\<lambda>w.
     bindE (if m_bneedreadselect u \<or> m_bneedwriteselect u then FD_SET (m_sock u) (eset s)
            else Inr (eset s)) (\<lambda>x.
       Inr (max max_conn (m_sock u), \<lparr>rset = r, wset = w, eset = x\<rparr>))))))"

definition set_conn_set :: "etransfer \<Rightarrow> (int \<times> fdsets) res" where
  "set_conn_set et =
     bindE (if m_tcp_sock et \<ge> 0 then FD_SET (m_tcp_sock et) [] else Inr []) (\<lambda>r.
       forE (m_tcp_map et) (set_conn_one et) (m_tcp_sock et, \<lparr>rset = r, wset = [], eset = []\<rparr>))"

section \<open>Accepting\<close>

text \<open>\<^verbatim>\<open>eTransfer::accept\<close>: the oldest connection on the list, for the listener or a null argument.\<close>

definition accept :: "sockref option \<Rightarrow> etransfer \<Rightarrow> (etransfer \<times> sockref option) res" where
  "accept lst et =
     (if lst \<noteq> None \<and> lst \<noteq> m_tcp_listener et then Inr (et, None)
      else (case m_tcp_accept_list et of
              [] \<Rightarrow> Inr (et, None)
            | r # rs \<Rightarrow> bindE (deref et r) (\<lambda>u.
                Inr (set_sock r (u\<lparr>m_status := SOCK_CONNECTED\<rparr>) et\<lparr>m_tcp_accept_list := rs\<rparr>, Some r))))"

text \<open>
  What \<^verbatim>\<open>::accept\<close> hands out: the descriptor (negative for none), the peer, the result of
  \<^verbatim>\<open>setSockNonBlocking\<close> and the last error in \<^verbatim>\<open>bind\<close>, and the uninitialised \<^verbatim>\<open>m_reason\<close>.
\<close>

record accept_os =
  ac_sock :: int
  ac_peer :: csockaddr
  ac_nonblock :: int
  ac_err :: int
  ac_junk :: int

definition proc_tcp_listen_sock :: "accept_os \<Rightarrow> etransfer \<Rightarrow> etransfer" where
  "proc_tcp_listen_sock os et =
     (if ac_sock os \<ge> 0 then
        (case alloc (fst (tcp_bind (ac_nonblock os) (ac_err os) (ac_sock os) (ac_peer os)
                       (new_UTcpSocket (ac_junk os)))) et of
           (et, r) \<Rightarrow> et\<lparr>m_tcp_map := omap_put (ac_sock os) r (m_tcp_map et),
                         m_tcp_accept_list := m_tcp_accept_list et @ [r]\<rparr>)
      else et)"

definition proc_tcp_one :: "fdsets \<Rightarrow> int \<times> sockref \<Rightarrow> etransfer \<Rightarrow> etransfer res" where
  "proc_tcp_one s e et =
     bindE (deref et (snd e)) (\<lambda>u.
     bindE (FD_ISSET (m_sock u) (eset s)) (\<lambda>is_e.
       if is_e then Inr (set_sock (snd e) (u\<lparr>m_status := SOCK_ERROR, m_bneedreadselect := False,
                                             m_bneedwriteselect := False\<rparr>) et)
       else bindE (FD_ISSET (m_sock u) (wset s)) (\<lambda>is_w.
            bindE (FD_ISSET (m_sock u) (rset s)) (\<lambda>is_r.
              let u = (if is_w then u\<lparr>m_bneedwriteselect := False\<rparr> else u);
                  u = (if is_r then u\<lparr>m_bneedreadselect := False\<rparr> else u);
                  u = (if m_status u = SOCK_CONNECTING \<and> is_w then u\<lparr>m_status := SOCK_CONNECTED\<rparr> else u)
              in Inr (set_sock (snd e) u et)))))"

definition proc_tcp_socket :: "fdsets \<Rightarrow> etransfer \<Rightarrow> etransfer res" where
  "proc_tcp_socket s et = forE (m_tcp_map et) (proc_tcp_one s) et"

definition proc_rw_set :: "accept_os \<Rightarrow> fdsets \<Rightarrow> etransfer \<Rightarrow> etransfer res" where
  "proc_rw_set os s et =
     bindE (if m_tcp_sock et \<ge> 0 then FD_ISSET (m_tcp_sock et) (rset s) else Inr False) (\<lambda>l.
       proc_tcp_socket s (if l then proc_tcp_listen_sock os et else et))"

text \<open>
  \<^verbatim>\<open>walk_through\<close>, the only caller of all this: \<open>sel\<close> is \<^verbatim>\<open>::select\<close>, which returns a count and
  the sets it left.
\<close>

definition walk_through :: "(int \<Rightarrow> fdsets \<Rightarrow> int \<times> fdsets) \<Rightarrow> accept_os \<Rightarrow> etransfer \<Rightarrow> etransfer res" where
  "walk_through sel os et =
     (if m_tcp_sock et < 0 then Inr et
      else bindE (set_conn_set et) (\<lambda>(maxfd, s).
        case sel (maxfd + 1) s of (n, s') \<Rightarrow>
          if n > 0 then proc_rw_set os s' et else Inr et))"

section \<open>\<^verbatim>\<open>eTransfer::select\<close>\<close>

text \<open>The answers of the zero-timeout selects during one pass over the poll list.\<close>

record poll_os =
  po_read :: "int \<Rightarrow> bool"
  po_write :: "int \<Rightarrow> bool"

definition ready_entry :: "poll_os \<Rightarrow> etransfer \<Rightarrow> 'p upoll \<Rightarrow> 'p upoll list res" where
  "ready_entry os et up =
     (case usock up of None \<Rightarrow> Inl Null_Deref | Some r \<Rightarrow>
      bindE (deref et r) (\<lambda>u.
        if tcp_is_error u then Inr [up\<lparr>events := UPOLL_ERROR_T\<rparr>]
        else bindE (if has_event (events up) UPOLL_WRITE_T then tcp_can_write (po_write os) u
                    else Inr False) (\<lambda>w.
             bindE (if has_event (events up) UPOLL_READ_T
                    then (if usock up = m_tcp_listener et then Inr (m_tcp_accept_list et \<noteq> [])
                          else tcp_can_read (po_read os) u)
                    else Inr False) (\<lambda>rd.
               Inr ((if w then [up\<lparr>events := UPOLL_WRITE_T\<rparr>] else [])
                    @ (if rd then [up\<lparr>events := UPOLL_READ_T\<rparr>] else []))))))"

definition has_available_sockets ::
  "poll_os \<Rightarrow> etransfer \<Rightarrow> 'p upoll list \<Rightarrow> 'p upoll list \<Rightarrow> ('p upoll list \<times> int) res" where
  "has_available_sockets os et src dst =
     forE src (\<lambda>up acc. bindE (ready_entry os et up) (\<lambda>es. Inr (fst acc @ es, snd acc + int (length es))))
       (dst, 0)"

definition set_interest :: "'p upoll \<Rightarrow> etransfer \<Rightarrow> etransfer res" where
  "set_interest up et =
     (case usock up of None \<Rightarrow> Inl Null_Deref | Some r \<Rightarrow>
      bindE (deref et r) (\<lambda>u.
        Inr (if m_type u = SOCK_TYPE_TCP
             then set_sock r (u\<lparr>m_bneedreadselect := has_event (events up) UPOLL_READ_T,
                                m_bneedwriteselect := has_event (events up) UPOLL_WRITE_T\<rparr>) et
             else et)))"

text \<open>
  One immediate pass; when it finds nothing, the interest bits are set and the list is polled
  again, the first time and once more when that finds nothing (\<^verbatim>\<open>wait_ret\<close> counts from 1). The
  three records are the answers of the three passes. After a hit of the immediate pass the
  result is 1, however many entries there are.
\<close>

definition select ::
  "poll_os \<Rightarrow> poll_os \<Rightarrow> poll_os \<Rightarrow> 'p upoll list \<Rightarrow> etransfer \<Rightarrow> (etransfer \<times> 'p upoll list \<times> int) res" where
  "select os0 os1 os2 src et =
     bindE (has_available_sockets os0 et src []) (\<lambda>(dst, n).
       if n > 0 then Inr (et, dst, 1)
       else bindE (forE src set_interest et) (\<lambda>et.
            bindE (has_available_sockets os1 et src dst) (\<lambda>(dst, n).
              if n > 0 then Inr (et, dst, n)
              else bindE (has_available_sockets os2 et src dst) (\<lambda>(dst, n). Inr (et, dst, n)))))"

section \<open>\<^verbatim>\<open>init_tcp\<close>\<close>

datatype bind_answer = Bound | Addr_In_Use | Bind_Failed

text \<open>
  The system during \<^verbatim>\<open>init_tcp\<close>: the new descriptor, the answer to \<^verbatim>\<open>bind\<close> at each try and
  port, the random numbers, the last error. The results of \<^verbatim>\<open>setsockopt\<close> and \<^verbatim>\<open>listen\<close> only go to
  a variable that is not used again.
\<close>

record init_os =
  io_socket :: int
  io_bind :: "nat \<Rightarrow> 16 word \<Rightarrow> bind_answer"
  io_random :: "nat \<Rightarrow> nat"
  io_err :: int
  io_junk :: int

text \<open>The tries: the port in use when a \<^verbatim>\<open>bind\<close> succeeds, after \<^verbatim>\<open>n\<close> more tries \<^const>\<open>None\<close>.\<close>

fun bind_tries :: "init_os \<Rightarrow> nat \<Rightarrow> int \<Rightarrow> int option" where
  "bind_tries os 0 port = None"
| "bind_tries os (Suc n) port =
     (case io_bind os n (word_of_int port) of
        Bound \<Rightarrow> Some port
      | Addr_In_Use \<Rightarrow> bind_tries os n (10000 + int (io_random os n mod 10000))
      | Bind_Failed \<Rightarrow> bind_tries os n port)"

definition init_tcp :: "init_os \<Rightarrow> int \<Rightarrow> etransfer \<Rightarrow> etransfer \<times> int" where
  "init_tcp os port et =
     (let et = et\<lparr>m_tcp_sock := io_socket os\<rparr>
      in if io_socket os < 0 then (et, io_err os)
         else (case bind_tries os 5 port of
                 None \<Rightarrow> (et\<lparr>m_tcp_sock := -1, closed_fds := closed_fds et @ [io_socket os]\<rparr>, -1)
               | Some port' \<Rightarrow>
                   (case alloc (new_UTcpSocket (io_junk os)) (et\<lparr>m_tcp_port := port'\<rparr>) of
                      (et, r) \<Rightarrow> (et\<lparr>m_tcp_listener := Some r\<rparr>, 0))))"

section \<open>\<^verbatim>\<open>create_socket\<close>\<close>

text \<open>
  The socket handed out, the value returned and the descriptors closed. On success, and for every
  other type, control runs off the end of the function: \<^const>\<open>None\<close>, no value is returned.
\<close>

definition create_socket ::
  "int \<Rightarrow> connect_os \<Rightarrow> csockaddr \<Rightarrow> int \<Rightarrow> usocket option \<times> int option \<times> fds" where
  "create_socket junk os addr type =
     (if type = SOCK_TYPE_TCP
      then (case tcp_init addr (new_UTcpSocket junk) of (u, r0) \<Rightarrow>
            (case tcp_connect os u of (u', r, c) \<Rightarrow>
               if r0 = 0 \<and> r = 0 then (Some u', None, c) else (None, Some (m_reason u'), c)))
      else (None, None, []))"

text \<open>
  A returned value means that no socket was created, and a socket that is handed out is connected
  or connecting: callers that compare the result with 0 compare something undefined on success.
\<close>

lemma create_socket_result:
  "co_err os \<noteq> 0 \<Longrightarrow> create_socket junk os addr type = (sc, ret, c) \<Longrightarrow>
    (sc = None \<or> ret = None) \<and> (\<forall>u. sc = Some u \<longrightarrow> m_sock u = co_socket os \<and> m_addr u = addr \<and> c = []
       \<and> 0 \<le> m_sock u \<and> (m_status u = SOCK_CONNECTED \<or> m_status u = SOCK_CONNECTING))"
  by (auto simp: create_socket_def tcp_init_def tcp_connect_def Let_def split: if_splits)

section \<open>Well-formed transfer objects\<close>

text \<open>
  Every pointer the object keeps is allocated, the map is keyed by the descriptors its sockets
  hold, and the listener object itself never holds a descriptor and is not in the map.
\<close>

definition et_ok :: "etransfer \<Rightarrow> bool" where
  "et_ok et \<longleftrightarrow>
     (\<forall>r u. heap et r = Some u \<longrightarrow> ref_addr r < next_ref et \<and> m_type u = SOCK_TYPE_TCP)
     \<and> omap_ok (m_tcp_map et)
     \<and> (\<forall>e \<in> set (m_tcp_map et). \<exists>u. heap et (snd e) = Some u \<and> m_sock u = fst e \<and> 0 \<le> fst e)
     \<and> set (m_tcp_accept_list et) \<union> set (m_destroy_list et) \<subseteq> dom (heap et)
     \<and> (\<forall>l. m_tcp_listener et = Some l \<longrightarrow> (\<exists>u. heap et l = Some u \<and> m_sock u = -1 \<and> m_status u = SOCK_CLOSED)
          \<and> l \<notin> set (m_tcp_accept_list et))"

lemma et_okI:
  assumes "\<And>r u. heap et r = Some u \<Longrightarrow> ref_addr r < next_ref et \<and> m_type u = SOCK_TYPE_TCP"
    and "omap_ok (m_tcp_map et)"
    and "\<And>fd r. (fd, r) \<in> set (m_tcp_map et) \<Longrightarrow> \<exists>u. heap et r = Some u \<and> m_sock u = fd \<and> 0 \<le> fd"
    and "set (m_tcp_accept_list et) \<union> set (m_destroy_list et) \<subseteq> dom (heap et)"
    and "\<And>l. m_tcp_listener et = Some l \<Longrightarrow> \<exists>u. heap et l = Some u \<and> m_sock u = -1 \<and> m_status u = SOCK_CLOSED"
    and "\<And>l. m_tcp_listener et = Some l \<Longrightarrow> l \<notin> set (m_tcp_accept_list et)"
  shows "et_ok et"
  unfolding et_ok_def using assms by auto

lemma et_okD:
  assumes "et_ok et"
  shows "heap et r = Some u \<Longrightarrow> ref_addr r < next_ref et \<and> m_type u = SOCK_TYPE_TCP"
    and "omap_ok (m_tcp_map et)"
    and "(fd, r) \<in> set (m_tcp_map et) \<Longrightarrow> \<exists>u. heap et r = Some u \<and> m_sock u = fd \<and> 0 \<le> fd"
    and "set (m_tcp_accept_list et) \<union> set (m_destroy_list et) \<subseteq> dom (heap et)"
    and "m_tcp_listener et = Some l \<Longrightarrow> \<exists>u. heap et l = Some u \<and> m_sock u = -1 \<and> m_status u = SOCK_CLOSED"
    and "m_tcp_listener et = Some l \<Longrightarrow> l \<notin> set (m_tcp_accept_list et)"
  using assms unfolding et_ok_def by fastforce+

lemma et_ok_new: "et_ok (new_eTransfer junk)"
  by (simp add: et_ok_def new_eTransfer_def)

lemma et_ok_fresh: "et_ok et \<Longrightarrow> heap et (Sock_Ptr (next_ref et)) = None"
  using et_okD(1) [of et "Sock_Ptr (next_ref et)"] by fastforce

text \<open>
  A socket may change freely as long as its type and descriptor stay; the listener must also stay
  closed.
\<close>

lemma et_ok_set_sock:
  assumes "et_ok et" and "heap et r = Some u" and "m_sock u' = m_sock u" and "m_type u' = m_type u"
    and "m_tcp_listener et = Some r \<Longrightarrow> m_status u' = SOCK_CLOSED"
  shows "et_ok (set_sock r u' et)"
proof (rule et_okI)
  note d = et_okD [OF assms(1)]
  fix fd q
  assume "(fd, q) \<in> set (m_tcp_map (set_sock r u' et))"
  then show "\<exists>u. heap (set_sock r u' et) q = Some u \<and> m_sock u = fd \<and> 0 \<le> fd"
    using d(3) [of fd q] assms(2,3) by (auto simp: set_sock_def)
next
  fix l
  assume "m_tcp_listener (set_sock r u' et) = Some l"
  then show "\<exists>u. heap (set_sock r u' et) l = Some u \<and> m_sock u = -1 \<and> m_status u = SOCK_CLOSED"
    using et_okD(5) [OF assms(1), of l] assms(2,3,5) by (auto simp: set_sock_def)
qed (use et_okD [OF assms(1)] assms(2,4) in \<open>fastforce simp: set_sock_def split: if_splits\<close>)+

lemma et_ok_lists:
  assumes "et_ok et" and "set as \<union> set ds \<subseteq> dom (heap et)" and "set as \<subseteq> set (m_tcp_accept_list et)"
  shows "et_ok (et\<lparr>m_tcp_accept_list := as, m_destroy_list := ds\<rparr>)"
  using assms unfolding et_ok_def by auto

lemma et_ok_alloc:
  assumes "et_ok et" and "m_type u = SOCK_TYPE_TCP"
  shows "et_ok (fst (alloc u et))" "heap (fst (alloc u et)) (snd (alloc u et)) = Some u"
proof -
  let ?r = "Sock_Ptr (next_ref et)"
  note f = et_ok_fresh [OF assms(1)] and d = et_okD [OF assms(1)]
  have e: "fst (alloc u et) = et\<lparr>heap := (heap et)(?r \<mapsto> u), next_ref := Suc (next_ref et)\<rparr>" "snd (alloc u et) = ?r"
    by (simp_all add: alloc_def set_sock_def Let_def)
  show "heap (fst (alloc u et)) (snd (alloc u et)) = Some u" by (simp add: e)
  show "et_ok (fst (alloc u et))" unfolding e
  proof (rule et_okI)
    fix q v
    assume "heap (et\<lparr>heap := (heap et)(?r \<mapsto> u), next_ref := Suc (next_ref et)\<rparr>) q = Some v"
    then show "ref_addr q < next_ref (et\<lparr>heap := (heap et)(?r \<mapsto> u), next_ref := Suc (next_ref et)\<rparr>)
        \<and> m_type v = SOCK_TYPE_TCP"
      using d(1) [of q v] assms(2) by (auto split: if_splits)
  next
    fix fd q
    assume "(fd, q) \<in> set (m_tcp_map (et\<lparr>heap := (heap et)(?r \<mapsto> u), next_ref := Suc (next_ref et)\<rparr>))"
    then show "\<exists>v. heap (et\<lparr>heap := (heap et)(?r \<mapsto> u), next_ref := Suc (next_ref et)\<rparr>) q = Some v
        \<and> m_sock v = fd \<and> 0 \<le> fd"
      using d(3) [of fd q] f by auto
  next
    fix l
    assume "m_tcp_listener (et\<lparr>heap := (heap et)(?r \<mapsto> u), next_ref := Suc (next_ref et)\<rparr>) = Some l"
    then show "\<exists>v. heap (et\<lparr>heap := (heap et)(?r \<mapsto> u), next_ref := Suc (next_ref et)\<rparr>) l = Some v
        \<and> m_sock v = -1 \<and> m_status v = SOCK_CLOSED"
      using d(5) [of l] f by auto
  qed (use d(2,4,6) in auto)
qed

lemma et_ok_listen:
  assumes "et_ok et"
  shows "et_ok (proc_tcp_listen_sock os et)"
proof (cases "ac_sock os \<ge> 0")
  case True
  let ?u = "fst (tcp_bind (ac_nonblock os) (ac_err os) (ac_sock os) (ac_peer os) (new_UTcpSocket (ac_junk os)))"
  have s: "m_sock ?u = ac_sock os" "m_type ?u = SOCK_TYPE_TCP"
    by (simp_all add: tcp_bind_def Let_def new_UTcpSocket_def)
  obtain et' r where a: "alloc ?u et = (et', r)" by (cases "alloc ?u et")
  with et_ok_alloc [OF assms s(2)] have n: "et_ok et'" "heap et' r = Some ?u" by simp_all
  have m: "m_tcp_map et' = m_tcp_map et" "m_tcp_accept_list et' = m_tcp_accept_list et"
    using a by (auto simp: alloc_def set_sock_def Let_def)
  note d = et_okD [OF n(1)]
  have "et_ok (et'\<lparr>m_tcp_map := omap_put (ac_sock os) r (m_tcp_map et'),
      m_tcp_accept_list := m_tcp_accept_list et' @ [r]\<rparr>)"
  proof (rule et_okI)
    fix fd q
    assume "(fd, q) \<in> set (m_tcp_map (et'\<lparr>m_tcp_map := omap_put (ac_sock os) r (m_tcp_map et'),
      m_tcp_accept_list := m_tcp_accept_list et' @ [r]\<rparr>))"
    then have "(fd, q) = (ac_sock os, r) \<or> (fd, q) \<in> set (m_tcp_map et')"
      using set_put_subset [of "ac_sock os" r "m_tcp_map et'"] by auto
    then have "\<exists>u. heap et' q = Some u \<and> m_sock u = fd \<and> 0 \<le> fd"
      using d(3) [of fd q] n(2) s True by auto
    then show "\<exists>u. heap (et'\<lparr>m_tcp_map := omap_put (ac_sock os) r (m_tcp_map et'),
      m_tcp_accept_list := m_tcp_accept_list et' @ [r]\<rparr>) q = Some u \<and> m_sock u = fd \<and> 0 \<le> fd" by simp
  next
    fix l
    assume l: "m_tcp_listener (et'\<lparr>m_tcp_map := omap_put (ac_sock os) r (m_tcp_map et'),
      m_tcp_accept_list := m_tcp_accept_list et' @ [r]\<rparr>) = Some l"
    then have "l \<noteq> r" using d(5) [of l] n(2) s True by auto
    with l d(6) [of l] show "l \<notin> set (m_tcp_accept_list (et'\<lparr>m_tcp_map := omap_put (ac_sock os) r (m_tcp_map et'),
      m_tcp_accept_list := m_tcp_accept_list et' @ [r]\<rparr>))" by simp
  qed (use d n(2) in \<open>auto simp: omap_ok_put\<close>)
  then show ?thesis using True a m by (simp add: proc_tcp_listen_sock_def)
qed (simp add: proc_tcp_listen_sock_def assms)

lemma et_ok_destroy_one:
  assumes "et_ok et" and "destroy_one r et = Inr et'"
  shows "et_ok et'" and "m_destroy_list et' = m_destroy_list et" and "m_tcp_accept_list et' = m_tcp_accept_list et"
    and "dom (heap et') = dom (heap et)"
proof -
  obtain u where u: "heap et r = Some u"
    using assms(2) by (auto simp: destroy_one_def deref_def split: option.splits elim!: bindE_InrE)
  note d = et_okD [OF assms(1)]
  let ?m = "omap_erase (m_sock u) (m_tcp_map et)"
  obtain u' c where c: "tcp_close u = (u', 0, c)" "m_sock u' = -1 \<or> (m_sock u < 0 \<and> u' = u)" "m_type u' = m_type u"
    by (cases "0 \<le> m_sock u") (simp_all add: tcp_close_def)
  have e: "et' = et\<lparr>m_tcp_map := ?m, heap := (heap et)(r \<mapsto> u'), closed_fds := closed_fds et @ c\<rparr>"
    using assms(2) u c(1) d(1) [OF u] by (simp add: destroy_one_def deref_def set_sock_def Let_def)
  show "m_destroy_list et' = m_destroy_list et" "m_tcp_accept_list et' = m_tcp_accept_list et"
    "dom (heap et') = dom (heap et)" using u by (auto simp: e)
  show "et_ok et'"
  proof (rule et_okI)
    fix q v
    assume "heap et' q = Some v"
    then show "ref_addr q < next_ref et' \<and> m_type v = SOCK_TYPE_TCP"
      using d(1) [of q v] d(1) [OF u] c(3) by (auto simp: e split: if_splits)
  next
    fix fd q
    assume "(fd, q) \<in> set (m_tcp_map et')"
    then have "(fd, q) \<in> set (m_tcp_map et)" "fd \<noteq> m_sock u" by (auto simp: e set_erase)
    with d(3) [of fd q] u show "\<exists>v. heap et' q = Some v \<and> m_sock v = fd \<and> 0 \<le> fd" by (auto simp: e)
  next
    fix l
    assume "m_tcp_listener et' = Some l"
    then show "\<exists>v. heap et' l = Some v \<and> m_sock v = -1 \<and> m_status v = SOCK_CLOSED"
      using d(5) [of l] u c(1) by (auto simp: e tcp_close_def)
  qed (use d u in \<open>auto simp: e omap_ok_erase\<close>)
qed

lemma do_destroy_sockets_ok:
  assumes "et_ok et"
  shows "\<exists>et'. do_destroy_sockets et = Inr et' \<and> et_ok et' \<and> m_destroy_list et' = m_destroy_list et
    \<and> m_tcp_accept_list et' = m_tcp_accept_list et"
proof (cases "m_destroy_list et = []")
  case False
  let ?I = "\<lambda>e. et_ok e \<and> m_destroy_list e = m_destroy_list et \<and> m_tcp_accept_list e = m_tcp_accept_list et"
  have "\<exists>e'. forE (m_destroy_list et) destroy_one et = Inr e' \<and> ?I e'"
  proof (rule forE_invariant [where I = ?I])
    fix r e
    assume "r \<in> set (m_destroy_list et)" and e: "?I e"
    then obtain u where "heap e r = Some u" using et_okD(4) [of e] by auto
    then obtain e' where e': "destroy_one r e = Inr e'"
      by (cases "tcp_close u") (simp add: destroy_one_def deref_def Let_def)
    with et_ok_destroy_one [OF _ e'] e show "\<exists>e'. destroy_one r e = Inr e' \<and> ?I e'" by auto
  qed (use assms in simp)
  with False show ?thesis by (simp add: do_destroy_sockets_def)
qed (use assms in \<open>simp add: do_destroy_sockets_def\<close>)

lemma destroy_socket_ok:
  assumes "et_ok et" and "heap et r = Some u"
  shows "\<exists>et'. destroy_socket r et = Inr et' \<and> et_ok et' \<and> m_tcp_map et' = m_tcp_map et
    \<and> closed_fds et' = closed_fds et \<and> m_tcp_accept_list et' = m_tcp_accept_list et
    \<and> m_tcp_sock et' = m_tcp_sock et \<and> m_tcp_listener et' = m_tcp_listener et
    \<and> heap et' = (heap et)(r \<mapsto> u\<lparr>m_status := SOCK_CLOSED\<rparr>)
    \<and> m_destroy_list et' = m_destroy_list et @ [r]"
proof -
  let ?e = "set_sock r (u\<lparr>m_status := SOCK_CLOSED\<rparr>) et"
  have o: "et_ok ?e" using assms by (intro et_ok_set_sock) simp_all
  moreover have "r \<in> dom (heap ?e)" by (simp add: set_sock_def)
  ultimately have "et_ok (?e\<lparr>m_destroy_list := m_destroy_list et @ [r]\<rparr>)"
    using et_okD(4) [OF o] et_ok_lists [OF o, of "m_tcp_accept_list et" "m_destroy_list et @ [r]"]
    by (simp add: set_sock_def)
  then show ?thesis using assms(2) by (simp add: destroy_socket_def deref_def add_destroy_socket_def set_sock_def)
qed

lemma accept_ok:
  assumes "et_ok et"
  shows "\<exists>et' r. accept l et = Inr (et', r) \<and> et_ok et'"
proof (cases "m_tcp_accept_list et")
  case (Cons r rs)
  then obtain u where u: "heap et r = Some u" using et_okD(4) [OF assms] by auto
  have "m_tcp_listener et \<noteq> Some r" using et_okD(6) [OF assms] Cons by auto
  then have o: "et_ok (set_sock r (u\<lparr>m_status := SOCK_CONNECTED\<rparr>) et)"
    using u assms by (intro et_ok_set_sock) simp_all
  have "et_ok (set_sock r (u\<lparr>m_status := SOCK_CONNECTED\<rparr>) et\<lparr>m_tcp_accept_list := rs\<rparr>)"
    using et_okD(4) [OF o] et_ok_lists [OF o, of rs "m_destroy_list et"] Cons
    by (simp add: set_sock_def subset_insertI)
  then show ?thesis using Cons u assms by (simp add: accept_def deref_def)
qed (use assms in \<open>simp add: accept_def\<close>)

section \<open>One pass of \<^verbatim>\<open>walk_through\<close>\<close>

definition small_fds :: "etransfer \<Rightarrow> bool" where
  "small_fds et \<longleftrightarrow> m_tcp_sock et < FD_SETSIZE \<and> (\<forall>e \<in> set (m_tcp_map et). fst e < FD_SETSIZE)"

lemma FD_SET_small: "0 \<le> fd \<Longrightarrow> fd < FD_SETSIZE \<Longrightarrow> FD_SET fd s = Inr (List.insert fd s)"
  by (simp add: FD_SET_def)

lemma FD_ISSET_small: "0 \<le> fd \<Longrightarrow> fd < FD_SETSIZE \<Longrightarrow> FD_ISSET fd s = Inr (fd \<in> set s)"
  by (simp add: FD_ISSET_def)

lemma set_conn_set_ok:
  assumes "et_ok et" and "small_fds et"
  shows "\<exists>m s. set_conn_set et = Inr (m, s)"
proof -
  have "\<exists>a. forE (m_tcp_map et) (set_conn_one et) (m_tcp_sock et, \<lparr>rset = r, wset = [], eset = []\<rparr>) = Inr a \<and> True" for r
  proof (rule forE_invariant)
    fix e acc
    assume e: "e \<in> set (m_tcp_map et)"
    obtain fd q where q: "e = (fd, q)" by (cases e)
    from et_okD(3) [OF assms(1)] e q obtain u where "heap et q = Some u" "m_sock u = fd" "0 \<le> fd" by blast
    moreover have "fd < FD_SETSIZE" using assms(2) e q by (auto simp: small_fds_def)
    ultimately show "\<exists>s'. set_conn_one et e acc = Inr s' \<and> True"
      using q by (cases acc) (simp add: set_conn_one_def deref_def FD_SET_small)
  qed simp
  with assms(2) show ?thesis by (auto simp: set_conn_set_def small_fds_def FD_SET_small)
qed

lemma proc_tcp_one_ok:
  assumes "et_ok et" and "(fd, r) \<in> set (m_tcp_map et)" and "fd < FD_SETSIZE"
  shows "\<exists>u'. proc_tcp_one s (fd, r) et = Inr (set_sock r u' et) \<and> et_ok (set_sock r u' et)"
proof -
  from et_okD(3) [OF assms(1,2)] obtain u where u: "heap et r = Some u" "m_sock u = fd" "0 \<le> fd" by blast
  have l: "m_tcp_listener et \<noteq> Some r" using et_okD(5) [OF assms(1), of r] u by auto
  have k: "et_ok (set_sock r u' et)" if "m_sock u' = fd" "m_type u' = m_type u" for u'
    using that u l assms(1) by (intro et_ok_set_sock) simp_all
  have *: "\<exists>u'. proc_tcp_one s (fd, r) et = Inr (set_sock r u' et) \<and> m_sock u' = fd \<and> m_type u' = m_type u"
    using u assms(3) by (auto simp: proc_tcp_one_def deref_def FD_ISSET_small Let_def)
  then obtain u' where "proc_tcp_one s (fd, r) et = Inr (set_sock r u' et)" "m_sock u' = fd" "m_type u' = m_type u"
    by blast
  with k show ?thesis by blast
qed

lemma proc_tcp_socket_ok:
  assumes "et_ok et" and "\<forall>e \<in> set (m_tcp_map et). fst e < FD_SETSIZE"
  shows "\<exists>et'. proc_tcp_socket s et = Inr et' \<and> et_ok et' \<and> m_tcp_map et' = m_tcp_map et
    \<and> m_tcp_accept_list et' = m_tcp_accept_list et \<and> m_tcp_sock et' = m_tcp_sock et
    \<and> closed_fds et' = closed_fds et \<and> m_destroy_list et' = m_destroy_list et
    \<and> m_tcp_listener et' = m_tcp_listener et \<and> dom (heap et') = dom (heap et)"
proof -
  let ?I = "\<lambda>e. et_ok e \<and> m_tcp_map e = m_tcp_map et \<and> m_tcp_accept_list e = m_tcp_accept_list et
    \<and> m_tcp_sock e = m_tcp_sock et \<and> closed_fds e = closed_fds et \<and> m_destroy_list e = m_destroy_list et
    \<and> m_tcp_listener e = m_tcp_listener et \<and> dom (heap e) = dom (heap et)"
  have "\<exists>et'. forE (m_tcp_map et) (proc_tcp_one s) et = Inr et' \<and> ?I et'"
  proof (rule forE_invariant [where I = ?I])
    fix x e
    assume x: "x \<in> set (m_tcp_map et)" and e: "?I e"
    obtain fd r where r: "x = (fd, r)" by (cases x)
    have m: "(fd, r) \<in> set (m_tcp_map e)" "fd < FD_SETSIZE" using x e r assms(2) by auto
    from proc_tcp_one_ok [OF _ m, of s] e obtain u' where
      u': "proc_tcp_one s (fd, r) e = Inr (set_sock r u' e)" "et_ok (set_sock r u' e)" by blast
    have "r \<in> dom (heap e)" using et_okD(3) [of e fd r] e m by auto
    with u' e r show "\<exists>e'. proc_tcp_one s x e = Inr e' \<and> ?I e'" by (auto simp: set_sock_def insert_absorb)
  qed (use assms(1) in simp)
  then show ?thesis by (simp add: proc_tcp_socket_def)
qed

definition new_connection :: "(int \<Rightarrow> fdsets \<Rightarrow> int \<times> fdsets) \<Rightarrow> etransfer \<Rightarrow> bool" where
  "new_connection sel et \<longleftrightarrow> (case set_conn_set et of Inl _ \<Rightarrow> False
     | Inr (m, s) \<Rightarrow> fst (sel (m + 1) s) > 0 \<and> m_tcp_sock et \<in> set (rset (snd (sel (m + 1) s))))"

lemma listen_frame:
  assumes "0 \<le> ac_sock os"
  shows "m_tcp_map (proc_tcp_listen_sock os et) = omap_put (ac_sock os) (Sock_Ptr (next_ref et)) (m_tcp_map et)"
    "m_tcp_accept_list (proc_tcp_listen_sock os et) = m_tcp_accept_list et @ [Sock_Ptr (next_ref et)]"
    "m_tcp_sock (proc_tcp_listen_sock os et) = m_tcp_sock et"
    "m_tcp_listener (proc_tcp_listen_sock os et) = m_tcp_listener et"
    "closed_fds (proc_tcp_listen_sock os et) = closed_fds et"
    "m_destroy_list (proc_tcp_listen_sock os et) = m_destroy_list et"
    "dom (heap (proc_tcp_listen_sock os et)) = insert (Sock_Ptr (next_ref et)) (dom (heap et))"
  using assms by (simp_all add: proc_tcp_listen_sock_def alloc_def set_sock_def Let_def)

lemma walk_through_defined:
  assumes ok: "et_ok et" and fds: "small_fds et" and l: "0 \<le> m_tcp_sock et" and ac: "ac_sock os < FD_SETSIZE"
  shows "\<exists>et'. walk_through sel os et = Inr et' \<and> et_ok et' \<and> small_fds et'
    \<and> (if new_connection sel et \<and> 0 \<le> ac_sock os
       then m_tcp_accept_list et' = m_tcp_accept_list et @ [Sock_Ptr (next_ref et)]
         \<and> m_tcp_map et' = omap_put (ac_sock os) (Sock_Ptr (next_ref et)) (m_tcp_map et)
       else m_tcp_accept_list et' = m_tcp_accept_list et \<and> m_tcp_map et' = m_tcp_map et)"
proof -
  from set_conn_set_ok [OF ok fds] obtain m s where s: "set_conn_set et = Inr (m, s)" by blast
  obtain n s' where sel: "sel (m + 1) s = (n, s')" by (cases "sel (m + 1) s")
  show ?thesis
  proof (cases "n > 0")
    case False
    then show ?thesis using s sel l ok fds by (simp add: walk_through_def new_connection_def)
  next
    case True
    let ?l = "m_tcp_sock et \<in> set (rset s')"
    let ?e = "if ?l then proc_tcp_listen_sock os et else et"
    have e: "et_ok ?e" using ok et_ok_listen by simp
    have small: "small_fds ?e"
    proof (cases "?l \<and> 0 \<le> ac_sock os")
      case True
      then show ?thesis using fds ac listen_frame(1,3) [of os et]
          set_put_subset [of "ac_sock os" "Sock_Ptr (next_ref et)" "m_tcp_map et"]
        by (auto simp: small_fds_def)
    qed (use fds in \<open>auto simp: proc_tcp_listen_sock_def\<close>)
    then have "\<forall>x \<in> set (m_tcp_map ?e). fst x < FD_SETSIZE" by (simp add: small_fds_def)
    from proc_tcp_socket_ok [OF e this, of s'] obtain et' where
      et': "proc_tcp_socket s' ?e = Inr et'" "et_ok et'" "m_tcp_map et' = m_tcp_map ?e"
        "m_tcp_accept_list et' = m_tcp_accept_list ?e" "m_tcp_sock et' = m_tcp_sock ?e" by blast
    have w: "walk_through sel os et = Inr et'"
      using s sel l fds True et'(1) by (simp add: walk_through_def proc_rw_set_def small_fds_def FD_ISSET_small)
    have nc: "new_connection sel et = ?l" using s sel True by (simp add: new_connection_def)
    have "small_fds et'" using small et'(3,5) by (simp add: small_fds_def)
    with w et' listen_frame(1,2) [of os et] show ?thesis unfolding nc
      by (cases "0 \<le> ac_sock os") (simp_all add: proc_tcp_listen_sock_def [of os et])
  qed
qed

text \<open>
  C31. \<^verbatim>\<open>walk_through\<close> with all descriptors below \<^verbatim>\<open>FD_SETSIZE\<close>: no fault, the object stays well
  formed, and a connection is put at the end of the accept list and into the map exactly when the
  listening socket is reported readable and \<^verbatim>\<open>::accept\<close> delivers a descriptor. It never takes a
  connection out of the list.
\<close>

theorem walk_through_accepts:
  assumes ok: "et_ok et" and fds: "small_fds et" and l: "0 \<le> m_tcp_sock et" and ac: "ac_sock os < FD_SETSIZE"
  shows "\<exists>et'. walk_through sel os et = Inr et' \<and> et_ok et' \<and> small_fds et'
    \<and> (if new_connection sel et \<and> 0 \<le> ac_sock os
       then m_tcp_accept_list et' = m_tcp_accept_list et @ [Sock_Ptr (next_ref et)]
         \<and> m_tcp_map et' = omap_put (ac_sock os) (Sock_Ptr (next_ref et)) (m_tcp_map et)
       else m_tcp_accept_list et' = m_tcp_accept_list et \<and> m_tcp_map et' = m_tcp_map et)"
  using assms by (rule walk_through_defined)

text \<open>
  A descriptor from 1024 on is outside an \<^verbatim>\<open>fd_set\<close>: if the connection just accepted has one, the
  pass that accepts it reads outside the sets.
\<close>

lemma walk_through_large_fd:
  assumes ok: "et_ok et" and fds: "small_fds et" and l: "0 \<le> m_tcp_sock et"
    and n: "new_connection sel et" and ac: "FD_SETSIZE \<le> ac_sock os"
  shows "\<exists>e. walk_through sel os et = Inl e"
proof -
  from set_conn_set_ok [OF ok fds] obtain m s where s: "set_conn_set et = Inr (m, s)" by blast
  obtain k s' where sel: "sel (m + 1) s = (k, s')" by (cases "sel (m + 1) s")
  have k: "k > 0" "m_tcp_sock et \<in> set (rset s')" using n s sel by (simp_all add: new_connection_def)
  have a: "0 \<le> ac_sock os" using ac by (simp add: FD_SETSIZE_def)
  let ?e = "proc_tcp_listen_sock os et"
  let ?r = "Sock_Ptr (next_ref et)"
  have o: "et_ok ?e" by (rule et_ok_listen [OF ok])
  have "fst ` set (m_tcp_map ?e) = insert (ac_sock os) (fst ` set (m_tcp_map et))"
    using listen_frame(1) [OF a] by (simp add: set_keys_put)
  then obtain r where r: "(ac_sock os, r) \<in> set (m_tcp_map ?e)" by force
  have "\<exists>e. forE (m_tcp_map ?e) (proc_tcp_one s') ?e = Inl e"
  proof (rule forE_fault [where I = "\<lambda>e. et_ok e \<and> m_tcp_map e = m_tcp_map ?e" and k = "(ac_sock os, r)"])
    fix e :: etransfer
    assume e: "et_ok e \<and> m_tcp_map e = m_tcp_map ?e"
    with et_okD(3) [of e "ac_sock os" r] r obtain u where "heap e r = Some u" "m_sock u = ac_sock os" by auto
    with ac show "\<exists>f. proc_tcp_one s' (ac_sock os, r) e = Inl f"
      by (simp add: proc_tcp_one_def deref_def FD_ISSET_def)
  next
    fix i and e e' :: etransfer
    assume mem: "i \<in> set (m_tcp_map ?e)" and e: "et_ok e \<and> m_tcp_map e = m_tcp_map ?e"
      and p: "proc_tcp_one s' i e = Inr e'"
    obtain fd q where i: "i = (fd, q)" by (cases i)
    have q: "(fd, q) \<in> set (m_tcp_map e)" using mem e i by simp
    from et_okD(3) [OF _ q] e obtain u where "heap e q = Some u" "m_sock u = fd" by blast
    then have "fd < FD_SETSIZE"
      using p i by (auto simp: proc_tcp_one_def deref_def FD_ISSET_def split: if_splits)
    from proc_tcp_one_ok [OF _ q this, of s'] e p i
    show "et_ok e' \<and> m_tcp_map e' = m_tcp_map ?e" by (auto simp: set_sock_def)
  qed (use o r in auto)
  then show ?thesis
    using s sel k l fds by (auto simp: walk_through_def proc_rw_set_def proc_tcp_socket_def small_fds_def FD_ISSET_small)
qed

section \<open>\<^verbatim>\<open>select\<close>\<close>

lemma set_interest_frame:
  assumes "set_interest up et = Inr et'"
  shows "\<exists>h. et' = et\<lparr>heap := h\<rparr> \<and> dom h = dom (heap et)
    \<and> (\<forall>r u'. h r = Some u' \<longrightarrow> (\<exists>u b w. heap et r = Some u \<and> u' = u\<lparr>m_bneedreadselect := b, m_bneedwriteselect := w\<rparr>))"
proof -
  obtain r u where r: "usock up = Some r" "heap et r = Some u"
    using assms by (auto simp: set_interest_def deref_def split: option.splits elim!: bindE_InrE)
  have self: "\<exists>b w. v = v\<lparr>m_bneedreadselect := b, m_bneedwriteselect := w\<rparr>" for v :: usocket
    by (intro exI [of _ "m_bneedreadselect v"] exI [of _ "m_bneedwriteselect v"]) simp
  show ?thesis
  proof (cases "m_type u = SOCK_TYPE_TCP")
    case True
    then have "et' = et\<lparr>heap := (heap et)(r \<mapsto> u\<lparr>m_bneedreadselect := has_event (events up) UPOLL_READ_T,
        m_bneedwriteselect := has_event (events up) UPOLL_WRITE_T\<rparr>)\<rparr>"
      using assms r by (simp add: set_interest_def deref_def set_sock_def)
    then show ?thesis using r(2) self
      by (intro exI [of _ "heap et'"]) (auto simp: fun_upd_def split: if_splits)
  next
    case False
    then have "et' = et" using assms r by (simp add: set_interest_def deref_def)
    then show ?thesis using self by (intro exI [of _ "heap et"]) auto
  qed
qed

lemma interest_frame:
  assumes "forE src set_interest et = Inr et'"
  shows "\<exists>h. et' = et\<lparr>heap := h\<rparr> \<and> dom h = dom (heap et)
    \<and> (\<forall>r u'. h r = Some u' \<longrightarrow> (\<exists>u b w. heap et r = Some u \<and> u' = u\<lparr>m_bneedreadselect := b, m_bneedwriteselect := w\<rparr>))"
    (is "?F et et'")
proof (rule forE_Inr_invariant [where I = "?F et", OF assms])
  have "\<exists>b w. v = v\<lparr>m_bneedreadselect := b, m_bneedwriteselect := w\<rparr>" for v :: usocket
    by (intro exI [of _ "m_bneedreadselect v"] exI [of _ "m_bneedwriteselect v"]) simp
  then show "?F et et" by (intro exI [of _ "heap et"]) auto
next
  fix up e e'
  assume e: "?F et e" and "set_interest up e = Inr e'"
  from set_interest_frame [OF this(2)] obtain h where h: "e' = e\<lparr>heap := h\<rparr>" "dom h = dom (heap e)"
    "\<And>r u'. h r = Some u' \<Longrightarrow> \<exists>u b w. heap e r = Some u \<and> u' = u\<lparr>m_bneedreadselect := b, m_bneedwriteselect := w\<rparr>"
    by blast
  from e obtain g where g: "e = et\<lparr>heap := g\<rparr>" "dom g = dom (heap et)"
    "\<And>r u'. g r = Some u' \<Longrightarrow> \<exists>u b w. heap et r = Some u \<and> u' = u\<lparr>m_bneedreadselect := b, m_bneedwriteselect := w\<rparr>"
    by blast
  have "\<exists>u b w. heap et r = Some u \<and> u' = u\<lparr>m_bneedreadselect := b, m_bneedwriteselect := w\<rparr>"
    if r: "h r = Some u'" for r u'
  proof -
    from h(3) [OF r] obtain v b w where v: "g r = Some v" "u' = v\<lparr>m_bneedreadselect := b, m_bneedwriteselect := w\<rparr>"
      using g(1) by auto
    from g(3) [OF v(1)] obtain u where u: "heap et r = Some u"
      "\<exists>b w. v = u\<lparr>m_bneedreadselect := b, m_bneedwriteselect := w\<rparr>" by blast
    then have "u' = u\<lparr>m_bneedreadselect := b, m_bneedwriteselect := w\<rparr>" using v(2) by auto
    with u(1) show ?thesis by blast
  qed
  with h(1,2) g(1,2) show "?F et e'" by (intro exI [of _ h]) simp
qed

lemma interest_status:
  assumes "forE src set_interest et = Inr et'"
  shows "m_tcp_listener et' = m_tcp_listener et" "m_tcp_accept_list et' = m_tcp_accept_list et"
    "m_tcp_map et' = m_tcp_map et" "m_tcp_sock et' = m_tcp_sock et" "m_destroy_list et' = m_destroy_list et"
    "closed_fds et' = closed_fds et" "next_ref et' = next_ref et" "dom (heap et') = dom (heap et)"
    "heap et' r = Some u' \<Longrightarrow> \<exists>u. heap et r = Some u \<and> m_sock u = m_sock u' \<and> m_status u = m_status u' \<and> m_type u = m_type u'"
  using interest_frame [OF assms] by (auto 0 4)

text \<open>What one entry of the poll list can contribute to the result.\<close>

definition poll_hit :: "etransfer \<Rightarrow> 'p upoll \<Rightarrow> 'p upoll \<Rightarrow> bool" where
  "poll_hit et up e \<longleftrightarrow> usock e = usock up \<and> pointer e = pointer up
     \<and> (\<exists>r u. usock up = Some r \<and> heap et r = Some u
        \<and> (if m_status u = SOCK_ERROR then events e = UPOLL_ERROR_T
           else events e = UPOLL_WRITE_T \<and> has_event (events up) UPOLL_WRITE_T \<and> m_sock u \<ge> 0
             \<or> events e = UPOLL_READ_T \<and> has_event (events up) UPOLL_READ_T
               \<and> (if usock up = m_tcp_listener et then m_tcp_accept_list et \<noteq> [] else m_sock u \<ge> 0)))"

lemma ready_entry_hit:
  assumes "ready_entry os et up = Inr es" and "e \<in> set es"
  shows "poll_hit et up e"
proof -
  obtain r u where r: "usock up = Some r" "heap et r = Some u"
    using assms(1) by (auto simp: ready_entry_def deref_def split: option.splits elim!: bindE_InrE)
  note simps = ready_entry_def deref_def tcp_is_error_def r option.case bindE_simps
  show ?thesis
  proof (cases "m_status u = SOCK_ERROR")
    case True
    then have "e = up\<lparr>events := UPOLL_ERROR_T\<rparr>" using assms by (auto simp: simps)
    with r True show ?thesis by (simp add: poll_hit_def)
  next
    case False
    let ?w = "if has_event (events up) UPOLL_WRITE_T then tcp_can_write (po_write os) u else Inr False"
    let ?r = "if has_event (events up) UPOLL_READ_T
       then (if Some r = m_tcp_listener et then Inr (m_tcp_accept_list et \<noteq> []) else tcp_can_read (po_read os) u)
       else Inr False"
    from assms(1) False obtain w rd where
      w: "?w = Inr w" and rd: "?r = Inr rd" and
      es: "es = (if w then [up\<lparr>events := UPOLL_WRITE_T\<rparr>] else []) @ (if rd then [up\<lparr>events := UPOLL_READ_T\<rparr>] else [])"
      by (auto simp only: simps if_False elim!: bindE_InrE)
    have hw: "has_event (events up) UPOLL_WRITE_T \<and> m_sock u \<ge> 0" if w
      using that w by (auto simp: tcp_can_write_def split: if_splits)
    have hr: "has_event (events up) UPOLL_READ_T
        \<and> (if usock up = m_tcp_listener et then m_tcp_accept_list et \<noteq> [] else m_sock u \<ge> 0)" if rd
      using that rd r(1) by (auto simp: tcp_can_read_def split: if_splits)
    from assms(2) es consider "w" "e = up\<lparr>events := UPOLL_WRITE_T\<rparr>" | "rd" "e = up\<lparr>events := UPOLL_READ_T\<rparr>"
      by (auto split: if_splits)
    then show ?thesis using hw hr r False by cases (simp_all add: poll_hit_def)
  qed
qed

lemma has_available_hits:
  assumes "has_available_sockets os et src dst = Inr (dst', n)"
  shows "\<exists>es. dst' = dst @ es \<and> n = int (length es) \<and> (\<forall>e \<in> set es. \<exists>up \<in> set src. poll_hit et up e)"
proof -
  let ?I = "\<lambda>acc. \<exists>es. fst acc = dst @ es \<and> snd acc = int (length es) \<and> (\<forall>e \<in> set es. \<exists>up \<in> set src. poll_hit et up e)"
  have "?I (dst', n)"
  proof (rule forE_Inr_invariant [where I = ?I])
    show "forE src (\<lambda>up acc. bindE (ready_entry os et up) (\<lambda>es. Inr (fst acc @ es, snd acc + int (length es))))
       (dst, 0) = Inr (dst', n)" using assms by (simp add: has_available_sockets_def)
  next
    fix up acc acc'
    assume "up \<in> set src" and "?I acc"
      and "bindE (ready_entry os et up) (\<lambda>es. Inr (fst acc @ es, snd acc + int (length es))) = Inr acc'"
    then obtain es es' where "ready_entry os et up = Inr es'" "acc' = (fst acc @ es', snd acc + int (length es'))"
      "fst acc = dst @ es" "snd acc = int (length es)" "\<forall>e \<in> set es. \<exists>up \<in> set src. poll_hit et up e"
      by (auto elim!: bindE_InrE)
    with ready_entry_hit [of os et up es'] \<open>up \<in> set src\<close> show "?I acc'"
      by (intro exI [of _ "es @ es'"]) auto
  qed auto
  then show ?thesis by simp
qed

lemma poll_hit_interest:
  assumes "forE src set_interest et = Inr et'" and "poll_hit et' up e"
  shows "poll_hit et up e"
proof -
  from assms(2) obtain r u' where r: "usock up = Some r" "heap et' r = Some u'" by (auto simp: poll_hit_def)
  note s = interest_status [OF assms(1)]
  from s(9) [OF r(2)] obtain u where "heap et r = Some u" "m_sock u = m_sock u'" "m_status u = m_status u'" by blast
  with assms(2) r s(1,2) show ?thesis by (auto simp: poll_hit_def split: if_splits)
qed

lemma select_reports:
  assumes "select os0 os1 os2 src et = Inr (et', dst, n)"
  shows "(n > 0 \<longleftrightarrow> dst \<noteq> []) \<and> (\<forall>e \<in> set dst. \<exists>up \<in> set src. poll_hit et up e)
    \<and> m_tcp_accept_list et' = m_tcp_accept_list et \<and> m_tcp_map et' = m_tcp_map et
    \<and> m_tcp_listener et' = m_tcp_listener et \<and> m_destroy_list et' = m_destroy_list et
    \<and> closed_fds et' = closed_fds et \<and> dom (heap et') = dom (heap et)"
proof -
  from assms obtain d0 n0 where 0: "has_available_sockets os0 et src [] = Inr (d0, n0)"
    and rest: "(if n0 > 0 then Inr (et, d0, 1)
       else bindE (forE src set_interest et) (\<lambda>et.
            bindE (has_available_sockets os1 et src d0) (\<lambda>(dst, n).
              if n > 0 then Inr (et, dst, n)
              else bindE (has_available_sockets os2 et src dst) (\<lambda>(dst, n). Inr (et, dst, n))))) = Inr (et', dst, n)"
    by (auto simp: select_def elim!: bindE_InrE)
  from has_available_hits [OF 0] have h0: "n0 = int (length d0)" "\<forall>e \<in> set d0. \<exists>up \<in> set src. poll_hit et up e"
    by auto
  show ?thesis
  proof (cases "n0 > 0")
    case True
    with rest h0 show ?thesis by auto
  next
    case False
    with h0 have d0: "d0 = []" by simp
    from rest False obtain e1 d1 n1 where e1: "forE src set_interest et = Inr e1"
      and 1: "has_available_sockets os1 e1 src [] = Inr (d1, n1)"
      and rest': "(if n1 > 0 then Inr (e1, d1, n1)
        else bindE (has_available_sockets os2 e1 src d1) (\<lambda>(dst, n). Inr (e1, dst, n))) = Inr (et', dst, n)"
      unfolding d0 by (auto elim!: bindE_InrE)
    from has_available_hits [OF 1] have h1: "n1 = int (length d1)" "\<forall>e \<in> set d1. \<exists>up \<in> set src. poll_hit e1 up e"
      by auto
    have "et' = e1 \<and> n = int (length dst) \<and> (\<forall>e \<in> set dst. \<exists>up \<in> set src. poll_hit e1 up e)"
    proof (cases "n1 > 0")
      case True
      with rest' h1 show ?thesis by auto
    next
      case False
      with h1 have d1: "d1 = []" by simp
      from rest' False obtain d2 n2 where "has_available_sockets os2 e1 src [] = Inr (d2, n2)"
        "et' = e1" "dst = d2" "n = n2" unfolding d1 by (auto elim!: bindE_InrE)
      with has_available_hits [of os2 e1 src "[]" d2 n2] show ?thesis by auto
    qed
    then have "et' = e1" "n = int (length dst)" "\<forall>e \<in> set dst. \<exists>up \<in> set src. poll_hit et up e"
      using poll_hit_interest [OF e1] by blast+
    with interest_status(1-8) [OF e1] show ?thesis by auto
  qed
qed


lemma set_interest_ok:
  assumes "usock up = Some r" and "heap et r \<noteq> None"
  shows "\<exists>et'. set_interest up et = Inr et' \<and> dom (heap et') = dom (heap et)"
  using assms by (auto simp: set_interest_def deref_def set_sock_def)

lemma et_ok_interest:
  assumes "et_ok et" and "forE src set_interest et = Inr et'"
  shows "et_ok et'"
proof -
  have k: "et_ok e'" if e: "et_ok e" and s: "set_interest up e = Inr e'" for up e e'
  proof -
    obtain r u where r: "usock up = Some r" "heap e r = Some u"
      using s by (auto simp: set_interest_def deref_def split: option.splits elim!: bindE_InrE)
    have "et_ok (set_sock r (u\<lparr>m_bneedreadselect := b, m_bneedwriteselect := w\<rparr>) e)" for b w
      using et_okD(5) [OF e, of r] r(2) by (intro et_ok_set_sock [OF e r(2)]) auto
    with s r e show ?thesis by (auto simp: set_interest_def deref_def split: if_splits)
  qed
  show ?thesis by (rule forE_Inr_invariant [where I = et_ok, OF assms(2,1) k])
qed

lemma proc_tcp_one_inv:
  assumes "et_ok et" and "i \<in> set (m_tcp_map et)" and "proc_tcp_one s i et = Inr et'"
  shows "et_ok et' \<and> m_tcp_map et' = m_tcp_map et"
proof -
  obtain fd q where i: "i = (fd, q)" by (cases i)
  with assms(2) have q: "(fd, q) \<in> set (m_tcp_map et)" by simp
  from et_okD(3) [OF assms(1) q] obtain u where "heap et q = Some u" "m_sock u = fd" by blast
  then have "fd < FD_SETSIZE"
    using assms(3) i by (auto simp: proc_tcp_one_def deref_def FD_ISSET_def split: if_splits)
  from proc_tcp_one_ok [OF assms(1) q this, of s] assms(3) i show ?thesis by (auto simp: set_sock_def)
qed

lemma walk_through_cases:
  assumes "walk_through sel os et = Inr et'"
  shows "et' = et \<or> (\<exists>s e. (e = et \<or> e = proc_tcp_listen_sock os et) \<and> proc_tcp_socket s e = Inr et')"
proof (cases "m_tcp_sock et < 0")
  case True
  with assms show ?thesis by (simp add: walk_through_def)
next
  case False
  from assms False obtain m s where s: "set_conn_set et = Inr (m, s)"
    "(case sel (m + 1) s of (n, s') \<Rightarrow> if n > 0 then proc_rw_set os s' et else Inr et) = Inr et'"
    by (auto simp: walk_through_def elim!: bindE_InrE)
  obtain n s' where n: "sel (m + 1) s = (n, s')" by (cases "sel (m + 1) s")
  show ?thesis
  proof (cases "n > 0")
    case False
    with s n show ?thesis by simp
  next
    case True
    with s n have "proc_rw_set os s' et = Inr et'" by simp
    then obtain l where "proc_tcp_socket s' (if l then proc_tcp_listen_sock os et else et) = Inr et'"
      unfolding proc_rw_set_def by (elim bindE_InrE)
    then show ?thesis by (cases l) auto
  qed
qed

lemma walk_through_inv:
  assumes "et_ok et" and "walk_through sel os et = Inr et'"
  shows "et_ok et'"
proof -
  have p: "et_ok et'" if e: "proc_tcp_socket s e = Inr et'" and o: "et_ok e" for s e
  proof -
    have "et_ok et' \<and> m_tcp_map et' = m_tcp_map e"
    proof (rule forE_Inr_invariant [where I = "\<lambda>x. et_ok x \<and> m_tcp_map x = m_tcp_map e"])
      show "forE (m_tcp_map e) (proc_tcp_one s) e = Inr et'" using e by (simp add: proc_tcp_socket_def)
    next
      fix i x x'
      assume "i \<in> set (m_tcp_map e)" "et_ok x \<and> m_tcp_map x = m_tcp_map e" "proc_tcp_one s i x = Inr x'"
      then show "et_ok x' \<and> m_tcp_map x' = m_tcp_map e" using proc_tcp_one_inv [of x i s x'] by auto
    qed (use o in simp)
    then show ?thesis by simp
  qed
  from walk_through_cases [OF assms(2)] p assms(1) et_ok_listen [OF assms(1)] show ?thesis by blast
qed

lemma select_inv:
  assumes "et_ok et" and "select os0 os1 os2 src et = Inr (et', dst, n)"
  shows "et_ok et'"
proof -
  have "et' = et \<or> (\<exists>e1. forE src set_interest et = Inr e1 \<and> et' = e1)"
    using assms(2) by (auto simp: select_def elim!: bindE_InrE split: if_splits)
  with et_ok_interest [OF assms(1)] assms(1) show ?thesis by auto
qed

section \<open>The transfer object as a machine\<close>

text \<open>
  What a program may do with the object after \<^verbatim>\<open>init_tcp\<close> succeeded, in any order and with any
  answers of the system: the public methods, and \<^verbatim>\<open>recv\<close> and \<^verbatim>\<open>send\<close> on a socket other than the
  listener.
\<close>

inductive et_step :: "etransfer \<Rightarrow> etransfer \<Rightarrow> bool" where
  et_walk: "walk_through sel os et = Inr et' \<Longrightarrow> et_step et et'"
| et_select: "select os0 os1 os2 (src :: unit upoll list) et = Inr (et', dst, n) \<Longrightarrow> et_step et et'"
| et_accept: "accept l et = Inr (et', r) \<Longrightarrow> et_step et et'"
| et_destroy: "destroy_socket r et = Inr et' \<Longrightarrow> et_step et et'"
| et_do_destroy: "do_destroy_sockets et = Inr et' \<Longrightarrow> et_step et et'"
| et_recv: "heap et r = Some u \<Longrightarrow> m_tcp_listener et \<noteq> Some r \<Longrightarrow>
    tcp_recv ut rv buf off len u = Inr (u', b, n) \<Longrightarrow> et_step et (set_sock r u' et)"
| et_send: "heap et r = Some u \<Longrightarrow> m_tcp_listener et \<noteq> Some r \<Longrightarrow>
    tcp_send ut sd buf off len u = Inr (u', b, n) \<Longrightarrow> et_step et (set_sock r u' et)"

definition et_start :: "etransfer \<Rightarrow> bool" where
  "et_start et \<longleftrightarrow> (\<exists>os port junk. init_tcp os port (new_eTransfer junk) = (et, 0))"

lemma init_tcp_ok:
  assumes "init_tcp os port (new_eTransfer junk) = (et, r)"
  shows "et_ok et"
proof -
  let ?n = "(new_eTransfer junk)\<lparr>m_tcp_sock := s, m_tcp_port := p, closed_fds := c\<rparr>"
  have o: "et_ok ?n" for s p c by (simp add: et_ok_def new_eTransfer_def)
  have u: "m_type (new_UTcpSocket k) = SOCK_TYPE_TCP" "m_sock (new_UTcpSocket k) = -1"
    "m_status (new_UTcpSocket k) = SOCK_CLOSED" for k by (simp_all add: new_UTcpSocket_def)
  show ?thesis using assms
    by (auto simp: init_tcp_def Let_def et_ok_def new_eTransfer_def alloc_def set_sock_def u split: if_splits option.splits)
qed

lemma et_ok_step:
  assumes "et_ok et" and "et_step et et'"
  shows "et_ok et'"
  using assms(2,1)
proof cases
  case (et_walk sel os)
  then show ?thesis using walk_through_inv assms(1) by blast
next
  case (et_select os0 os1 os2 src dst n)
  then show ?thesis using select_inv assms(1) by blast
next
  case (et_accept l r)
  then show ?thesis using accept_ok [OF assms(1), of l] by auto
next
  case (et_destroy r)
  then obtain u where "heap et r = Some u"
    by (auto simp: destroy_socket_def deref_def split: option.splits elim!: bindE_InrE)
  from destroy_socket_ok [OF assms(1) this] et_destroy show ?thesis by auto
next
  case et_do_destroy
  then show ?thesis using do_destroy_sockets_ok [OF assms(1)] by auto
next
  case (et_recv r u ut rv buf off len u' b n)
  then show ?thesis using tcp_recv_frame [OF et_recv(4)] assms(1) by (auto intro!: et_ok_set_sock)
next
  case (et_send r u ut sd buf off len u' b n)
  then show ?thesis using tcp_send_frame [OF et_send(4)] assms(1) by (auto intro!: et_ok_set_sock)
qed

interpretation et_machine: invariant_system et_start et_step et_ok
proof unfold_locales
  fix et
  assume "et_start et"
  then show "et_ok et" using init_tcp_ok by (auto simp: et_start_def)
qed (rule et_ok_step)


definition example_init :: init_os where
  "example_init = \<lparr>io_socket = 3, io_bind = (\<lambda>_ _. Bound), io_random = (\<lambda>_. 0), io_err = 0, io_junk = 0\<rparr>"

definition example_et :: etransfer where
  "example_et = \<lparr>heap = [Sock_Ptr 0 \<mapsto> new_UTcpSocket 0], next_ref = 1, m_tcp_sock = 3, m_tcp_port = 4036,
     m_tcp_listener = Some (Sock_Ptr 0), m_tcp_map = [], m_tcp_accept_list = [], m_destroy_list = [],
     closed_fds = []\<rparr>"

definition example_ac :: accept_os where
  "example_ac = \<lparr>ac_sock = 4, ac_peer = sa_reset, ac_nonblock = 0, ac_err = 0, ac_junk = 0\<rparr>"

definition example_sel :: "int \<Rightarrow> fdsets \<Rightarrow> int \<times> fdsets" where
  "example_sel n s = (1, \<lparr>rset = [3], wset = [], eset = []\<rparr>)"

lemma example_init: "init_tcp example_init 4036 (new_eTransfer 0) = (example_et, 0)"
proof -
  have "bind_tries example_init 5 4036 = Some 4036"
    using bind_tries.simps(2) [of example_init 4 4036] by (simp add: example_init_def)
  then show ?thesis
    by (simp add: init_tcp_def example_et_def new_eTransfer_def alloc_def set_sock_def Let_def) 
      (simp add: example_init_def)
qed

lemma example_et:
  "et_start example_et" "m_tcp_sock example_et = 3" "m_tcp_map example_et = []"
  "m_tcp_accept_list example_et = []" "next_ref example_et = 1" "m_tcp_listener example_et = Some (Sock_Ptr 0)"
proof -
  show "et_start example_et" using example_init by (auto simp: et_start_def)
qed (simp_all add: example_et_def)


lemma walk_through_accepts_witness:
  "\<exists>et'. walk_through example_sel example_ac example_et = Inr et' \<and> m_tcp_accept_list et' = [Sock_Ptr 1]"
proof -
  have s: "et_ok example_et" "small_fds example_et" using example_et et_machine.inv_init
    by (simp_all add: small_fds_def FD_SETSIZE_def)
  have nc: "new_connection example_sel example_et"
    using example_et by (simp add: new_connection_def set_conn_set_def FD_SET_def FD_SETSIZE_def example_sel_def)
  have l: "0 \<le> m_tcp_sock example_et" "ac_sock example_ac < FD_SETSIZE" "0 \<le> ac_sock example_ac"
    using example_et by (simp_all add: example_ac_def FD_SETSIZE_def)
  from walk_through_accepts [OF s l(1,2), of example_sel] nc l(3) example_et show ?thesis by auto
qed

definition all_ready :: poll_os where
  "all_ready = \<lparr>po_read = (\<lambda>_. True), po_write = (\<lambda>_. True)\<rparr>"


text \<open>
  \<^verbatim>\<open>init_tcp\<close> tries at most five ports. It leaves a listening descriptor exactly when a
  \<^verbatim>\<open>bind\<close> succeeded, and then has a listener object; the port is the one asked for or, after an
  address in use, some port between 10000 and 19999, which nobody is told. Otherwise no listener
  is created and the descriptor is closed.
\<close>

lemma init_tcp_outcome:
  assumes "init_tcp os port et = (et', r)"
  shows "(case bind_tries os 5 port of
            Some p \<Rightarrow> (0 \<le> io_socket os \<longrightarrow> r = 0 \<and> m_tcp_sock et' = io_socket os \<and> m_tcp_port et' = p
              \<and> m_tcp_listener et' = Some (Sock_Ptr (next_ref et)) \<and> (p = port \<or> 10000 \<le> p \<and> p < 20000))
          | None \<Rightarrow> m_tcp_sock et' < 0 \<and> m_tcp_listener et' = m_tcp_listener et
              \<and> (0 \<le> io_socket os \<longrightarrow> r = -1 \<and> closed_fds et' = closed_fds et @ [io_socket os]))
    \<and> (io_socket os < 0 \<longrightarrow> m_tcp_sock et' < 0 \<and> m_tcp_listener et' = m_tcp_listener et)
    \<and> (io_bind os 4 (word_of_int port) = Bound \<longrightarrow> bind_tries os 5 port = Some port)"
proof -
  have "p = q \<or> 10000 \<le> p \<and> p < 20000" if "bind_tries os n q = Some p" for n p q
    using that
  proof (induction n arbitrary: q)
    case (Suc n)
    have "int (io_random os n mod 10000) < 10000" by simp
    with Suc.prems Suc.IH [of "10000 + int (io_random os n mod 10000)"] Suc.IH [of q] show ?case
      by (auto split: bind_answer.splits simp del: of_nat_mod zmod_int)
  qed simp
  moreover have "bind_tries os 5 port = Some port" if "io_bind os 4 (word_of_int port) = Bound"
    using bind_tries.simps(2) [of os 4 port] that by simp
  ultimately show ?thesis using assms
    by (auto simp: init_tcp_def Let_def alloc_def set_sock_def split: option.splits if_splits)
qed

lemma init_tcp_outcome_witness:
  "\<exists>p. bind_tries example_init 5 4036 = Some p \<and> m_tcp_port example_et = p \<and> p = 4036"
proof -
  have "io_bind example_init 4 (word_of_int 4036) = Bound" "0 \<le> io_socket example_init"
    by (simp_all add: example_init_def)
  with init_tcp_outcome [OF example_init] show ?thesis by auto
qed

text \<open>Handing out connections: \<open>n\<close> calls of \<^verbatim>\<open>accept\<close> on the listener.\<close>

fun accept_n :: "nat \<Rightarrow> etransfer \<Rightarrow> (etransfer \<times> sockref option list) res" where
  "accept_n 0 et = Inr (et, [])"
| "accept_n (Suc n) et = bindE (accept (m_tcp_listener et) et) (\<lambda>(et, r).
     bindE (accept_n n et) (\<lambda>(et, rs). Inr (et, r # rs)))"

text \<open>
  Connections are handed out in the order in which they arrived, each one once and connected;
  when the list is used up \<^verbatim>\<open>accept\<close> returns a null pointer.
\<close>

lemma accept_in_order:
  assumes "et_ok et"
  shows "\<exists>et'. accept_n (length (m_tcp_accept_list et) + k) et = Inr (et', map Some (m_tcp_accept_list et) @ replicate k None)
    \<and> m_tcp_accept_list et' = []
    \<and> (\<forall>r \<in> set (m_tcp_accept_list et). \<exists>u. heap et' r = Some u \<and> m_status u = SOCK_CONNECTED)"
  using assms
proof (induction "m_tcp_accept_list et" arbitrary: et)
  case Nil
  have "accept_n k et = Inr (et, replicate k None)"
    using Nil.hyps by (induction k) (simp_all add: accept_def)
  with Nil.hyps show ?case by (intro exI [of _ et]) (simp flip: Nil.hyps)
next
  case (Cons r rs)
  have rs: "m_tcp_accept_list et = r # rs" using Cons.hyps(2) by simp
  then obtain u where u: "heap et r = Some u" using et_okD(4) [OF Cons.prems] by force
  let ?e = "set_sock r (u\<lparr>m_status := SOCK_CONNECTED\<rparr>) et\<lparr>m_tcp_accept_list := rs\<rparr>"
  have a: "accept (m_tcp_listener et) et = Inr (?e, Some r)"
    using u by (simp add: accept_def deref_def rs)
  have ok: "et_ok ?e" using accept_ok [OF Cons.prems, of "m_tcp_listener et"] a by simp
  have "rs = m_tcp_accept_list ?e" by simp
  from Cons.hyps(1) [OF this ok] obtain et' where
    et': "accept_n (length rs + k) ?e = Inr (et', map Some rs @ replicate k None)" "m_tcp_accept_list et' = []"
      "\<forall>r \<in> set rs. \<exists>u. heap et' r = Some u \<and> m_status u = SOCK_CONNECTED"
    by auto
  have keep: "\<exists>v. heap e' r = Some v \<and> m_status v = SOCK_CONNECTED"
    if "accept_n n e = Inr (e', os)" "heap e r = Some w" "m_status w = SOCK_CONNECTED" for n e e' os w
    using that
  proof (induction n arbitrary: e os w)
    case (Suc n)
    then obtain e1 o1 os1 where s: "accept (m_tcp_listener e) e = Inr (e1, o1)" "accept_n n e1 = Inr (e', os1)"
      by (auto elim!: bindE_InrE)
    then have "\<exists>v. heap e1 r = Some v \<and> m_status v = SOCK_CONNECTED" using Suc.prems(2,3)
      by (auto simp: accept_def set_sock_def deref_def split: list.splits option.splits elim!: bindE_InrE)
    with Suc.IH [OF s(2)] show ?case by blast
  qed auto
  have "\<exists>v. heap et' r = Some v \<and> m_status v = SOCK_CONNECTED"
    by (rule keep [OF et'(1), of "u\<lparr>m_status := SOCK_CONNECTED\<rparr>"]) (simp_all add: set_sock_def)
  with et' a show ?case by (simp add: rs)
qed

lemma accept_in_order_witness:
  "\<exists>et et'. m_tcp_accept_list et = [Sock_Ptr 1] \<and> accept_n 2 et = Inr (et', [Some (Sock_Ptr 1), None])"
proof -
  have s: "et_ok example_et" "small_fds example_et" using example_et et_machine.inv_init
    by (simp_all add: small_fds_def FD_SETSIZE_def)
  let ?e = "proc_tcp_listen_sock example_ac example_et"
  have l: "m_tcp_accept_list ?e = [Sock_Ptr 1]"
    using listen_frame(2) [of example_ac example_et] example_et by (simp add: example_ac_def)
  from accept_in_order [OF et_ok_listen [OF s(1), of example_ac], of 1] l
  have "\<exists>et'. accept_n 2 ?e = Inr (et', [Some (Sock_Ptr 1), None])" by (auto simp: numeral_2_eq_2)
  with l show ?thesis by blast
qed

section \<open>Polling does not fault\<close>

text \<open>A poll list whose entries all point to allocated sockets with small descriptors.\<close>

definition poll_ok :: "etransfer \<Rightarrow> 'p upoll list \<Rightarrow> bool" where
  "poll_ok et src \<longleftrightarrow> (\<forall>up \<in> set src. \<exists>r u. usock up = Some r \<and> heap et r = Some u \<and> m_sock u < FD_SETSIZE)"

lemma ready_entry_ok:
  assumes "usock up = Some r" and "heap et r = Some u" and "m_sock u < FD_SETSIZE"
  shows "\<exists>es. ready_entry os et up = Inr es"
proof -
  have "\<exists>b. tcp_can_write (po_write os) u = Inr b" "\<exists>b. tcp_can_read (po_read os) u = Inr b"
    using assms(3) by (auto simp: tcp_can_write_def tcp_can_read_def FD_SET_small not_less)
  with assms(1,2) show ?thesis by (auto simp: ready_entry_def deref_def)
qed

lemma has_available_ok:
  assumes "poll_ok et src"
  shows "\<exists>r. has_available_sockets os et src dst = Inr r"
proof -
  have "\<exists>r. has_available_sockets os et src dst = Inr r \<and> True" unfolding has_available_sockets_def
  proof (rule forE_invariant)
    fix up acc
    assume "up \<in> set src"
    with assms obtain r u where "usock up = Some r" "heap et r = Some u" "m_sock u < FD_SETSIZE"
      by (auto simp: poll_ok_def)
    from ready_entry_ok [OF this, of os] show "\<exists>s'. bindE (ready_entry os et up)
        (\<lambda>es. Inr (fst acc @ es, snd acc + int (length es))) = Inr s' \<and> True" by auto
  qed simp
  then show ?thesis by blast
qed

lemma poll_ok_interest:
  assumes "poll_ok et src" and "forE xs set_interest et = Inr et'"
  shows "poll_ok et' src"
  unfolding poll_ok_def
proof
  fix up
  assume "up \<in> set src"
  with assms(1) obtain r u where r: "usock up = Some r" "heap et r = Some u" "m_sock u < FD_SETSIZE"
    by (auto simp: poll_ok_def)
  then have "r \<in> dom (heap et')" using interest_status(8) [OF assms(2)] by auto
  then obtain u' where u': "heap et' r = Some u'" by auto
  with interest_status(9) [OF assms(2) u'] r
  show "\<exists>r u. usock up = Some r \<and> heap et' r = Some u \<and> m_sock u < FD_SETSIZE" by auto
qed

lemma interest_ok:
  assumes "poll_ok et src"
  shows "\<exists>et'. forE src set_interest et = Inr et'"
proof -
  have "\<exists>et'. forE src set_interest et = Inr et' \<and> dom (heap et') = dom (heap et)"
  proof (rule forE_invariant [where I = "\<lambda>e. dom (heap e) = dom (heap et)"])
    fix up and e :: etransfer
    assume "up \<in> set src" and e: "dom (heap e) = dom (heap et)"
    with assms obtain r where "usock up = Some r" "r \<in> dom (heap et)" unfolding poll_ok_def by blast
    then show "\<exists>e'. set_interest up e = Inr e' \<and> dom (heap e') = dom (heap et)"
      using set_interest_ok [of up r e] e by auto
  qed simp
  then show ?thesis by blast
qed

lemma select_ok:
  assumes "poll_ok et src"
  shows "\<exists>et' dst n. select os0 os1 os2 src et = Inr (et', dst, n)"
proof -
  obtain d0 n0 where 0: "has_available_sockets os0 et src [] = Inr (d0, n0)"
    using has_available_ok [OF assms, of os0 "[]"] by auto
  obtain e1 where e1: "forE src set_interest et = Inr e1" using interest_ok [OF assms] by blast
  have p: "poll_ok e1 src" by (rule poll_ok_interest [OF assms e1])
  obtain d1 n1 where 1: "has_available_sockets os1 e1 src d0 = Inr (d1, n1)"
    using has_available_ok [OF p, of os1 d0] by auto
  obtain d2 n2 where 2: "has_available_sockets os2 e1 src d1 = Inr (d2, n2)"
    using has_available_ok [OF p, of os2 d1] by auto
  from 0 1 2 e1 show ?thesis by (simp add: select_def)
qed

lemma walk_through_fds:
  assumes "et_ok et" and "walk_through sel os et = Inr et'"
  shows "closed_fds et' = closed_fds et \<and> fst ` set (m_tcp_map et) \<subseteq> fst ` set (m_tcp_map et')"
proof -
  let ?I = "\<lambda>x. closed_fds x = closed_fds et \<and> fst ` set (m_tcp_map et) \<subseteq> fst ` set (m_tcp_map x)"
  have l: "?I (proc_tcp_listen_sock os et)"
  proof (cases "0 \<le> ac_sock os")
    case True
    then show ?thesis using set_keys_put [of "ac_sock os" "Sock_Ptr (next_ref et)" "m_tcp_map et"]
      by (auto simp: listen_frame)
  qed (simp add: proc_tcp_listen_sock_def)
  have p: "?I x'" if x: "proc_tcp_socket s x = Inr x'" "?I x" for s x x'
  proof (rule forE_Inr_invariant [where I = ?I])
    show "forE (m_tcp_map x) (proc_tcp_one s) x = Inr x'" using x(1) by (simp add: proc_tcp_socket_def)
    fix i y y'
    assume I: "?I y" and "proc_tcp_one s i y = Inr y'"
    then have "\<exists>u. y' = set_sock (snd i) u y"
      by (auto simp: proc_tcp_one_def Let_def split: if_splits elim!: bindE_InrE)
    with I show "?I y'" by (elim exE) (simp add: set_sock_def)
  qed (rule x(2))
  from walk_through_cases [OF assms(2)] p l show ?thesis by blast
qed

text \<open>A poll list with only an idle listener reports nothing.\<close>

lemma select_idle:
  assumes "m_tcp_listener et = Some l" and "heap et l = Some u" and "m_sock u = -1" and "m_status u = SOCK_CLOSED"
    and "m_tcp_accept_list et = []"
  shows "\<exists>et' dst n. select p0 p1 p2 [\<lparr>usock = Some l, events = UPOLL_READ_T, pointer = (None :: 'p option)\<rparr>] et
      = Inr (et', dst, n) \<and> n \<le> 0"
proof -
  let ?src = "[\<lparr>usock = Some l, events = UPOLL_READ_T, pointer = (None :: 'p option)\<rparr>]"
  have "poll_ok et ?src" using assms by (simp add: poll_ok_def FD_SETSIZE_def)
  from select_ok [OF this] obtain et' dst n where s: "select p0 p1 p2 ?src et = Inr (et', dst, n)" by blast
  have "\<not> poll_hit et \<lparr>usock = Some l, events = UPOLL_READ_T, pointer = None\<rparr> e" for e :: "'p upoll"
    using assms by (auto simp: poll_hit_def)
  with select_reports [OF s] have "\<not> n > 0" by (cases dst) auto
  with s show ?thesis by auto
qed

end
