(* ===== verification/Job_Monitor.thy ===== *)
theory Job_Monitor
  imports Job_Ring Msg_Wire Etransfer
begin

text \<open>
  The thread \<^verbatim>\<open>job_monitor_etransfer\<close> of \<^verbatim>\<open>libjobq.c\<close>, which serves submissions, cancellations
  and queries: the handler of each request, the treatment of one poll entry, one iteration of the
  loop and runs of it. \<^verbatim>\<open>server_single_job_cancel\<close> and the older \<^verbatim>\<open>job_status_query\<close> and
  \<^verbatim>\<open>job_queue_push\<close>, which serve the same requests over datagrams, are here too.
\<close>

section \<open>Cancelling\<close>

text \<open>\<open>junk\<close> is the fresh allocation that becomes the message.\<close>

definition server_single_job_cancel ::
  "net_os \<Rightarrow> char list \<Rightarrow> int \<Rightarrow> int \<Rightarrow> server \<Rightarrow> packet list res" where
  "server_single_job_cancel os junk jid host s =
     bindE (put_ints [(0, msg_code MSG_TYPE_JOB_CANCEL), (1, local_id s), (2, host), (3, jid)] junk) (\<lambda>b.
     bindE (udp_send os (ips s) (local_id s) host b HEAD_BYTES UDP_CANCEL_JOB_SRV_PORT_NUMBER) (\<lambda>(n, ps).
       Inr ps))"

definition cancel_node ::
  "net_os \<Rightarrow> char list \<Rightarrow> int \<Rightarrow> server \<Rightarrow> int \<Rightarrow> packet list \<Rightarrow> packet list res" where
  "cancel_node os junk jid s node out =
     bindE (nthE (nodesstat s) node) (\<lambda>st.
       if st = jid then bindE (server_single_job_cancel os junk jid node s) (\<lambda>ps. Inr (out @ ps))
       else Inr out)"

text \<open>The case \<^verbatim>\<open>MSG_TYPE_JOB_CANCEL\<close>: the result is what was sent to the nodes.\<close>

definition monitor_cancel :: "net_os \<Rightarrow> char list \<Rightarrow> char list \<Rightarrow> server \<Rightarrow> packet list res" where
  "monitor_cancel os junk recv_buffer s =
     bindE (get_int recv_buffer 3) (\<lambda>jid.
       forE [1..num_hosts s] (cancel_node os junk jid s) [])"

section \<open>Submitting\<close>

text \<open>A C string at an offset that came out of a message.\<close>

definition cstr_at :: "char list \<Rightarrow> int \<Rightarrow> string res" where
  "cstr_at b off = (if 0 \<le> off \<and> off \<le> int (length b) then cstrE b (nat off) else Inl Out_Of_Bounds)"

text \<open>
  The case \<^verbatim>\<open>MSG_TYPE_JOB_SUBMIT\<close>. The test for a full queue only prints a warning. The user
  name is looked for behind the command, at a distance the message gives.
\<close>

definition monitor_submit ::
  "int \<Rightarrow> char list \<Rightarrow> int \<Rightarrow> char list \<Rightarrow> server \<Rightarrow> (server \<times> char list) res" where
  "monitor_submit now recv_buffer src send_buffer s =
     bindE (get_int recv_buffer 3) (\<lambda>comm_str_len.
     bindE (get_int recv_buffer 4) (\<lambda>nreq.
     bindE (get_int recv_buffer 5) (\<lambda>user_len.
     bindE (cstr_at recv_buffer (int HEAD_BYTES)) (\<lambda>comm_str.
     bindE (cstr_at recv_buffer (int HEAD_BYTES + comm_str_len)) (\<lambda>user.
     bindE (job_enqueue comm_str comm_str_len user user_len nreq now s) (\<lambda>(s', new_job_id).
     bindE (put_ints [(0, msg_code MSG_TYPE_JOB_SUBMIT), (1, local_id s), (2, src), (4, new_job_id)] send_buffer) (\<lambda>b.
       Inr (s', b))))))))"

section \<open>Queries\<close>

text \<open>The search through the job table: the first slot with the id.\<close>

fun job_stat_of :: "batch_job_info list \<Rightarrow> int \<Rightarrow> int" where
  "job_stat_of [] jid = JOB_STAT_UNKNOW"
| "job_stat_of (j # js) jid = (if jid = job_id j then job_stat j else job_stat_of js jid)"

definition query_one :: "int \<Rightarrow> int \<Rightarrow> int \<Rightarrow> char list \<Rightarrow> server \<Rightarrow> char list res" where
  "query_one type src jid send_buffer s =
     put_ints [(0, type), (1, local_id s), (2, src), (3, jid), (4, job_stat_of (jobq s) jid)] send_buffer"

definition query_all :: "int \<Rightarrow> int \<Rightarrow> int \<Rightarrow> char list \<Rightarrow> server \<Rightarrow> char list res" where
  "query_all type src jid send_buffer s =
     bindE (put_ints [(0, type), (1, local_id s), (2, src), (3, jid), (4, 0)] send_buffer) (\<lambda>b.
       put_ints (map (\<lambda>i. (MSG_HEAD_SIZE + i, job_stat (jobq s ! i))) [0..<MAX_JOB_QUEUE]) b)"

text \<open>Copying the whole table, one structure after the other, behind the header.\<close>

definition query_table :: "char list \<Rightarrow> server \<Rightarrow> char list res" where
  "query_table send_buffer s =
     forE [0..<MAX_JOB_QUEUE] (\<lambda>i b. storeE b (HEAD_BYTES + i * SIZEOF_JOB) (job_bytes (jobq s ! i))) send_buffer"

text \<open>The case \<^verbatim>\<open>MSG_TYPE_JOB_QUERY\<close>.\<close>

definition monitor_query :: "int \<Rightarrow> char list \<Rightarrow> int \<Rightarrow> char list \<Rightarrow> server \<Rightarrow> char list res" where
  "monitor_query type recv_buffer src send_buffer s =
     bindE (get_int recv_buffer 3) (\<lambda>jid.
     bindE (if jid \<ge> 0 then query_one type src jid send_buffer s else Inr send_buffer) (\<lambda>b.
     bindE (if jid = -1 then query_all type src jid b s else Inr b) (\<lambda>b.
       if jid = -2 then query_table b s else Inr b)))"

section \<open>The older datagram threads\<close>

text \<open>
  One pass of \<^verbatim>\<open>job_status_query\<close>. The table is sent with a header that nobody filled in. The
  three allocations are arguments; the datagram must not be empty.
\<close>

definition status_query_iter ::
  "net_os \<Rightarrow> char list option \<Rightarrow> char list \<Rightarrow> char list \<Rightarrow> char list \<Rightarrow> char list \<Rightarrow> server
     \<Rightarrow> (char list \<times> char list \<times> packet list) res" where
  "status_query_iter os dgram recv_buffer send_buffer junk_all junk_table s =
     bindE (udp_recv True True dgram recv_buffer HEAD_BYTES) (\<lambda>(n, rb).
     bindE (get_int rb 0) (\<lambda>type.
     bindE (get_int rb 1) (\<lambda>src.
     bindE (get_int rb 3) (\<lambda>jid.
       if jid \<ge> 0 then
         bindE (query_one type src jid send_buffer s) (\<lambda>b.
         bindE (udp_send os (ips s) (local_id s) src b HEAD_BYTES UDP_JOB_STAT_CLI_PORT_NUMBER) (\<lambda>(_, ps).
           Inr (rb, b, ps)))
       else if jid = -1 then
         bindE (query_all type src jid junk_all s) (\<lambda>b.
         bindE (udp_send os (ips s) (local_id s) src b (HEAD_BYTES + 4 * MAX_JOB_QUEUE)
                  UDP_JOB_STAT_CLI_PORT_NUMBER) (\<lambda>(_, ps). Inr (rb, send_buffer, ps)))
       else if jid = -2 then
         bindE (query_table junk_table s) (\<lambda>b.
         bindE (udp_send os (ips s) (local_id s) src b (HEAD_BYTES + SIZEOF_JOB * MAX_JOB_QUEUE)
                  UDP_JOB_STAT_CLI_PORT_NUMBER) (\<lambda>(_, ps). Inr (rb, send_buffer, ps)))
       else Inr (rb, send_buffer, [])))))"

text \<open>
  One pass of \<^verbatim>\<open>job_queue_push\<close>: unlike the monitor it waits while the queue is full. The
  submission is read as the monitor reads it; the reply has a header only.
\<close>

definition queue_push_iter ::
  "net_os \<Rightarrow> int \<Rightarrow> char list option \<Rightarrow> char list \<Rightarrow> char list \<Rightarrow> server
     \<Rightarrow> (server \<times> char list \<times> char list \<times> packet list) res" where
  "queue_push_iter os now dgram recv_buffer send_buffer s =
     (if ring_full s then Inr (s, recv_buffer, send_buffer, [])
      else bindE (udp_recv True True dgram recv_buffer MSG_BUFF_SIZE) (\<lambda>(n, rb).
           bindE (get_int rb 1) (\<lambda>src.
           bindE (monitor_submit now rb src send_buffer s) (\<lambda>(s', b).
           bindE (udp_send os (ips s) (local_id s) src b HEAD_BYTES UDP_JOB_QUE_CLI_PORT_NUMBER) (\<lambda>(_, ps).
             Inr (s', rb, b, ps))))))"

section \<open>One request\<close>

text \<open>
  The \<^verbatim>\<open>switch\<close>: \<open>junk\<close> is the allocation of \<^const>\<open>MSG_BUFF_SIZE\<close> bytes that becomes the reply,
  \<open>junk24\<close> those of the cancel messages.
\<close>

definition handle_request ::
  "net_os \<Rightarrow> int \<Rightarrow> char list \<Rightarrow> char list \<Rightarrow> char list \<Rightarrow> server \<Rightarrow> (server \<times> char list \<times> packet list) res" where
  "handle_request os now junk junk24 recv_buffer s =
     bindE (get_int recv_buffer 0) (\<lambda>type.
     bindE (get_int recv_buffer 1) (\<lambda>src.
       if type = msg_code MSG_TYPE_JOB_CANCEL then
         bindE (monitor_cancel os junk24 recv_buffer s) (\<lambda>ps. Inr (s, junk, ps))
       else if type = msg_code MSG_TYPE_JOB_SUBMIT then
         bindE (monitor_submit now recv_buffer src junk s) (\<lambda>(s', b). Inr (s', b, []))
       else if type = msg_code MSG_TYPE_JOB_QUERY then
         bindE (monitor_query type recv_buffer src junk s) (\<lambda>b. Inr (s, b, []))
       else Inr (s, junk, [])))"

section \<open>The loop\<close>

text \<open>
  What the thread keeps: the shared state, its transfer object, the map from sockets to what they
  wait for (the payload of an entry is the reply), the receive buffer; and as traces the
  datagrams and the replies it sent.
\<close>

record monitor =
  mo_srv :: server
  mo_et :: etransfer
  mo_map :: "(sockref \<times> char list upoll) list"
  mo_buf :: "char list"
  mo_out :: "packet list"
  mo_replies :: "(sockref \<times> char list) list"

text \<open>The answers of the system during one iteration.\<close>

record mon_os =
  ms_poll :: "poll_os \<times> poll_os \<times> poll_os"
  ms_util :: sock_util
  ms_recv :: "int \<Rightarrow> nat \<Rightarrow> recv_answer"
  ms_send :: "int \<Rightarrow> char list \<Rightarrow> send_answer"
  ms_net :: net_os
  ms_now :: int
  ms_junk :: "sockref \<Rightarrow> char list"

definition mo_destroy :: "sockref \<Rightarrow> monitor \<Rightarrow> monitor res" where
  "mo_destroy r m = bindE (destroy_socket r (mo_et m)) (\<lambda>et.
     Inr (m\<lparr>mo_et := et, mo_map := omap_erase r (mo_map m)\<rparr>))"

definition monitor_accept :: "monitor \<Rightarrow> monitor res" where
  "monitor_accept m = bindE (accept (m_tcp_listener (mo_et m)) (mo_et m)) (\<lambda>(et, sc).
     Inr (case sc of
            None \<Rightarrow> m\<lparr>mo_et := et\<rparr>
          | Some r \<Rightarrow> m\<lparr>mo_et := et,
              mo_map := omap_put r \<lparr>usock = Some r, events = UPOLL_READ_T, pointer = None\<rparr> (mo_map m)\<rparr>))"

definition monitor_write :: "mon_os \<Rightarrow> char list upoll \<Rightarrow> sockref \<Rightarrow> monitor \<Rightarrow> monitor res" where
  "monitor_write os up r m =
     (case pointer up of None \<Rightarrow> Inl Null_Deref | Some reply \<Rightarrow>
      bindE (deref (mo_et m) r) (\<lambda>u.
      bindE (tcp_send (ms_util os) (ms_send os) reply 0 MSG_BUFF_SIZE u) (\<lambda>(u', sent, n).
        mo_destroy r (m\<lparr>mo_et := set_sock r u' (mo_et m), mo_replies := mo_replies m @ [(r, sent)]\<rparr>))))"

definition monitor_read :: "mon_os \<Rightarrow> char list upoll \<Rightarrow> sockref \<Rightarrow> monitor \<Rightarrow> monitor res" where
  "monitor_read os up r m =
     bindE (deref (mo_et m) r) (\<lambda>u.
     bindE (tcp_recv (ms_util os) (ms_recv os) (mo_buf m) 0 MSG_BUFF_SIZE u) (\<lambda>(u', buf, recv_size).
       let m = m\<lparr>mo_et := set_sock r u' (mo_et m), mo_buf := buf\<rparr> in
       if recv_size > int MSG_BUFF_SIZE then mo_destroy r m
       else if recv_size < 0 \<and> m_reason u' \<noteq> EWOULDBLOCK then mo_destroy r m
       else if has_event (events up) UPOLL_ERROR_T then mo_destroy r m
       else if recv_size > 0 then
         bindE (handle_request (ms_net os) (ms_now os) (ms_junk os r) (take HEAD_BYTES (ms_junk os r)) buf (mo_srv m))
           (\<lambda>(s', reply, ps).
             Inr (m\<lparr>mo_srv := s', mo_out := mo_out m @ ps,
                    mo_map := omap_put r \<lparr>usock = Some r, events = UPOLL_WRITE_T, pointer = Some reply\<rparr> (mo_map m)\<rparr>))
       else Inr m))"

text \<open>One entry that \<^verbatim>\<open>select\<close> reported.\<close>

definition monitor_event :: "mon_os \<Rightarrow> char list upoll \<Rightarrow> monitor \<Rightarrow> monitor res" where
  "monitor_event os up m =
     (case usock up of None \<Rightarrow> Inl Null_Deref | Some r \<Rightarrow>
      if Some r = m_tcp_listener (mo_et m) then
        (if has_event (events up) UPOLL_READ_T then monitor_accept m else Inr m)
      else if has_event (events up) UPOLL_WRITE_T then monitor_write os up r m
      else if has_event (events up) UPOLL_READ_T then monitor_read os up r m
      else Inr m)"

definition monitor_iter :: "mon_os \<Rightarrow> monitor \<Rightarrow> monitor res" where
  "monitor_iter os m =
     (let src = map snd (mo_map m) @ [\<lparr>usock = m_tcp_listener (mo_et m), events = UPOLL_READ_T, pointer = None\<rparr>]
      in case ms_poll os of (p0, p1, p2) \<Rightarrow>
         bindE (select p0 p1 p2 src (mo_et m)) (\<lambda>(et, dst, n).
           if n > 0 then forE dst (monitor_event os) (m\<lparr>mo_et := et\<rparr>) else Inr (m\<lparr>mo_et := et\<rparr>)))"

text \<open>The beginning of the thread: \<open>stack\<close> is the uninitialised receive buffer.\<close>

definition monitor_start :: "init_os \<Rightarrow> int \<Rightarrow> char list \<Rightarrow> server \<Rightarrow> monitor" where
  "monitor_start os junk stack s =
     \<lparr>mo_srv = s, mo_et = fst (init_tcp os UDP_JOB_MONITOR_SRV_PORT_NUMBER (new_eTransfer junk)),
      mo_map = [], mo_buf = stack, mo_out = [], mo_replies = []\<rparr>"

text \<open>Between two iterations other threads change the shared state.\<close>

fun monitor_run :: "(mon_os \<times> server) list \<Rightarrow> monitor \<Rightarrow> monitor res" where
  "monitor_run [] m = Inr m"
| "monitor_run ((os, s) # rest) m = bindE (monitor_iter os (m\<lparr>mo_srv := s\<rparr>)) (monitor_run rest)"

section \<open>The loop as it stands\<close>

text \<open>
  Connections enter the accept list only in \<^verbatim>\<open>walk_through\<close>, which this loop never calls. The
  state it stays in: nothing accepted, nothing to poll but the listener.
\<close>

definition deaf :: "char list \<Rightarrow> monitor \<Rightarrow> bool" where
  "deaf stack m \<longleftrightarrow> mo_map m = [] \<and> mo_buf m = stack \<and> mo_out m = [] \<and> mo_replies m = []
     \<and> m_tcp_accept_list (mo_et m) = []
     \<and> (\<exists>l u. m_tcp_listener (mo_et m) = Some l \<and> heap (mo_et m) l = Some u \<and> m_sock u = -1 \<and> m_status u = SOCK_CLOSED)"

lemma deaf_iter:
  assumes "deaf stack m"
  shows "\<exists>m'. monitor_iter os m = Inr m' \<and> deaf stack m' \<and> mo_srv m' = mo_srv m"
proof -
  from assms obtain l u where l: "m_tcp_listener (mo_et m) = Some l" "heap (mo_et m) l = Some u" "m_sock u = -1"
    "m_status u = SOCK_CLOSED" and empty: "mo_map m = []" "m_tcp_accept_list (mo_et m) = []"
    by (auto simp: deaf_def)
  obtain p0 p1 p2 where p: "ms_poll os = (p0, p1, p2)" by (cases "ms_poll os")
  let ?src = "[\<lparr>usock = Some l, events = UPOLL_READ_T, pointer = None\<rparr>] :: char list upoll list"
  from select_idle [OF l(1-4) empty(2)] obtain et' dst n where
    s: "select p0 p1 p2 ?src (mo_et m) = Inr (et', dst, n)" and n: "\<not> n > 0" by (meson linorder_not_less)
  note sound = select_reports [OF s]
  have "l \<in> dom (heap et')" using sound l(2) by auto
  have "\<exists>u'. heap et' l = Some u' \<and> m_sock u' = -1 \<and> m_status u' = SOCK_CLOSED"
  proof -
    from s have "et' = mo_et m \<or> forE ?src set_interest (mo_et m) = Inr et'"
      by (auto simp: select_def elim!: bindE_InrE split: if_splits)
    then show ?thesis using interest_status(9) [of ?src "mo_et m" et' l] \<open>l \<in> dom (heap et')\<close> l by auto
  qed
  with assms s n sound l empty p show ?thesis by (simp add: monitor_iter_def deaf_def)
qed

text \<open>
  C3. The job monitor accepts nobody. When its port could be opened, every run of its loop, with
  any readiness of the sockets and any changes of the shared state by other threads, ends without
  a fault, but with an empty client map, an untouched receive buffer, no reply, no datagram and the
  shared state as the other threads left it: no submission, cancellation or query is ever read.
\<close>

theorem monitor_never_serves:
  assumes "0 \<le> io_socket ios" and "bind_tries ios 5 UDP_JOB_MONITOR_SRV_PORT_NUMBER = Some p"
  shows "\<exists>m. monitor_run script (monitor_start ios junk stack s) = Inr m
    \<and> mo_map m = [] \<and> mo_buf m = stack \<and> mo_out m = [] \<and> mo_replies m = []
    \<and> mo_srv m = last (s # map snd script)"
proof -
  have "deaf stack (monitor_start ios junk stack s)"
    using assms by (simp add: deaf_def monitor_start_def init_tcp_def new_eTransfer_def alloc_def set_sock_def
        new_UTcpSocket_def Let_def)
  moreover have "mo_srv (monitor_start ios junk stack s) = s" by (simp add: monitor_start_def)
  moreover have "\<exists>m'. monitor_run script m = Inr m' \<and> deaf stack m' \<and> mo_srv m' = last (mo_srv m # map snd script)"
    if "deaf stack m" for m
    using that
  proof (induction script arbitrary: m)
    case Nil
    then show ?case by simp
  next
    case (Cons x script)
    obtain os s' where x: "x = (os, s')" by (cases x)
    have "deaf stack (m\<lparr>mo_srv := s'\<rparr>)" using Cons.prems by (simp add: deaf_def)
    from deaf_iter [OF this, of os] obtain m1 where
      m1: "monitor_iter os (m\<lparr>mo_srv := s'\<rparr>) = Inr m1" "deaf stack m1" "mo_srv m1 = s'" by auto
    from Cons.IH [OF m1(2)] m1 x show ?case by auto
  qed
  ultimately show ?thesis unfolding deaf_def by metis
qed

definition example_mon_os :: mon_os where
  "example_mon_os = \<lparr>ms_poll = (all_ready, all_ready, all_ready),
     ms_util = \<lparr>ut_recv_cap = (\<lambda>n. n), ut_send_cap = (\<lambda>n. n)\<rparr>,
     ms_recv = (\<lambda>_ _. Received ''hi''), ms_send = (\<lambda>_ b. Sent (length b)),
     ms_net = \<lparr>os_resolve = (\<lambda>n. Some n), os_sendto = (\<lambda>p. int (length (pk_data p)))\<rparr>,
     ms_now = 0, ms_junk = (\<lambda>_. replicate 2000 NUL)\<rparr>"

lemma monitor_never_serves_witness:
  "bind_tries example_init 5 UDP_JOB_MONITOR_SRV_PORT_NUMBER = Some 4060
   \<and> (\<exists>m. monitor_run [(example_mon_os, zero_server)] (monitor_start example_init 0 [] zero_server) = Inr m
        \<and> mo_replies m = [])"
proof -
  have b: "bind_tries example_init 5 UDP_JOB_MONITOR_SRV_PORT_NUMBER = Some 4060"
    using bind_tries.simps(2) [of example_init 4 4060] by (simp add: example_init_def port_defs)
  moreover have "0 \<le> io_socket example_init" by (simp add: example_init_def)
  ultimately show ?thesis using monitor_never_serves [OF _ b, of "[(example_mon_os, zero_server)]" 0 "[]" zero_server] by auto
qed

lemma null_listener_iter:
  "m_tcp_listener (mo_et m) = None \<Longrightarrow> mo_map m = [] \<Longrightarrow> monitor_iter os m = Inl Null_Deref"
  by (cases "ms_poll os") (simp add: monitor_iter_def select_def has_available_sockets_def ready_entry_def)

lemma null_listener_faults:
  assumes "io_socket ios < 0 \<or> bind_tries ios 5 UDP_JOB_MONITOR_SRV_PORT_NUMBER = None"
  shows "monitor_run ((os, s') # script) (monitor_start ios junk stack s) = Inl Null_Deref"
proof -
  have "m_tcp_listener (mo_et (monitor_start ios junk stack s)) = None"
    "mo_map (monitor_start ios junk stack s) = []"
    using assms by (auto simp: monitor_start_def init_tcp_def new_eTransfer_def Let_def)
  then show ?thesis by (simp add: null_listener_iter)
qed

lemma monitor_start_state:
  "deaf stack (monitor_start ios junk stack s)
   \<or> m_tcp_listener (mo_et (monitor_start ios junk stack s)) = None \<and> mo_map (monitor_start ios junk stack s) = []
     \<and> mo_replies (monitor_start ios junk stack s) = []"
  by (cases "io_socket ios < 0"; cases "bind_tries ios 5 UDP_JOB_MONITOR_SRV_PORT_NUMBER")
    (simp_all add: deaf_def monitor_start_def init_tcp_def new_eTransfer_def alloc_def set_sock_def new_UTcpSocket_def Let_def)

text \<open>
  When no port could be opened the result of \<^verbatim>\<open>init_tcp\<close> is ignored: the listener is a null
  pointer in the poll list and the first iteration follows it.
\<close>

lemma monitor_null_listener:
  assumes "io_socket ios < 0 \<or> bind_tries ios 5 UDP_JOB_MONITOR_SRV_PORT_NUMBER = None"
  shows "monitor_run ((os, s') # script) (monitor_start ios junk stack s) = Inl Null_Deref"
  using assms by (rule null_listener_faults)

lemma monitor_null_listener_witness:
  "monitor_run [(example_mon_os, zero_server)]
     (monitor_start (example_init\<lparr>io_socket := -1\<rparr>) 0 [] zero_server) = Inl Null_Deref"
  by (rule monitor_null_listener) simp

section \<open>What the handlers do\<close>

text \<open>A submission as the client builds it.\<close>

definition submit_message :: "int \<Rightarrow> int \<Rightarrow> string \<Rightarrow> string \<Rightarrow> int \<Rightarrow> char list" where
  "submit_message src dst comm user nreq =
     header (msg_code MSG_TYPE_JOB_SUBMIT) src dst (int (length comm) + 1) nreq (int (length user) + 1)
       @ comm @ NUL # user @ [NUL]"

lemma cstr_at_append: "no_nul s \<Longrightarrow> cstr_at (p @ s @ NUL # r) (int (length p)) = Inr s"
  using cstrE_append [of s p r] by (simp add: cstr_at_def)

lemma reply_header:
  assumes "length junk = 2000" and "distinct (map fst ws)" and "\<forall>w \<in> set ws. fst w < 500 \<and> is_int32 (snd w)"
  shows "\<exists>b. put_ints ws junk = Inr b \<and> length b = 2000 \<and> (\<forall>w \<in> set ws. get_int b (fst w) = Inr (snd w))"
proof -
  have c: "\<forall>w \<in> set ws. 4 * fst w + 4 \<le> length junk" using assms(1,3) by auto
  from put_ints_defined [OF c] obtain b where b: "put_ints ws junk = Inr b" "length b = length junk" by blast
  have "get_int b (fst w) = Inr (snd w)" if "w \<in> set ws" for w
    using put_ints_get [OF b(1) _ assms(2) c, of "fst w" "snd w"] that assms(3) by simp
  with b assms(1) show ?thesis by auto
qed

text \<open>A submission served, with the state it leaves.\<close>

lemma submission_state:
  assumes ok: "server_ok s" and comm: "printable 256 comm" and user: "printable 32 user"
    and ints: "is_int32 nreq" "is_int32 src" "is_int32 (local_id s)" and junk: "length junk = MSG_BUFF_SIZE"
  shows "\<exists>j reply. handle_request os now junk j24 (submit_message src dst comm user nreq @ rest) s
      = Inr (s\<lparr>jobq := (jobq s)[job_head s := j], job_head := (job_head s + 1) mod MAX_JOB_QUEUE\<rparr>, reply, [])
    \<and> job_ok j \<and> job_request j = (comm, nreq) \<and> job_id j = int (job_head s) \<and> job_stat j = JOB_STAT_INQUEUE
    \<and> length reply = MSG_BUFF_SIZE \<and> get_int reply 0 = Inr (msg_code MSG_TYPE_JOB_SUBMIT)
    \<and> get_int reply 2 = Inr src \<and> get_int reply 4 = Inr (int (job_head s))"
proof -
  let ?cl = "int (length comm) + 1" and ?ul = "int (length user) + 1"
  let ?m = "submit_message src dst comm user nreq @ rest"
  have m: "?m = header (msg_code MSG_TYPE_JOB_SUBMIT) src dst ?cl nreq ?ul @ comm @ NUL # user @ NUL # rest"
    by (simp add: submit_message_def)
  have cl: "is_int32 ?cl" "is_int32 ?ul" using comm user by (simp_all add: printable_def is_int32_def)
  have hd: "get_int ?m 0 = Inr 4" "get_int ?m 1 = Inr src" "get_int ?m 3 = Inr ?cl" "get_int ?m 4 = Inr nreq"
    "get_int ?m 5 = Inr ?ul"
    unfolding m get_header using ints cl by (simp_all add: is_int32_def)
  have nn: "no_nul comm" "no_nul user" using comm user by (simp_all add: printable_def)
  have c: "cstr_at ?m 24 = Inr comm"
    using cstr_at_append [OF nn(1), of "header (msg_code MSG_TYPE_JOB_SUBMIT) src dst ?cl nreq ?ul"] by (simp add: m)
  have u: "cstr_at ?m (24 + ?cl) = Inr user"
    using cstr_at_append [OF nn(2), of "header (msg_code MSG_TYPE_JOB_SUBMIT) src dst ?cl nreq ?ul @ comm @ [NUL]" rest]
    by (simp add: m add.assoc)
  from job_enqueue_printable [OF ok comm user] obtain j where j:
    "job_enqueue comm ?cl user ?ul nreq now s = Inr (s\<lparr>jobq := (jobq s)[job_head s := j],
        job_head := (job_head s + 1) mod MAX_JOB_QUEUE\<rparr>, int (job_head s))"
    "job_ok j" "job_request j = (comm, nreq)" "job_id j = int (job_head s)" "job_stat j = JOB_STAT_INQUEUE" by blast
  let ?ws = "[(0::nat, 4), (1, local_id s), (2, src), (4, int (job_head s))]"
  have "is_int32 (int (job_head s))" using server_okD(8) [OF ok] by (simp add: is_int32_def)
  then obtain b where b: "put_ints ?ws junk = Inr b" "length b = 2000" "\<forall>w \<in> set ?ws. get_int b (fst w) = Inr (snd w)"
    using reply_header [of junk ?ws] junk ints by (auto simp: is_int32_def)
  let ?s' = "s\<lparr>jobq := (jobq s)[job_head s := j], job_head := (job_head s + 1) mod MAX_JOB_QUEUE\<rparr>"
  have "handle_request os now junk j24 ?m s = Inr (?s', b, [])"
    using hd c u j(1) b(1) by (simp add: handle_request_def monitor_submit_def)
  then show ?thesis using j(2-5) b(2,3) by auto
qed

lemma submission_served:
  assumes ok: "server_ok s" and room: "\<not> ring_full s" and comm: "printable 256 comm" and user: "printable 32 user"
    and ints: "is_int32 nreq" "is_int32 src" "is_int32 (local_id s)" and junk: "length junk = MSG_BUFF_SIZE"
  shows "\<exists>s' reply. handle_request os now junk j24 (submit_message src dst comm user nreq @ rest) s = Inr (s', reply, [])
    \<and> server_ok s' \<and> pending s' = pending s @ [(comm, nreq)]
    \<and> length reply = MSG_BUFF_SIZE \<and> get_int reply 0 = Inr (msg_code MSG_TYPE_JOB_SUBMIT)
    \<and> get_int reply 2 = Inr src \<and> get_int reply 4 = Inr (int (job_head s))
    \<and> job_id (jobq s' ! job_head s) = int (job_head s) \<and> job_stat (jobq s' ! job_head s) = JOB_STAT_INQUEUE"
proof -
  from submission_state [OF ok comm user ints junk, of os now j24 dst rest] obtain j reply where
    r: "handle_request os now junk j24 (submit_message src dst comm user nreq @ rest) s
      = Inr (s\<lparr>jobq := (jobq s)[job_head s := j], job_head := (job_head s + 1) mod MAX_JOB_QUEUE\<rparr>, reply, [])"
    "job_ok j" "job_request j = (comm, nreq)" "job_id j = int (job_head s)" "job_stat j = JOB_STAT_INQUEUE"
    "length reply = MSG_BUFF_SIZE" "get_int reply 0 = Inr (msg_code MSG_TYPE_JOB_SUBMIT)"
    "get_int reply 2 = Inr src" "get_int reply 4 = Inr (int (job_head s))" by blast
  moreover have "jobq (s\<lparr>jobq := (jobq s)[job_head s := j], job_head := (job_head s + 1) mod MAX_JOB_QUEUE\<rparr>) ! job_head s = j"
    using server_okD(1,8) [OF ok] by simp
  ultimately show ?thesis
    using server_ok_push [OF ok r(2)] pending_push [OF ok room, of j] by auto
qed

text \<open>
  Were a submission to reach the handler, it would be served: a message as the client builds
  it, with a printable command and user name, into a queue with room, appends exactly that request
  to the waiting jobs, keeps the state well formed, sends nothing to the nodes, and the reply
  carries the new job's id, the slot it was put in.
\<close>

lemma submit_request_served:
  assumes ok: "server_ok s" and room: "\<not> ring_full s" and comm: "printable 256 comm" and user: "printable 32 user"
    and ints: "is_int32 nreq" "is_int32 src" "is_int32 (local_id s)" and junk: "length junk = MSG_BUFF_SIZE"
  shows "\<exists>s' reply. handle_request os now junk j24 (submit_message src dst comm user nreq @ rest) s = Inr (s', reply, [])
    \<and> server_ok s' \<and> pending s' = pending s @ [(comm, nreq)]
    \<and> length reply = MSG_BUFF_SIZE \<and> get_int reply 0 = Inr (msg_code MSG_TYPE_JOB_SUBMIT)
    \<and> get_int reply 2 = Inr src \<and> get_int reply 4 = Inr (int (job_head s))
    \<and> job_id (jobq s' ! job_head s) = int (job_head s) \<and> job_stat (jobq s' ! job_head s) = JOB_STAT_INQUEUE"
  using assms by (rule submission_served)

lemma submit_request_served_witness:
  "\<exists>s' reply. handle_request (ms_net example_mon_os) 7 (replicate 2000 NUL) [] (submit_message 1 1 ''date'' ''bob'' 2) zero_server
      = Inr (s', reply, []) \<and> pending s' = [(''date'', 2)] \<and> get_int reply 4 = Inr 0"
proof -
  have p: "printable 256 ''date''" "printable 32 ''bob''"
    by (simp_all add: printable_def plain_def no_nul_def NUL_def)
  have f: "\<not> ring_full zero_server" by (simp add: ring_full_def zero_server_def)
  have i: "is_int32 2" "is_int32 1" "is_int32 (local_id zero_server)" "length (replicate 2000 NUL) = MSG_BUFF_SIZE"
    by (simp_all add: is_int32_def zero_server_def)
  have z: "pending zero_server = []" "job_head zero_server = 0"
    by (simp_all add: pending_def ring_slots_def ring_len_def zero_server_def)
  from submit_request_served [OF server_ok_zero f p i, of "ms_net example_mon_os" 7 "[]" 1 "[]"] z
  show ?thesis by auto
qed

lemma job_stat_of_first:
  "job_stat_of js jid = (case find (\<lambda>j. job_id j = jid) js of None \<Rightarrow> JOB_STAT_UNKNOW | Some j \<Rightarrow> job_stat j)"
  by (induction js) auto

lemma is_int32_job_stat_of:
  "\<forall>j \<in> set js. is_int32 (job_stat j) \<Longrightarrow> is_int32 (job_stat_of js jid)"
  by (induction js) (auto simp: is_int32_def job_stat_defs)

text \<open>A query as the client builds it; the last two words of the header are what its allocation held.\<close>

definition query_message :: "int \<Rightarrow> int \<Rightarrow> int \<Rightarrow> int \<Rightarrow> int \<Rightarrow> char list" where
  "query_message src dst jid j1 j2 = header (msg_code MSG_TYPE_JOB_QUERY) src dst jid j1 j2"

lemma handle_query:
  assumes "is_int32 src" and "is_int32 jid"
  shows "handle_request os now junk j24 (query_message src dst jid j1 j2 @ rest) s
    = bindE (monitor_query 7 (query_message src dst jid j1 j2 @ rest) src junk s) (\<lambda>b. Inr (s, b, []))"
    and "get_int (query_message src dst jid j1 j2 @ rest) 3 = Inr jid"
  using assms
  by (simp_all add: query_message_def get_header get_header(2) [unfolded One_nat_def] handle_request_def is_int32_def)

lemma query_answered:
  assumes "0 \<le> jid" and ints: "is_int32 src" "is_int32 jid" "is_int32 (local_id s)"
    and stats: "\<forall>j \<in> set (jobq s). is_int32 (job_stat j)" and junk: "length junk = MSG_BUFF_SIZE"
  shows "\<exists>reply. handle_request os now junk j24 (query_message src dst jid j1 j2 @ rest) s = Inr (s, reply, [])
    \<and> length reply = MSG_BUFF_SIZE \<and> get_int reply 0 = Inr (msg_code MSG_TYPE_JOB_QUERY)
    \<and> get_int reply 2 = Inr src \<and> get_int reply 3 = Inr jid
    \<and> get_int reply 4 = Inr (case find (\<lambda>j. job_id j = jid) (jobq s) of
          None \<Rightarrow> JOB_STAT_UNKNOW | Some j \<Rightarrow> job_stat j)"
proof -
  let ?ws = "[(0::nat, 7), (1, local_id s), (2, src), (3, jid), (4, job_stat_of (jobq s) jid)]"
  obtain b where b: "put_ints ?ws junk = Inr b" "length b = 2000" "\<forall>w \<in> set ?ws. get_int b (fst w) = Inr (snd w)"
    using reply_header [of junk ?ws] junk ints is_int32_job_stat_of [OF stats] by (auto simp: is_int32_def)
  then have "handle_request os now junk j24 (query_message src dst jid j1 j2 @ rest) s = Inr (s, b, [])"
    using assms(1) handle_query [OF ints(1,2)] by (simp add: monitor_query_def query_one_def)
  with b show ?thesis by (auto simp: job_stat_of_first)
qed

text \<open>
  A query for one job is answered with the status in the first slot that holds its id, and
  with "unknown" when no slot does; the shared state does not change.
\<close>

lemma query_one_answer:
  assumes "0 \<le> jid" and ints: "is_int32 src" "is_int32 jid" "is_int32 (local_id s)"
    and stats: "\<forall>j \<in> set (jobq s). is_int32 (job_stat j)" and junk: "length junk = MSG_BUFF_SIZE"
  shows "\<exists>reply. handle_request os now junk j24 (query_message src dst jid j1 j2 @ rest) s = Inr (s, reply, [])
    \<and> length reply = MSG_BUFF_SIZE \<and> get_int reply 0 = Inr (msg_code MSG_TYPE_JOB_QUERY)
    \<and> get_int reply 2 = Inr src \<and> get_int reply 3 = Inr jid
    \<and> get_int reply 4 = Inr (case find (\<lambda>j. job_id j = jid) (jobq s) of
          None \<Rightarrow> JOB_STAT_UNKNOW | Some j \<Rightarrow> job_stat j)"
  using assms by (rule query_answered)

lemma query_one_answer_witness:
  "\<exists>reply. handle_request (ms_net example_mon_os) 0 (replicate 2000 NUL) [] (query_message 1 1 5 0 0 @ []) zero_server
     = Inr (zero_server, reply, []) \<and> get_int reply 4 = Inr JOB_STAT_UNKNOW"
proof -
  have i: "0 \<le> (5::int)" "is_int32 1" "is_int32 5" "is_int32 (local_id zero_server)"
    "\<forall>j \<in> set (jobq zero_server). is_int32 (job_stat j)" "length (replicate 2000 NUL) = MSG_BUFF_SIZE"
    by (auto simp: is_int32_def zero_server_def zero_job_def)
  have f: "find (\<lambda>j. job_id j = 5) (jobq zero_server) = None"
    by (auto simp: find_None_iff zero_server_def zero_job_def)
  from query_one_answer [OF i, of "ms_net example_mon_os" 0 "[]" 1 0 0 "[]"] f show ?thesis by auto
qed

lemma all_answered:
  assumes ok: "server_ok s" and ints: "is_int32 src" "is_int32 (local_id s)"
    and stats: "\<forall>j \<in> set (jobq s). is_int32 (job_stat j)" and junk: "length junk = MSG_BUFF_SIZE"
  shows "\<exists>reply. handle_request os now junk j24 (query_message src dst (-1) j1 j2 @ rest) s = Inr (s, reply, [])
    \<and> length reply = MSG_BUFF_SIZE \<and> get_int reply 3 = Inr (-1)
    \<and> (\<forall>i < MAX_JOB_QUEUE. get_int reply (MSG_HEAD_SIZE + i) = Inr (job_stat (jobq s ! i)))"
proof -
  let ?ws = "[(0::nat, 7), (1, local_id s), (2, src), (3, -1), (4, 0)]"
  let ?js = "map (\<lambda>i. (6 + i, job_stat (jobq s ! i))) [0..<32]"
  obtain b where b: "put_ints ?ws junk = Inr b" "length b = 2000" "\<forall>w \<in> set ?ws. get_int b (fst w) = Inr (snd w)"
    using reply_header [of junk ?ws] junk ints by (auto simp: is_int32_def)
  have d: "distinct (map fst ?js)" by (simp add: comp_def distinct_map inj_on_def)
  have st: "\<forall>w \<in> set ?js. fst w < 500 \<and> is_int32 (snd w)" using stats server_okD(1) [OF ok] by auto
  from reply_header [OF b(2) d st] obtain c where
    c: "put_ints ?js b = Inr c" "length c = 2000" "\<forall>w \<in> set ?js. get_int c (fst w) = Inr (snd w)" by blast
  have "get_int c 3 = get_int b 3" using b(2) by (intro put_ints_other [OF c(1)]) auto
  then have 3: "get_int c 3 = Inr (-1)" using b(3) by simp
  have i: "is_int32 (-1)" by (simp add: is_int32_def)
  have "handle_request os now junk j24 (query_message src dst (-1) j1 j2 @ rest) s = Inr (s, c, [])"
    using handle_query [OF ints(1) i] b(1) c(1) by (simp add: monitor_query_def query_all_def)
  with c 3 show ?thesis by (auto simp del: upt_Suc)
qed

text \<open>
  The query for all jobs is answered with the status of every slot, in slot order, behind the
  header.
\<close>

lemma query_all_answer:
  assumes ok: "server_ok s" and ints: "is_int32 src" "is_int32 (local_id s)"
    and stats: "\<forall>j \<in> set (jobq s). is_int32 (job_stat j)" and junk: "length junk = MSG_BUFF_SIZE"
  shows "\<exists>reply. handle_request os now junk j24 (query_message src dst (-1) j1 j2 @ rest) s = Inr (s, reply, [])
    \<and> length reply = MSG_BUFF_SIZE \<and> get_int reply 3 = Inr (-1)
    \<and> (\<forall>i < MAX_JOB_QUEUE. get_int reply (MSG_HEAD_SIZE + i) = Inr (job_stat (jobq s ! i)))"
  using assms by (rule all_answered)

lemma query_all_answer_witness:
  "\<exists>reply. handle_request (ms_net example_mon_os) 0 (replicate 2000 NUL) [] (query_message 1 1 (-1) 0 0 @ []) zero_server
     = Inr (zero_server, reply, []) \<and> get_int reply (MSG_HEAD_SIZE + 31) = Inr 0"
proof -
  have i: "is_int32 1" "is_int32 (local_id zero_server)"
    "\<forall>j \<in> set (jobq zero_server). is_int32 (job_stat j)" "length (replicate 2000 NUL) = MSG_BUFF_SIZE"
    by (auto simp: is_int32_def zero_server_def zero_job_def)
  have z: "job_stat (jobq zero_server ! 31) = 0" by (simp add: zero_server_def zero_job_def)
  from query_all_answer [OF server_ok_zero i, of "ms_net example_mon_os" 0 "[]" 1 0 0 "[]"] obtain reply where
    "handle_request (ms_net example_mon_os) 0 (replicate 2000 NUL) [] (query_message 1 1 (-1) 0 0 @ []) zero_server
      = Inr (zero_server, reply, [])"
    "\<forall>i < MAX_JOB_QUEUE. get_int reply (MSG_HEAD_SIZE + i) = Inr (job_stat (jobq zero_server ! i))" by blast
  moreover from this(2) have "get_int reply (MSG_HEAD_SIZE + 31) = Inr 0" using z by (simp del: msg_sizes)
  ultimately show ?thesis by blast
qed

text \<open>
  C19. The query for the whole table cannot be answered: the reply has \<^const>\<open>MSG_BUFF_SIZE\<close> bytes
  and the table needs 24 + 32 * 344, so the copy leaves the allocation at the sixth job.
\<close>

theorem query_table_overflows:
  assumes ok: "server_ok s" and ints: "is_int32 src" and junk: "length junk = MSG_BUFF_SIZE"
  shows "handle_request os now junk j24 (query_message src dst (-2) j1 j2 @ rest) s = Inl Buffer_Overflow"
proof -
  have len: "length (job_bytes (jobq s ! i)) = 344" if "i < 32" for i
    using length_job_bytes [OF server_ok_job [OF ok that]] by (simp add: SIZEOF_JOB_def)
  let ?f = "\<lambda>i b. storeE b (24 + i * 344) (job_bytes (jobq s ! i))"
  have "\<exists>b'. forE [0..<5] ?f junk = Inr b' \<and> length b' = 2000"
    by (rule forE_invariant) (use junk len in \<open>auto simp: storeE_def\<close>)
  then obtain b where b: "forE [0..<5] ?f junk = Inr b" "length b = 2000" by blast
  have "?f 5 b = Inl Buffer_Overflow" using b(2) len [of 5] by (simp add: storeE_def)
  then have "forE (5 # [6..<32]) ?f b = Inl Buffer_Overflow" by simp
  moreover have "[0..<32] = [0..<5] @ 5 # [6..<(32 :: nat)]"
    using upt_add_eq_append [of 0 5 27] upt_conv_Cons [of 5 32] by simp
  ultimately have "forE [0..<32] ?f junk = Inl Buffer_Overflow" using b(1) by (simp only: forE_append bindE_simps)
  moreover have "is_int32 (-2)" by (simp add: is_int32_def)
  ultimately show ?thesis using handle_query [OF ints, of "-2"]
    by (simp add: monitor_query_def query_table_def SIZEOF_JOB_def)
qed

lemma query_table_overflows_witness:
  "handle_request (ms_net example_mon_os) 0 (replicate 2000 NUL) [] (query_message 1 1 (-2) 0 0 @ []) zero_server
     = Inl Buffer_Overflow"
  by (rule query_table_overflows [OF server_ok_zero]) (simp_all add: is_int32_def)

text \<open>A cancellation as the client builds it: the header and whatever its stack buffer held.\<close>

definition cancel_message :: "int \<Rightarrow> int \<Rightarrow> int \<Rightarrow> int \<Rightarrow> int \<Rightarrow> char list \<Rightarrow> char list" where
  "cancel_message src dst jid j1 j2 rest = header (msg_code MSG_TYPE_JOB_CANCEL) src dst jid j1 j2 @ rest"

lemma handle_cancel:
  assumes "is_int32 src" and "is_int32 jid"
  shows "handle_request os now junk j24 (cancel_message src dst jid j1 j2 rest) s
    = bindE (forE [1..num_hosts s] (cancel_node os j24 jid s) []) (\<lambda>ps. Inr (s, junk, ps))"
  using assms
  by (simp add: cancel_message_def get_header get_header(2) [unfolded One_nat_def] handle_request_def
      monitor_cancel_def is_int32_def)

text \<open>The message one node gets, and when it can be sent.\<close>

definition cancel_packet :: "string \<Rightarrow> int \<Rightarrow> packet \<Rightarrow> bool" where
  "cancel_packet addr jid p \<longleftrightarrow> pk_transport p = Udp \<and> pk_addr p = addr
     \<and> pk_port p = UDP_CANCEL_JOB_SRV_PORT_NUMBER \<and> length (pk_data p) = HEAD_BYTES
     \<and> get_int (pk_data p) 0 = Inr (msg_code MSG_TYPE_JOB_CANCEL) \<and> get_int (pk_data p) 3 = Inr jid"

definition node_addr :: "net_os \<Rightarrow> server \<Rightarrow> int \<Rightarrow> string \<Rightarrow> bool" where
  "node_addr os s k addr \<longleftrightarrow> (\<exists>name. ptr_cstr (ips s) k = Inr name \<and> os_resolve os name = Some addr)"

lemma server_single_job_cancel_ok:
  assumes "node_addr os s host addr" and "\<forall>p. os_sendto os p \<noteq> -1" and "length junk = HEAD_BYTES"
    and "is_int32 jid" and "is_int32 host" and "is_int32 (local_id s)"
  shows "\<exists>p. server_single_job_cancel os junk jid host s = Inr [p] \<and> cancel_packet addr jid p"
proof -
  let ?ws = "[(0::nat, 5), (1, local_id s), (2, host), (3, jid)]"
  have c: "\<forall>w \<in> set ?ws. 4 * fst w + 4 \<le> length junk" using assms(3) by simp
  from put_ints_defined [OF c] obtain b where b: "put_ints ?ws junk = Inr b" "length b = 24" using assms(3) by auto
  have d: "distinct (map fst ?ws)" by simp
  have g: "get_int b 0 = Inr 5" "get_int b 3 = Inr jid"
    by (rule put_ints_get [OF b(1) _ d c]; use assms(4) in \<open>simp add: is_int32_def\<close>)+
  from assms(1) obtain name where n: "ptr_cstr (ips s) host = Inr name" "os_resolve os name = Some addr"
    by (auto simp: node_addr_def)
  let ?p = "\<lparr>pk_transport = Udp, pk_addr = addr, pk_port = UDP_CANCEL_JOB_SRV_PORT_NUMBER, pk_data = b\<rparr>"
  have "server_single_job_cancel os junk jid host s = Inr [?p]"
    using b n assms(2) by (simp add: server_single_job_cancel_def udp_send_def loadE_def Let_def)
  with b(2) g show ?thesis by (simp add: cancel_packet_def)
qed

text \<open>
  A cancellation is passed on to exactly the nodes that \<^verbatim>\<open>nodesstat\<close> assigns to the job, one
  datagram each, in the order of their numbers, when there are at most four hosts and the nodes'
  addresses resolve. The job table is left alone, and the reply is the allocation as
  \<^verbatim>\<open>malloc\<close> returned it.
\<close>

lemma cancel_request_forwarded:
  assumes ok: "server_ok s" and n: "num_hosts s = int n" "n \<le> 4"
    and ints: "is_int32 src" "is_int32 jid" "is_int32 (local_id s)"
    and addrs: "\<forall>k. 1 \<le> k \<and> k \<le> n \<longrightarrow> node_addr os s (int k) (addr k)"
    and sendto: "\<forall>p. os_sendto os p \<noteq> -1" and junk: "length j24 = HEAD_BYTES"
  shows "\<exists>ps. handle_request os now junk j24 (cancel_message src dst jid j1 j2 rest) s = Inr (s, junk, ps)
    \<and> list_all2 (\<lambda>k p. cancel_packet (addr k) jid p) (filter (\<lambda>k. nodesstat s ! k = jid) [1..<Suc n]) ps"
proof -
  let ?nodes = "\<lambda>m. filter (\<lambda>k. nodesstat s ! k = jid) [1..<Suc m]"
  have "\<exists>ps. forE [1..int n] (cancel_node os j24 jid s) [] = Inr ps
      \<and> list_all2 (\<lambda>k p. cancel_packet (addr k) jid p) (?nodes n) ps"
  proof (rule forE_count [where P = "\<lambda>m ps. list_all2 (\<lambda>k p. cancel_packet (addr k) jid p) (?nodes m) ps"])
    fix m ps
    assume m: "m < n" and ps: "list_all2 (\<lambda>k p. cancel_packet (addr k) jid p) (?nodes m) ps"
    have r: "in_range (nodesstat s) (int (Suc m))" using server_okD(3) [OF ok] m n(2) by (simp add: in_range_def nat_add_distrib)
    have u: "[1..<Suc (Suc m)] = [1..<Suc m] @ [Suc m]" by simp
    show "\<exists>ps'. cancel_node os j24 jid s (int (Suc m)) ps = Inr ps'
        \<and> list_all2 (\<lambda>k p. cancel_packet (addr k) jid p) (?nodes (Suc m)) ps'"
    proof (cases "nodesstat s ! Suc m = jid")
      case False
      then have "cancel_node os j24 jid s (int (Suc m)) ps = Inr ps"
        using r by (simp add: cancel_node_def nat_add_distrib)
      with False ps show ?thesis unfolding u by (simp del: upt_Suc)
    next
      case True
      have "is_int32 (int (Suc m))" using m n(2) by (simp add: is_int32_def)
      from server_single_job_cancel_ok [OF addrs [rule_format] sendto junk ints(2) this ints(3)] m obtain p where
        p: "server_single_job_cancel os j24 jid (int (Suc m)) s = Inr [p]" "cancel_packet (addr (Suc m)) jid p" by auto
      have "cancel_node os j24 jid s (int (Suc m)) ps = Inr (ps @ [p])"
        using r True p(1) by (simp add: cancel_node_def nat_add_distrib)
      with True ps p(2) show ?thesis unfolding u by (simp add: list_all2_appendI del: upt_Suc)
    qed
  qed simp
  then show ?thesis using handle_cancel [OF ints(1,2)] n(1) by auto
qed



lemma cancel_request_forwarded_witness:
  "\<exists>p. handle_request (ms_net example_mon_os) 0 [] (replicate 24 NUL) (cancel_message 1 1 7 0 0 [])
      (zero_server\<lparr>num_hosts := 2, nodesstat := [-1, -1, 7, -1, -1],
         ips := None # replicate 5 (Some (CHR ''h'' # [NUL]))\<rparr>)
    = Inr (zero_server\<lparr>num_hosts := 2, nodesstat := [-1, -1, 7, -1, -1],
         ips := None # replicate 5 (Some (CHR ''h'' # [NUL]))\<rparr>, [], [p]) \<and> cancel_packet ''h'' 7 p"
proof -
  let ?s = "zero_server\<lparr>num_hosts := 2, nodesstat := [-1, -1, 7, -1, -1],
         ips := None # replicate 5 (Some (CHR ''h'' # [NUL]))\<rparr>"
  have ok: "server_ok ?s" using server_ok_zero by (simp add: server_ok_def)
  have a: "\<forall>k. 1 \<le> k \<and> k \<le> 2 \<longrightarrow> node_addr (ms_net example_mon_os) ?s (int k) ''h''"
    by (auto simp: node_addr_def ptr_cstr_def nthE_def in_range_def nth_Cons' cstrE_def c_str_of_def NUL_def
        example_mon_os_def)
  have i: "num_hosts ?s = int 2" "2 \<le> (4::nat)" "is_int32 1" "is_int32 7" "is_int32 (local_id ?s)"
    "\<forall>p. os_sendto (ms_net example_mon_os) p \<noteq> -1" "length (replicate 24 NUL) = HEAD_BYTES"
    by (simp_all add: is_int32_def zero_server_def example_mon_os_def)
  have f: "filter (\<lambda>k. nodesstat ?s ! k = 7) [1..<Suc 2] = [2]" by (simp add: upt_rec)
  from cancel_request_forwarded [OF ok i(1-5) a i(6,7), of 0 "[]" 1 0 0 "[]"] f
  show ?thesis by (auto simp: list_all2_Cons1)
qed

end
