(* ===== verification/Conn_Loop.thy ===== *)
theory Conn_Loop
  imports Server_State Msg_Wire Etransfer
begin

text \<open>
  The loop that \<^verbatim>\<open>job_queue_result_1\<close>, \<^verbatim>\<open>epbs_host_status\<close> and \<^verbatim>\<open>host_monitor_transfer_2\<close> have
  in common, each with its own treatment of a client socket: collect the poll list from the map
  of clients and the listener, \<^verbatim>\<open>walk_through\<close>, \<^verbatim>\<open>select\<close>, then accept connections and treat the
  client entries that were reported. What such a thread may do to its transfer object is a locale.
\<close>

section \<open>State and system\<close>

text \<open>
  The thread's view: the shared state, its transfer object, the map of clients, its receive
  buffer and the size of the last message (\<^verbatim>\<open>recv_size\<close>), and the replies it sent as a trace.
\<close>

record conn =
  cn_srv :: server
  cn_et :: etransfer
  cn_map :: "(sockref \<times> char list upoll) list"
  cn_buf :: "char list"
  cn_size :: int
  cn_replies :: "(sockref \<times> char list) list"

record conn_os =
  cs_select :: "int \<Rightarrow> fdsets \<Rightarrow> int \<times> fdsets"
  cs_accept :: accept_os
  cs_poll :: "poll_os \<times> poll_os \<times> poll_os"
  cs_util :: sock_util
  cs_recv :: "int \<Rightarrow> nat \<Rightarrow> recv_answer"
  cs_send :: "int \<Rightarrow> char list \<Rightarrow> send_answer"
  cs_now :: int
  cs_junk :: "sockref \<Rightarrow> char list"

type_synonym handler = "conn_os \<Rightarrow> char list upoll \<Rightarrow> sockref \<Rightarrow> conn \<Rightarrow> conn res"

section \<open>The loop\<close>

definition conn_destroy :: "sockref \<Rightarrow> conn \<Rightarrow> conn res" where
  "conn_destroy r m = bindE (destroy_socket r (cn_et m)) (\<lambda>et.
     Inr (m\<lparr>cn_et := et, cn_map := omap_erase r (cn_map m)\<rparr>))"

definition conn_accept :: "conn \<Rightarrow> conn res" where
  "conn_accept m = bindE (accept (m_tcp_listener (cn_et m)) (cn_et m)) (\<lambda>(et, sc).
     Inr (case sc of
            None \<Rightarrow> m\<lparr>cn_et := et\<rparr>
          | Some r \<Rightarrow> m\<lparr>cn_et := et,
              cn_map := omap_put r \<lparr>usock = Some r, events = UPOLL_READ_T, pointer = None\<rparr> (cn_map m)\<rparr>))"

text \<open>\<^verbatim>\<open>it->usock->recv(recv_buffer, MSG_BUFF_SIZE, NULL)\<close> into the thread's buffer.\<close>

definition conn_recv :: "conn_os \<Rightarrow> sockref \<Rightarrow> conn \<Rightarrow> conn res" where
  "conn_recv os r m =
     bindE (deref (cn_et m) r) (\<lambda>u.
     bindE (tcp_recv (cs_util os) (cs_recv os) (cn_buf m) 0 MSG_BUFF_SIZE u) (\<lambda>(u', buf, n).
       Inr (m\<lparr>cn_et := set_sock r u' (cn_et m), cn_buf := buf, cn_size := n\<rparr>)))"

definition conn_event :: "handler \<Rightarrow> conn_os \<Rightarrow> char list upoll \<Rightarrow> conn \<Rightarrow> conn res" where
  "conn_event h os up m =
     (case usock up of None \<Rightarrow> Inl Null_Deref | Some r \<Rightarrow>
      if Some r = m_tcp_listener (cn_et m) then
        (if has_event (events up) UPOLL_READ_T then conn_accept m else Inr m)
      else h os up r m)"

definition conn_iter :: "handler \<Rightarrow> conn_os \<Rightarrow> conn \<Rightarrow> conn res" where
  "conn_iter h os m =
     (let src = map snd (cn_map m) @ [\<lparr>usock = m_tcp_listener (cn_et m), events = UPOLL_READ_T, pointer = None\<rparr>]
      in bindE (walk_through (cs_select os) (cs_accept os) (cn_et m)) (\<lambda>et.
         case cs_poll os of (p0, p1, p2) \<Rightarrow>
         bindE (select p0 p1 p2 src et) (\<lambda>(et, dst, n).
           if n > 0 then forE dst (conn_event h os) (m\<lparr>cn_et := et\<rparr>) else Inr (m\<lparr>cn_et := et\<rparr>))))"

text \<open>Start of a thread on a port, and runs; other threads change the shared state in between.\<close>

definition conn_start :: "init_os \<Rightarrow> int \<Rightarrow> int \<Rightarrow> char list \<Rightarrow> server \<Rightarrow> conn" where
  "conn_start os port junk stack s =
     \<lparr>cn_srv = s, cn_et = fst (init_tcp os port (new_eTransfer junk)), cn_map = [], cn_buf = stack,
      cn_size = 0, cn_replies = []\<rparr>"

fun conn_run :: "(conn_os \<Rightarrow> conn \<Rightarrow> conn res) \<Rightarrow> (conn_os \<times> server) list \<Rightarrow> conn \<Rightarrow> conn res" where
  "conn_run iter [] m = Inr m"
| "conn_run iter ((os, s) # rest) m = bindE (iter os (m\<lparr>cn_srv := s\<rparr>)) (conn_run iter rest)"

section \<open>Threads that do not close descriptors\<close>

text \<open>
  What stays the same in a transfer object: its listener, its descriptors and its trace of closed
  ones.
\<close>

definition same_fds :: "etransfer \<Rightarrow> etransfer \<Rightarrow> bool" where
  "same_fds et et' \<longleftrightarrow> m_tcp_listener et' = m_tcp_listener et \<and> m_tcp_map et' = m_tcp_map et
     \<and> closed_fds et' = closed_fds et \<and> m_tcp_sock et' = m_tcp_sock et"

lemma same_fds_refl [simp]: "same_fds et et"
  by (simp add: same_fds_def)

lemma same_fds_trans: "same_fds a b \<Longrightarrow> same_fds b c \<Longrightarrow> same_fds a c"
  by (simp add: same_fds_def)

lemma same_fds_set_sock [simp]: "same_fds et (set_sock r u et)"
  by (simp add: same_fds_def set_sock_def)

lemma conn_recv_frame:
  assumes "et_ok (cn_et m)" and "m_tcp_listener (cn_et m) \<noteq> Some r" and "conn_recv os r m = Inr m'"
  shows "et_ok (cn_et m') \<and> same_fds (cn_et m) (cn_et m') \<and> cn_srv m' = cn_srv m \<and> cn_map m' = cn_map m
    \<and> cn_replies m' = cn_replies m"
proof -
  from assms(3) obtain u u' b n where u: "heap (cn_et m) r = Some u"
    "tcp_recv (cs_util os) (cs_recv os) (cn_buf m) 0 MSG_BUFF_SIZE u = Inr (u', b, n)"
    "m' = m\<lparr>cn_et := set_sock r u' (cn_et m), cn_buf := b, cn_size := n\<rparr>"
    by (auto simp: conn_recv_def deref_def split: option.splits elim!: bindE_InrE)
  have "et_ok (set_sock r u' (cn_et m))"
    using tcp_recv_frame [OF u(2)] assms(1,2) u(1) by (intro et_ok_set_sock) auto
  with u(3) show ?thesis by simp
qed

lemma conn_destroy_frame:
  assumes "et_ok (cn_et m)" and "conn_destroy r m = Inr m'"
  shows "et_ok (cn_et m') \<and> same_fds (cn_et m) (cn_et m') \<and> cn_srv m' = cn_srv m
    \<and> cn_map m' = omap_erase r (cn_map m) \<and> cn_buf m' = cn_buf m \<and> cn_size m' = cn_size m
    \<and> cn_replies m' = cn_replies m"
proof -
  obtain u where "heap (cn_et m) r = Some u"
    using assms(2) by (auto simp: conn_destroy_def destroy_socket_def deref_def split: option.splits elim!: bindE_InrE)
  from destroy_socket_ok [OF assms(1) this] assms(2) show ?thesis
    by (auto simp: conn_destroy_def same_fds_def)
qed

lemma conn_accept_frame:
  assumes "et_ok (cn_et m)" and "conn_accept m = Inr m'"
  shows "et_ok (cn_et m') \<and> same_fds (cn_et m) (cn_et m')"
proof -
  from assms(2) obtain et sc where a: "accept (m_tcp_listener (cn_et m)) (cn_et m) = Inr (et, sc)" "cn_et m' = et"
    by (auto simp: conn_accept_def elim!: bindE_InrE split: option.splits)
  have "same_fds (cn_et m) et"
    using a(1) by (auto simp: accept_def same_fds_def set_sock_def split: list.splits elim!: bindE_InrE)
  with accept_ok [OF assms(1), of "m_tcp_listener (cn_et m)"] a show ?thesis by auto
qed

text \<open>
  What a pass of such a thread leaves behind: a well-formed object, the same closed descriptors and
  no descriptor less in the map. It carries over to runs.
\<close>

definition keeps_fds :: "etransfer \<Rightarrow> etransfer \<Rightarrow> bool" where
  "keeps_fds et et' \<longleftrightarrow> et_ok et' \<and> closed_fds et' = closed_fds et
     \<and> fst ` set (m_tcp_map et) \<subseteq> fst ` set (m_tcp_map et')"

lemma conn_run_frame:
  assumes "conn_run iter script m = Inr m'" and "et_ok (cn_et m)"
    and "\<And>os m m'. et_ok (cn_et m) \<Longrightarrow> iter os m = Inr m' \<Longrightarrow> keeps_fds (cn_et m) (cn_et m')"
  shows "keeps_fds (cn_et m) (cn_et m')"
  using assms(1,2)
proof (induction script arbitrary: m)
  case Nil
  then show ?case by (simp add: keeps_fds_def)
next
  case (Cons x script)
  obtain os s where x: "x = (os, s)" by (cases x)
  with Cons.prems obtain m1 where m1: "iter os (m\<lparr>cn_srv := s\<rparr>) = Inr m1"
    "conn_run iter script m1 = Inr m'" by (auto elim!: bindE_InrE)
  from assms(3) [OF _ m1(1)] Cons.prems(2) Cons.IH [OF m1(2)] show ?case by (auto simp: keeps_fds_def)
qed

text \<open>
  The contract of a client handler: it keeps the transfer object well formed, and neither closes a
  descriptor nor forgets one.
\<close>

locale conn_handler =
  fixes h :: handler
  assumes h_frame: "et_ok (cn_et m) \<Longrightarrow> m_tcp_listener (cn_et m) \<noteq> Some r \<Longrightarrow> h os up r m = Inr m' \<Longrightarrow>
    et_ok (cn_et m') \<and> same_fds (cn_et m) (cn_et m')"
begin

lemma event_frame:
  assumes "et_ok (cn_et m)" and "conn_event h os up m = Inr m'"
  shows "et_ok (cn_et m') \<and> same_fds (cn_et m) (cn_et m')"
proof -
  from assms(2) obtain r where r: "usock up = Some r"
    "(if Some r = m_tcp_listener (cn_et m) then (if has_event (events up) UPOLL_READ_T then conn_accept m else Inr m)
      else h os up r m) = Inr m'"
    by (auto simp: conn_event_def split: option.splits)
  show ?thesis
  proof (cases "Some r = m_tcp_listener (cn_et m)")
    case True
    show ?thesis
    proof (cases "has_event (events up) UPOLL_READ_T")
      case True
      with \<open>Some r = m_tcp_listener (cn_et m)\<close> r(2) have "conn_accept m = Inr m'" by simp
      then show ?thesis by (rule conn_accept_frame [OF assms(1)])
    next
      case False
      with \<open>Some r = m_tcp_listener (cn_et m)\<close> r(2) assms(1) show ?thesis by simp
    qed
  next
    case False
    with r(2) have "h os up r m = Inr m'" by simp
    with False show ?thesis by (intro h_frame [OF assms(1)]) simp_all
  qed
qed

lemma iter_frame:
  assumes ok: "et_ok (cn_et m)" and it: "conn_iter h os m = Inr m'"
  shows "keeps_fds (cn_et m) (cn_et m')"
proof -
  let ?src = "map snd (cn_map m) @ [\<lparr>usock = m_tcp_listener (cn_et m), events = UPOLL_READ_T, pointer = None\<rparr>]"
  obtain p0 p1 p2 where p: "cs_poll os = (p0, p1, p2)" by (cases "cs_poll os")
  from it obtain e1 e2 dst n where w: "walk_through (cs_select os) (cs_accept os) (cn_et m) = Inr e1"
    and s: "select p0 p1 p2 ?src e1 = Inr (e2, dst, n)"
    and r: "(if n > 0 then forE dst (conn_event h os) (m\<lparr>cn_et := e2\<rparr>) else Inr (m\<lparr>cn_et := e2\<rparr>)) = Inr m'"
    unfolding conn_iter_def Let_def p prod.case by (auto elim!: bindE_InrE)
  have 1: "et_ok e1" by (rule walk_through_inv [OF ok w])
  have w1: "closed_fds e1 = closed_fds (cn_et m) \<and> fst ` set (m_tcp_map (cn_et m)) \<subseteq> fst ` set (m_tcp_map e1)"
    by (rule walk_through_fds [OF ok w])
  have 2: "et_ok e2" by (rule select_inv [OF 1 s])
  have "et_ok (cn_et m') \<and> closed_fds (cn_et m') = closed_fds e2 \<and> m_tcp_map (cn_et m') = m_tcp_map e2"
  proof (cases "n > 0")
    case True
    with r have f: "forE dst (conn_event h os) (m\<lparr>cn_et := e2\<rparr>) = Inr m'" by simp
    let ?I = "\<lambda>x. et_ok (cn_et x) \<and> closed_fds (cn_et x) = closed_fds e2 \<and> m_tcp_map (cn_et x) = m_tcp_map e2"
    show ?thesis
    proof (rule forE_Inr_invariant [where I = ?I, OF f])
      show "?I (m\<lparr>cn_et := e2\<rparr>)" using 2 by simp
      fix up x x'
      assume "?I x" and "conn_event h os up x = Inr x'"
      with event_frame [of x os up x'] show "?I x'" by (simp add: same_fds_def)
    qed
  qed (use r 2 in auto)
  with w1 select_reports [OF s] show ?thesis by (auto simp: keeps_fds_def)
qed

lemma run_frame:
  "conn_run (conn_iter h) script m = Inr m' \<Longrightarrow> et_ok (cn_et m) \<Longrightarrow> keeps_fds (cn_et m) (cn_et m')"
  using conn_run_frame [of "conn_iter h" script m m'] iter_frame by blast

end

text \<open>
  A pass that is to accept a connection whose descriptor does not fit an \<^verbatim>\<open>fd_set\<close> faults.
\<close>

lemma conn_iter_large_fd:
  assumes "et_ok (cn_et m)" and "small_fds (cn_et m)" and "0 \<le> m_tcp_sock (cn_et m)"
    and "new_connection (cs_select os) (cn_et m)" and "FD_SETSIZE \<le> ac_sock (cs_accept os)"
  shows "\<exists>e. conn_iter h os m = Inl e"
  using walk_through_large_fd [OF assms] by (auto simp: conn_iter_def Let_def)

text \<open>A pass in which no entry is ready changes nothing but the interest bits.\<close>

definition quiet :: "conn_os \<Rightarrow> conn \<Rightarrow> etransfer \<Rightarrow> bool" where
  "quiet os m et \<longleftrightarrow> (\<exists>et1 dst n. walk_through (cs_select os) (cs_accept os) (cn_et m) = Inr et1
     \<and> (case cs_poll os of (p0, p1, p2) \<Rightarrow> select p0 p1 p2
          (map snd (cn_map m) @ [\<lparr>usock = m_tcp_listener (cn_et m), events = UPOLL_READ_T, pointer = None\<rparr>]) et1
          = Inr (et, dst, n)) \<and> n \<le> 0)"

lemma conn_iter_quiet: "quiet os m et \<Longrightarrow> conn_iter h os m = Inr (m\<lparr>cn_et := et\<rparr>)"
  by (auto simp: quiet_def conn_iter_def Let_def split: prod.splits)

end
