(* ===== verification/Job_Dispatch.thy ===== *)
theory Job_Dispatch
  imports Job_Ring Conn_Loop
begin

text \<open>
  How jobs run (\<^verbatim>\<open>libjobq.c\<close>): \<^verbatim>\<open>job_queue_pop\<close> takes a job out of the queue, waits for free
  hosts and sends the command to them (\<^verbatim>\<open>server_single_job_submit\<close>);
  \<^verbatim>\<open>deal_interactive_job_request\<close> and \<^verbatim>\<open>execl_thread\<close> run it on a node and report;
  \<^verbatim>\<open>job_queue_result_1\<close> takes the reports in; \<^verbatim>\<open>cancel_job_request\<close> serves cancellations on a node.
  The pop thread holds no lock outside the queue, so it is a machine whose steps other threads can
  interleave with.
\<close>

section \<open>Sending a job to a node\<close>

text \<open>\<open>junk\<close> is the allocation of \<^verbatim>\<open>strlen(command) + 1 + 24\<close> bytes.\<close>

definition server_single_job_submit ::
  "net_os \<Rightarrow> (nat \<Rightarrow> char list) \<Rightarrow> int \<Rightarrow> char list \<Rightarrow> int \<Rightarrow> server \<Rightarrow> packet list res" where
  "server_single_job_submit os malloc remote_id command jid s =
     bindE (cstrE command 0) (\<lambda>comm.
       let pcomm_len = length comm + 1; job_msg_len = pcomm_len + HEAD_BYTES in
       bindE (put_ints [(0, msg_code MSG_TYPE_JOB_SUBMIT), (1, local_id s), (2, remote_id), (3, jid),
                        (4, int pcomm_len)] (malloc job_msg_len)) (\<lambda>b.
       bindE (storeE b HEAD_BYTES (take pcomm_len command)) (\<lambda>b.
       bindE (udp_send os (ips s) (local_id s) remote_id b job_msg_len UDP_INTER_JOB_SRV_PORT_NUMBER) (\<lambda>(nbytes, ps).
         if nbytes = -1 then Inl (Exit_Process 1)
         else if nbytes \<noteq> int job_msg_len then Inl (Exit_Process 1)
         else Inr ps))))"

section \<open>\<^verbatim>\<open>job_queue_pop\<close>\<close>

text \<open>
  Where the thread stands: polling the queue, waiting for hosts with a job and the running value of
  \<^verbatim>\<open>count\<close>, choosing the host for the \<open>i\<close>-th node of the job, recording the number of nodes. The
  local array \<^verbatim>\<open>pcomm\<close> lives across jobs.
\<close>

datatype pop_pc =
    Pop_Poll
  | Pop_Wait taken_job int
  | Pop_Time taken_job bool
  | Pop_Assign taken_job int
  | Pop_Record taken_job

record popper =
  pp_pc :: pop_pc
  pp_pcomm :: "char list"

text \<open>The initialisation before the loop.\<close>

definition pop_start :: "server \<Rightarrow> server" where
  "pop_start s = s\<lparr>pcstat := replicate MAX_NUM_HOSTS HOST_STAT_FREE, nodesstat := replicate MAX_NUM_HOSTS (-1)\<rparr>"

text \<open>The scan that adds the free hosts to \<^verbatim>\<open>count\<close>.\<close>

definition count_free :: "server \<Rightarrow> int \<Rightarrow> int res" where
  "count_free s cnt = forE [1..num_hosts s] (\<lambda>i c. bindE (nthE (pcstat s) i) (\<lambda>st.
     Inr (if st = HOST_STAT_FREE then c + 1 else c))) cnt"

text \<open>The inner loop of the assignment: the first free host.\<close>

fun first_free :: "int list \<Rightarrow> int list \<Rightarrow> int option res" where
  "first_free st [] = Inr None"
| "first_free st (k # ks) = bindE (nthE st k) (\<lambda>x. if x = HOST_STAT_FREE then Inr (Some k) else first_free st ks)"

definition assign_node ::
  "net_os \<Rightarrow> (nat \<Rightarrow> char list) \<Rightarrow> char list \<Rightarrow> int \<Rightarrow> server \<Rightarrow> (server \<times> packet list) res" where
  "assign_node os malloc command jid s =
     bindE (first_free (pcstat s) [1..num_hosts s]) (\<lambda>f.
     case f of None \<Rightarrow> Inr (s, [])
     | Some k \<Rightarrow>
        bindE (updE (nodesstat s) k jid) (\<lambda>ns.
        bindE (updE (pcstat s) k HOST_STAT_BUSY) (\<lambda>pc.
          let s = s\<lparr>nodesstat := ns, pcstat := pc\<rparr> in
          bindE (server_single_job_submit os malloc k command jid s) (\<lambda>ps. Inr (s, ps)))))"

text \<open>One step of the thread; \<open>now\<close> is what \<^verbatim>\<open>time(NULL)\<close> returns.\<close>

definition pop_step ::
  "net_os \<Rightarrow> (nat \<Rightarrow> char list) \<Rightarrow> int \<Rightarrow> server \<Rightarrow> popper \<Rightarrow> (server \<times> popper \<times> packet list) res" where
  "pop_step os malloc now s p =
     (case pp_pc p of
        Pop_Poll \<Rightarrow>
          bindE (job_dequeue (pp_pcomm p) s) (\<lambda>(s', t).
            Inr (s', (case t of None \<Rightarrow> p
               | Some t \<Rightarrow> p\<lparr>pp_pcomm := tk_pcomm t,
                            pp_pc := (if tk_nreq t \<le> num_hosts s' then Pop_Wait t 0 else Pop_Time t False)\<rparr>), []))
      | Pop_Wait t cnt \<Rightarrow>
          bindE (count_free s cnt) (\<lambda>c.
            Inr (s, p\<lparr>pp_pc := (if c < tk_nreq t then Pop_Wait t c else Pop_Time t True)\<rparr>, []))
      | Pop_Time t enough \<Rightarrow>
          bindE (nthE (jobq s) (int (tk_slot t))) (\<lambda>j.
            Inr (s\<lparr>jobq := (jobq s)[tk_slot t := j\<lparr>time2 := now\<rparr>]\<rparr>,
                 p\<lparr>pp_pc := (if \<not> enough then Pop_Poll else if 1 \<le> tk_nreq t then Pop_Assign t 1 else Pop_Record t)\<rparr>, []))
      | Pop_Assign t i \<Rightarrow>
          bindE (assign_node os malloc (pp_pcomm p) (tk_job_id t) s) (\<lambda>(s', ps).
            Inr (s', p\<lparr>pp_pc := (if i < tk_nreq t then Pop_Assign t (i + 1) else Pop_Record t)\<rparr>, ps))
      | Pop_Record t \<Rightarrow>
          bindE (updE (jobnodes s) (tk_job_id t) (tk_nreq t)) (\<lambda>jn.
            Inr (s\<lparr>jobnodes := jn\<rparr>, p\<lparr>pp_pc := Pop_Poll\<rparr>, [])))"

text \<open>A number of steps in which no other thread interferes.\<close>

fun pop_run ::
  "net_os \<Rightarrow> (nat \<Rightarrow> char list) \<Rightarrow> int \<Rightarrow> nat \<Rightarrow> server \<times> popper \<times> packet list
     \<Rightarrow> (server \<times> popper \<times> packet list) res" where
  "pop_run os malloc now 0 x = Inr x"
| "pop_run os malloc now (Suc n) (s, p, out) =
     bindE (pop_step os malloc now s p) (\<lambda>(s', p', ps). pop_run os malloc now n (s', p', out @ ps))"

section \<open>\<^verbatim>\<open>job_queue_result_1\<close>\<close>

text \<open>What the thread does with the receive buffer, whatever \<^verbatim>\<open>recv\<close> returned.\<close>

definition take_result :: "int \<Rightarrow> char list \<Rightarrow> server \<Rightarrow> server res" where
  "take_result now recv_buffer s =
     bindE (get_int recv_buffer 1) (\<lambda>src.
     bindE (get_int recv_buffer 3) (\<lambda>jid.
     bindE (get_int recv_buffer 4) (\<lambda>job_relt.
       if job_relt = JOB_STAT_FINISHED then
         bindE (updE (pcstat s) src HOST_STAT_FREE) (\<lambda>pc.
         bindE (nthE (jobnodes s) jid) (\<lambda>n.
         bindE (updE (jobnodes s) jid (n - 1)) (\<lambda>jn.
           let s = s\<lparr>pcstat := pc, jobnodes := jn\<rparr> in
           if n - 1 = 0 then
             bindE (nthE (jobq s) jid) (\<lambda>j.
               Inr (s\<lparr>jobq := (jobq s)[nat jid := j\<lparr>job_stat := JOB_STAT_FINISHED, time3 := now\<rparr>]\<rparr>))
           else Inr s)))
       else Inr s)))"

definition result_event :: handler where
  "result_event os up r m =
     (if has_event (events up) UPOLL_READ_T then
        bindE (conn_recv os r m) (\<lambda>m.
        bindE (take_result (cs_now os) (cn_buf m) (cn_srv m)) (\<lambda>s.
          conn_destroy r (m\<lparr>cn_srv := s\<rparr>)))
      else if has_event (events up) UPOLL_WRITE_T then conn_destroy r m
      else if has_event (events up) UPOLL_ERROR_T then conn_destroy r m
      else Inr m)"

definition job_queue_result_1 :: "conn_os \<Rightarrow> conn \<Rightarrow> conn res" where
  "job_queue_result_1 = conn_iter result_event"

lemma result_event_frame:
  assumes ok: "et_ok (cn_et m)" and l: "m_tcp_listener (cn_et m) \<noteq> Some r" and h: "result_event os up r m = Inr m'"
  shows "et_ok (cn_et m') \<and> same_fds (cn_et m) (cn_et m')"
proof (cases "has_event (events up) UPOLL_READ_T")
  case True
  with h obtain m1 s where m1: "conn_recv os r m = Inr m1" "conn_destroy r (m1\<lparr>cn_srv := s\<rparr>) = Inr m'"
    by (auto simp: result_event_def elim!: bindE_InrE)
  from conn_recv_frame [OF ok l m1(1)] conn_destroy_frame [OF _ m1(2)] same_fds_trans [of "cn_et m" "cn_et m1"]
  show ?thesis by simp
next
  case False
  with h conn_destroy_frame [OF ok] ok show ?thesis by (simp add: result_event_def split: if_splits)
qed

interpretation result: conn_handler result_event
  by unfold_locales (rule result_event_frame)

section \<open>On the node\<close>

text \<open>What a node does that others can see: starting a program, sending, cancelling a thread.\<close>

datatype node_action =
    Fork_Exec string
  | Sleep_Builtin
  | Send packet
  | Cancel_Thread

text \<open>
  \<^verbatim>\<open>execl_thread\<close>: the command \<^verbatim>\<open>sleep\<close> sleeps first; then, for every command, a child is forked
  to execute it, and the thread ends without waiting for the child. \<open>forked\<close> is whether
  \<^verbatim>\<open>fork\<close> succeeds. \<^verbatim>\<open>msg_init\<close> rests on a function that is not in the repository; its effect
  on this node's tables is left out.
\<close>

definition execl_thread :: "bool \<Rightarrow> string \<Rightarrow> node_action list" where
  "execl_thread forked comm =
     (if comm = ''sleep'' then [Sleep_Builtin] else []) @ (if forked then [Fork_Exec comm] else [])"

text \<open>
  \<^verbatim>\<open>deal_interactive_job_request\<close> in two parts: what it makes of a datagram (the job's id and command, when it
  is a submission), and what it sends when the thread it started has ended; \<open>junk\<close> is the allocation for the reports.
\<close>

definition read_request :: "char list option \<Rightarrow> char list \<Rightarrow> (char list \<times> (int \<times> string) option) res" where
  "read_request dgram recv_buffer =
     bindE (udp_recv True True dgram recv_buffer MSG_BUFF_SIZE) (\<lambda>(n, rb).
     if n \<le> 0 then Inr (rb, None) else
     bindE (get_int rb 0) (\<lambda>type.
       if type \<noteq> msg_code MSG_TYPE_JOB_SUBMIT then Inr (rb, None)
       else
         bindE (get_int rb 3) (\<lambda>jid.
         bindE (get_int rb 4) (\<lambda>pcomm_len.
         bindE (updE rb (int HEAD_BYTES + pcomm_len) NUL) (\<lambda>rb.
         bindE (cstrE rb HEAD_BYTES) (\<lambda>comm. Inr (rb, Some (jid, comm))))))))"

definition node_reports :: "net_os \<Rightarrow> server \<Rightarrow> char list \<Rightarrow> int \<Rightarrow> packet list res" where
  "node_reports os s junk jid =
     bindE (put_ints [(0, msg_code MSG_TYPE_JOB_RETURN), (1, local_id s), (2, 1), (3, jid), (4, JOB_STAT_FINISHED)] junk) (\<lambda>b.
     bindE (udp_send os (ips s) (local_id s) 1 b HEAD_BYTES UDP_JOB_RELT_SRV_PORT_NUMBER) (\<lambda>(_, ps).
     bindE (put_ints [(0, msg_code MSG_TYPE_HOST), (1, local_id s), (2, 1), (3, local_id s), (4, HOST_STAT_FREE)] b) (\<lambda>b.
     bindE (udp_send os (ips s) (local_id s) 1 b HEAD_BYTES UDP_HOST_STAT_SRV_PORT_NUMBER) (\<lambda>(_, qs). Inr (ps @ qs)))))"

text \<open>The whole pass: \<open>thread_ok\<close> is whether \<^verbatim>\<open>pthread_create\<close> succeeds.\<close>

definition deal_interactive_job_request ::
  "net_os \<Rightarrow> char list option \<Rightarrow> bool \<Rightarrow> bool \<Rightarrow> char list \<Rightarrow> char list \<Rightarrow> server
     \<Rightarrow> (char list \<times> node_action list) res" where
  "deal_interactive_job_request os dgram thread_ok forked junk recv_buffer s =
     bindE (read_request dgram recv_buffer) (\<lambda>(rb, r).
       case r of
         None \<Rightarrow> Inr (rb, [])
       | Some (jid, comm) \<Rightarrow>
           if \<not> thread_ok then Inl (Exit_Process 1)
           else bindE (node_reports os s junk jid) (\<lambda>ps. Inr (rb, execl_thread forked comm @ map Send ps)))"

text \<open>\<^verbatim>\<open>cancel_job_request\<close>: the job id of the message is only printed.\<close>

definition cancel_job_request :: "char list option \<Rightarrow> char list \<Rightarrow> (char list \<times> node_action list) res" where
  "cancel_job_request dgram recv_buffer =
     bindE (udp_recv True True dgram recv_buffer MSG_BUFF_SIZE) (\<lambda>(n, rb).
     if n > 0 then bindE (get_int rb 3) (\<lambda>jid. Inr (rb, [Cancel_Thread])) else Inl (Exit_Process 1))"

section \<open>From the server to the node\<close>

definition malloc_ok :: "(nat \<Rightarrow> char list) \<Rightarrow> bool" where
  "malloc_ok malloc \<longleftrightarrow> (\<forall>n. length (malloc n) = n)"

text \<open>The name of host \<open>k\<close> in the table resolves to an address.\<close>

definition host_addr :: "net_os \<Rightarrow> server \<Rightarrow> int \<Rightarrow> string \<Rightarrow> bool" where
  "host_addr os s k a \<longleftrightarrow> (\<exists>name. ptr_cstr (ips s) k = Inr name \<and> os_resolve os name = Some a)"

text \<open>A datagram socket that takes every datagram whole.\<close>

definition sendto_ok :: "net_os \<Rightarrow> bool" where
  "sendto_ok os \<longleftrightarrow> (\<forall>p. os_sendto os p = int (length (pk_data p)))"

lemma udp_send_ok:
  assumes "host_addr os s k a" and "sendto_ok os" and "length b = n"
  shows "udp_send os (ips s) src k b n port
    = Inr (int n, [\<lparr>pk_transport = Udp, pk_addr = a, pk_port = port, pk_data = b\<rparr>])"
  using assms by (auto simp: host_addr_def sendto_ok_def udp_send_def loadE_def Let_def)

text \<open>The message that carries a command.\<close>

definition job_packet :: "string \<Rightarrow> int \<Rightarrow> string \<Rightarrow> packet \<Rightarrow> bool" where
  "job_packet a jid comm p \<longleftrightarrow> pk_transport p = Udp \<and> pk_addr p = a \<and> pk_port p = UDP_INTER_JOB_SRV_PORT_NUMBER
     \<and> (\<exists>h. length h = HEAD_BYTES \<and> pk_data p = h @ comm @ [NUL]
        \<and> get_int h 0 = Inr (msg_code MSG_TYPE_JOB_SUBMIT) \<and> get_int h 3 = Inr jid
        \<and> get_int h 4 = Inr (int (length comm) + 1))"

lemma server_single_job_submit_ok:
  assumes os: "host_addr os s k a" "sendto_ok os" "malloc_ok malloc"
    and comm: "cstrE command 0 = Inr comm" "length comm < 1000"
    and ints: "is_int32 jid" "is_int32 k" "is_int32 (local_id s)"
  shows "\<exists>p. server_single_job_submit os malloc k command jid s = Inr [p] \<and> job_packet a jid comm p"
proof -
  let ?n = "length comm + 1 + 24"
  let ?ws = "[(0::nat, 4), (1, local_id s), (2, k), (3, jid), (4, int (length comm + 1))]"
  have m: "length (malloc ?n) = ?n" using os(3) by (simp add: malloc_ok_def)
  have c: "\<forall>w \<in> set ?ws. 4 * fst w + 4 \<le> length (malloc ?n)" unfolding m by simp
  from put_ints_defined [OF c] obtain b where b: "put_ints ?ws (malloc ?n) = Inr b" "length b = ?n" using m by auto
  have d: "distinct (map fst ?ws)" by simp
  have i: "is_int32 (int (length comm + 1))" using comm(2) by (simp add: is_int32_def)
  note get = put_ints_get [OF b(1) _ d c]
  have g: "get_int b 0 = Inr 4" "get_int b 3 = Inr jid" "get_int b 4 = Inr (int (length comm + 1))"
    by (rule get; use ints i in \<open>simp add: is_int32_def\<close>)+
  have m': "length (malloc ?n) = 24 + (length comm + 1)" using m by simp
  from split_24 [OF b(1) m'] obtain h where
    h: "length h = 24" "take 24 b = h" "\<forall>k < 6. get_int h k = get_int b k" by blast
  have t: "take (length comm + 1) command = comm @ [NUL]" by (rule take_cstr [OF comm(1)])
  have s: "storeE b 24 (comm @ [NUL]) = Inr (h @ comm @ [NUL])"
    using b(2) h(2) blit_end [of b 24 "comm @ [NUL]"] by (simp add: storeE_def)
  let ?d = "h @ comm @ [NUL]"
  have l: "length ?d = ?n" using h(1) by simp
  have u: "udp_send os (ips s) (local_id s) k ?d ?n UDP_INTER_JOB_SRV_PORT_NUMBER
      = Inr (int ?n, [\<lparr>pk_transport = Udp, pk_addr = a, pk_port = UDP_INTER_JOB_SRV_PORT_NUMBER, pk_data = ?d\<rparr>])"
    by (rule udp_send_ok [OF os(1,2) l])
  have "server_single_job_submit os malloc k command jid s
      = Inr [\<lparr>pk_transport = Udp, pk_addr = a, pk_port = UDP_INTER_JOB_SRV_PORT_NUMBER, pk_data = ?d\<rparr>]"
    using comm(1) b(1) t s u by (simp add: server_single_job_submit_def Let_def)
  then show ?thesis using h g by (auto simp: job_packet_def)
qed

text \<open>The report of a finished job and the report of the host's state, as the node sends them.\<close>

definition report_packet :: "msg_type \<Rightarrow> int \<Rightarrow> int \<Rightarrow> int \<Rightarrow> int \<Rightarrow> packet \<Rightarrow> bool" where
  "report_packet ty port src m1 m2 p \<longleftrightarrow> pk_transport p = Udp \<and> pk_port p = port \<and> length (pk_data p) = HEAD_BYTES
     \<and> get_int (pk_data p) 0 = Inr (msg_code ty) \<and> get_int (pk_data p) 1 = Inr src
     \<and> get_int (pk_data p) 3 = Inr m1 \<and> get_int (pk_data p) 4 = Inr m2"

lemma report_ints:
  assumes "length junk = 24" and "is_int32 src" and "is_int32 m1" and "is_int32 m2"
  shows "\<exists>b. put_ints [(0, msg_code ty), (1, src), (2, 1), (3, m1), (4, m2)] junk = Inr b \<and> length b = 24
    \<and> get_int b 0 = Inr (msg_code ty) \<and> get_int b 1 = Inr src \<and> get_int b 3 = Inr m1 \<and> get_int b 4 = Inr m2"
proof -
  let ?ws = "[(0::nat, msg_code ty), (1, src), (2, 1), (3, m1), (4, m2)]"
  have c: "\<forall>w \<in> set ?ws. 4 * fst w + 4 \<le> length junk" using assms(1) by simp
  from put_ints_defined [OF c] obtain b where b: "put_ints ?ws junk = Inr b" "length b = 24" using assms(1) by auto
  have d: "distinct (map fst ?ws)" by simp
  note get = put_ints_get [OF b(1) _ d c]
  have "get_int b 0 = Inr (msg_code ty)" by (rule get) simp_all
  moreover have "get_int b 1 = Inr src" by (rule get) (simp_all add: assms)
  moreover have "get_int b 3 = Inr m1" by (rule get) (simp_all add: assms)
  moreover have "get_int b 4 = Inr m2" by (rule get) (simp_all add: assms)
  ultimately show ?thesis using b by blast
qed

text \<open>What a node reads of such a message.\<close>

lemma read_request_ok:
  assumes p: "job_packet a jid comm p" and comm: "length comm < 1000" "no_nul comm" and bufs: "length rb = MSG_BUFF_SIZE"
  shows "\<exists>rb'. read_request (Some (pk_data p)) rb = Inr (rb', Some (jid, comm)) \<and> length rb' = MSG_BUFF_SIZE"
proof -
  from p obtain h where h: "length h = 24" "pk_data p = h @ comm @ [NUL]" "get_int h 0 = Inr 4"
    "get_int h 3 = Inr jid" "get_int h 4 = Inr (int (length comm) + 1)" by (auto simp: job_packet_def)
  let ?n = "length comm"
  have l: "pk_data p \<noteq> []" "length (pk_data p) \<le> 2000" "length (pk_data p) = ?n + 25" using h comm(1) by auto
  obtain rest where rest: "blit rb 0 (pk_data p) = h @ comm @ NUL # rest" "length rest = 1975 - ?n"
    using h l bufs by (auto simp: blit_def)
  have recv: "udp_recv True True (Some (pk_data p)) rb 2000 = Inr (int (length (pk_data p)), h @ comm @ NUL # rest)"
    using udp_recv_datagram [of "pk_data p" 2000 rb] l bufs rest(1) by simp
  let ?x = "h @ comm @ NUL # rest"
  have upd: "updE ?x (24 + (int ?n + 1)) NUL = Inr (h @ comm @ NUL # rest[0 := NUL])"
  proof -
    have "in_range ?x (24 + (int ?n + 1))" using h(1) rest(2) comm(1) by (simp add: in_range_def nat_add_distrib)
    moreover have "?x[25 + ?n := NUL] = h @ comm @ NUL # rest[0 := NUL]"
      using h(1) by (simp add: list_update_append)
    moreover have "nat (24 + (int ?n + 1)) = 25 + ?n" by simp
    ultimately show ?thesis by (simp only: updE_in)
  qed
  have str: "cstrE (h @ comm @ NUL # rest[0 := NUL]) 24 = Inr comm"
    using cstrE_append [OF comm(2), of h] h(1) by simp
  have g: "get_int ?x 0 = Inr 4" "get_int ?x 3 = Inr jid" "get_int ?x 4 = Inr (int ?n + 1)"
    using h by (simp_all add: get_int_prefix)
  have "length (h @ comm @ NUL # rest[0 := NUL]) = 2000" using h(1) rest(2) comm(1) by simp
  then show ?thesis using recv g upd str l(3) by (intro exI [of _ "h @ comm @ NUL # rest[0 := NUL]"]) (simp add: read_request_def)
qed

text \<open>What it sends.\<close>

lemma node_reports_ok:
  assumes node: "host_addr nos ns 1 a'" "sendto_ok nos" "is_int32 (local_id ns)" and jid: "is_int32 jid" and junk: "length junk = HEAD_BYTES"
  shows "\<exists>q1 q2. node_reports nos ns junk jid = Inr [q1, q2]
    \<and> report_packet MSG_TYPE_JOB_RETURN UDP_JOB_RELT_SRV_PORT_NUMBER (local_id ns) jid JOB_STAT_FINISHED q1
    \<and> report_packet MSG_TYPE_HOST UDP_HOST_STAT_SRV_PORT_NUMBER (local_id ns) (local_id ns) HOST_STAT_FREE q2"
proof -
  have fin: "is_int32 JOB_STAT_FINISHED" "is_int32 HOST_STAT_FREE"
    by (simp_all add: is_int32_def job_stat_defs host_stat_defs)
  from report_ints [OF _ node(3) jid fin(1), of junk MSG_TYPE_JOB_RETURN] junk obtain b1 where
    b1: "put_ints [(0, 6), (1, local_id ns), (2, 1), (3, jid), (4, JOB_STAT_FINISHED)] junk = Inr b1"
      "length b1 = 24" "get_int b1 0 = Inr 6" "get_int b1 1 = Inr (local_id ns)" "get_int b1 3 = Inr jid"
      "get_int b1 4 = Inr JOB_STAT_FINISHED" by auto
  from report_ints [OF b1(2) node(3,3) fin(2), of MSG_TYPE_HOST] obtain b2 where
    b2: "put_ints [(0, 2), (1, local_id ns), (2, 1), (3, local_id ns), (4, HOST_STAT_FREE)] b1 = Inr b2"
      "length b2 = 24" "get_int b2 0 = Inr 2" "get_int b2 1 = Inr (local_id ns)" "get_int b2 3 = Inr (local_id ns)"
      "get_int b2 4 = Inr HOST_STAT_FREE" by auto
  let ?q1 = "\<lparr>pk_transport = Udp, pk_addr = a', pk_port = UDP_JOB_RELT_SRV_PORT_NUMBER, pk_data = b1\<rparr>"
  let ?q2 = "\<lparr>pk_transport = Udp, pk_addr = a', pk_port = UDP_HOST_STAT_SRV_PORT_NUMBER, pk_data = b2\<rparr>"
  have "node_reports nos ns junk jid = Inr [?q1, ?q2]"
    using b1(1) b2(1) udp_send_ok [OF node(1,2) b1(2)] udp_send_ok [OF node(1,2) b2(2)] by (simp add: node_reports_def)
  with b1 b2 show ?thesis by (intro exI [of _ ?q1] exI [of _ ?q2]) (simp add: report_packet_def)
qed

text \<open>A node that receives such a message executes the command and reports twice.\<close>

lemma node_serves:
  assumes p: "job_packet a jid comm p" and comm: "length comm < 1000" "no_nul comm" and jid: "is_int32 jid"
    and node: "host_addr nos ns 1 a'" "sendto_ok nos" "is_int32 (local_id ns)"
    and bufs: "length rb = MSG_BUFF_SIZE" "length junk = HEAD_BYTES"
  shows "\<exists>rb' q1 q2. deal_interactive_job_request nos (Some (pk_data p)) True forked junk rb ns
        = Inr (rb', execl_thread forked comm @ [Send q1, Send q2])
    \<and> report_packet MSG_TYPE_JOB_RETURN UDP_JOB_RELT_SRV_PORT_NUMBER (local_id ns) jid JOB_STAT_FINISHED q1
    \<and> report_packet MSG_TYPE_HOST UDP_HOST_STAT_SRV_PORT_NUMBER (local_id ns) (local_id ns) HOST_STAT_FREE q2"
proof -
  from read_request_ok [OF p comm bufs(1)] obtain rb' where "read_request (Some (pk_data p)) rb = Inr (rb', Some (jid, comm))" by blast
  with node_reports_ok [OF node jid bufs(2)] show ?thesis by (auto simp: deal_interactive_job_request_def)
qed


text \<open>Two hosts whose names resolve to themselves, on a network that takes everything.\<close>

definition example_net :: net_os where
  "example_net = \<lparr>os_resolve = Some, os_sendto = (\<lambda>p. int (length (pk_data p)))\<rparr>"

definition example_server :: server where
  "example_server = zero_server\<lparr>num_hosts := 2, local_id := 1,
     ips := [None, Some (''n1'' @ [NUL]), Some (''n2'' @ [NUL]), None, None, None],
     pcstat := replicate 5 HOST_STAT_FREE\<rparr>"

definition example_names :: "nat \<Rightarrow> string" where
  "example_names k = (if k = 1 then ''n1'' else ''n2'')"

lemma example_facts:
  "server_ok example_server" "num_hosts example_server = int 2" "is_int32 (local_id example_server)"
  "\<forall>k. 1 \<le> k \<and> k \<le> 2 \<longrightarrow> host_addr example_net example_server (int k) (example_names k)"
  "sendto_ok example_net" "malloc_ok (\<lambda>n. replicate n NUL)"
proof -
  have a: "host_addr example_net example_server (int 1) ''n1''"
    "host_addr example_net example_server (int 2) ''n2''"
    by (simp_all add: host_addr_def example_net_def example_server_def ptr_cstr_def cstrE_def c_str_of_def NUL_def
      nthE_def in_range_def)
  show "\<forall>k. 1 \<le> k \<and> k \<le> 2 \<longrightarrow> host_addr example_net example_server (int k) (example_names k)"
  proof (intro allI impI)
    fix k :: nat
    assume "1 \<le> k \<and> k \<le> 2"
    then consider "k = 1" | "k = 2" by linarith
    then show "host_addr example_net example_server (int k) (example_names k)"
      using a by cases (simp_all only: example_names_def, simp_all)
  qed
  show "server_ok example_server"
    using server_ok_zero by (simp add: server_ok_def example_server_def)
qed (simp_all add: example_server_def is_int32_def sendto_ok_def example_net_def malloc_ok_def)

lemma example_command: "cstrE (''date'' @ replicate 28 NUL) 0 = Inr ''date''"
  by (simp add: cstrE_def c_str_of_def NUL_def)


section \<open>Waiting for hosts and choosing them\<close>

text \<open>The free hosts among \<open>1..n\<close>, in the order in which the thread looks at them.\<close>

definition free_list :: "server \<Rightarrow> nat \<Rightarrow> nat list" where
  "free_list s n = filter (\<lambda>k. pcstat s ! k = HOST_STAT_FREE) [1..<Suc n]"

lemma pop_run_add: "pop_run os malloc now (m + n) x = bindE (pop_run os malloc now m x) (pop_run os malloc now n)"
proof (induction m arbitrary: x)
  case 0
  then show ?case by simp
next
  case (Suc m)
  obtain s p out where x: "x = (s, p, out)" by (cases x)
  show ?case
  proof (cases "pop_step os malloc now s p")
    case (Inr y)
    then show ?thesis using Suc.IH x by (cases y) simp
  qed (simp add: x)
qed

lemma count_free_ok:
  assumes "server_ok s" and "num_hosts s = int n" and "n \<le> 4"
  shows "count_free s c = Inr (c + int (length (free_list s n)))"
proof -
  let ?f = "\<lambda>i c. bindE (nthE (pcstat s) i) (\<lambda>st. Inr (if st = HOST_STAT_FREE then c + 1 else c))"
  have "\<exists>t. forE [1..int n] ?f c = Inr t \<and> t = c + int (length (free_list s n))"
  proof (rule forE_count [where P = "\<lambda>m t. t = c + int (length (free_list s m))"])
    fix m t
    assume m: "m < n" and t: "t = c + int (length (free_list s m))"
    have "in_range (pcstat s) (int (Suc m))" using server_okD(4) [OF assms(1)] m assms(3) by (simp add: in_range_def nat_add_distrib)
    moreover have "free_list s (Suc m) = free_list s m @ (if pcstat s ! Suc m = HOST_STAT_FREE then [Suc m] else [])"
      by (simp add: free_list_def)
    ultimately show "\<exists>t'. ?f (int (Suc m)) t = Inr t' \<and> t' = c + int (length (free_list s (Suc m)))"
      using t by (simp add: nat_add_distrib)
  qed (simp add: free_list_def)
  then show ?thesis using assms(2) by (simp add: count_free_def)
qed

lemma pop_wait_step:
  assumes "server_ok s" and "num_hosts s = int n" and "n \<le> 4" and "pp_pc p = Pop_Wait t c"
  shows "pop_step os malloc now s p = Inr (s, p\<lparr>pp_pc := (if c + int (length (free_list s n)) < tk_nreq t
     then Pop_Wait t (c + int (length (free_list s n))) else Pop_Time t True)\<rparr>, [])"
  using assms(4) count_free_ok [OF assms(1-3)] by (simp add: pop_step_def)

text \<open>
  The count is kept from one scan to the next, so the wait ends as soon as one host is free often
  enough.
\<close>

lemma pop_wait_ends:
  assumes "server_ok s" and "num_hosts s = int n" and "n \<le> 4" and f: "free_list s n \<noteq> []"
    and "pp_pc p = Pop_Wait t c"
  shows "\<exists>m. pop_run os malloc now m (s, p, out) = Inr (s, p\<lparr>pp_pc := Pop_Time t True\<rparr>, out)"
  using assms(5)
proof (induction "nat (tk_nreq t - c)" arbitrary: p c rule: less_induct)
  case less
  let ?c = "c + int (length (free_list s n))"
  have c: "c < ?c" using f by simp
  note step = pop_wait_step [OF assms(1-3) less.prems, of os malloc now]
  show ?case
  proof (cases "?c < tk_nreq t")
    case False
    then have "pop_run os malloc now 1 (s, p, out) = Inr (s, p\<lparr>pp_pc := Pop_Time t True\<rparr>, out)" using step by simp
    then show ?thesis by blast
  next
    case True
    let ?p = "p\<lparr>pp_pc := Pop_Wait t ?c\<rparr>"
    have "nat (tk_nreq t - ?c) < nat (tk_nreq t - c)" using True c by linarith
    from less.hyps [OF this, of ?p] obtain m where
      m: "pop_run os malloc now m (s, ?p, out) = Inr (s, p\<lparr>pp_pc := Pop_Time t True\<rparr>, out)" by auto
    have "pop_run os malloc now (Suc m) (s, p, out) = Inr (s, p\<lparr>pp_pc := Pop_Time t True\<rparr>, out)"
      using step True m by simp
    then show ?thesis by blast
  qed
qed

lemma first_free_ok:
  assumes "server_ok s" and "\<forall>k \<in> set ks. k < 5"
  shows "first_free (pcstat s) (map int ks) = Inr (case filter (\<lambda>k. pcstat s ! k = HOST_STAT_FREE) ks of
      [] \<Rightarrow> None | k # _ \<Rightarrow> Some (int k))"
  using assms(2) server_okD(4) [OF assms(1)]
  by (induction ks) auto

lemma upto_map_int: "[1..int n] = map int [1..<Suc n]"
proof (induction n)
  case (Suc n)
  then show ?case using upto_rec2 [of 1 "int (Suc n)"] by simp
qed simp

lemma assign_node_ok:
  assumes ok: "server_ok s" and n: "num_hosts s = int n" "n \<le> 4"
    and addrs: "\<forall>k. 1 \<le> k \<and> k \<le> n \<longrightarrow> host_addr os s (int k) (addr k)" and os: "sendto_ok os" "malloc_ok malloc"
    and comm: "cstrE command 0 = Inr comm" "length comm < 1000" and ints: "is_int32 jid" "is_int32 (local_id s)"
  shows "case free_list s n of
      [] \<Rightarrow> assign_node os malloc command jid s = Inr (s, [])
    | k # ks \<Rightarrow> \<exists>p. assign_node os malloc command jid s
          = Inr (s\<lparr>nodesstat := (nodesstat s)[k := jid], pcstat := (pcstat s)[k := HOST_STAT_BUSY]\<rparr>, [p])
        \<and> job_packet (addr k) jid comm p"
proof -
  have ff: "first_free (pcstat s) [1..num_hosts s] = Inr (case free_list s n of [] \<Rightarrow> None | k # _ \<Rightarrow> Some (int k))"
    unfolding n(1) upto_map_int free_list_def by (rule first_free_ok [OF ok]) (use n(2) in auto)
  show ?thesis
  proof (cases "free_list s n")
    case Nil
    with ff show ?thesis by (simp add: assign_node_def)
  next
    case (Cons k ks)
    then have "k \<in> set (free_list s n)" by simp
    then have k: "1 \<le> k" "k \<le> n" by (auto simp: free_list_def)
    let ?s = "s\<lparr>nodesstat := (nodesstat s)[k := jid], pcstat := (pcstat s)[k := HOST_STAT_BUSY]\<rparr>"
    have a: "host_addr os ?s (int k) (addr k)" using addrs k by (simp add: host_addr_def)
    have i: "is_int32 (int k)" "is_int32 (local_id ?s)" using k n(2) ints by (simp_all add: is_int32_def)
    from server_single_job_submit_ok [OF a os comm ints(1) i] obtain p where
      p: "server_single_job_submit os malloc (int k) command jid ?s = Inr [p]" "job_packet (addr k) jid comm p" by blast
    have r: "k < 5" using k n(2) by simp
    have "assign_node os malloc command jid s = Inr (?s, [p])"
      using ff Cons p(1) r server_okD(3,4) [OF ok] by (simp add: assign_node_def Let_def)
    with Cons p(2) show ?thesis by simp
  qed
qed

lemma free_list_busy:
  assumes "server_ok s" and "n \<le> 4" and "free_list s n = k # ks"
  shows "free_list (s\<lparr>nodesstat := ns, pcstat := (pcstat s)[k := HOST_STAT_BUSY]\<rparr>) n = ks"
proof -
  have d: "distinct (free_list s n)" by (simp add: free_list_def)
  then have k: "k \<notin> set ks" using assms(3) by simp
  have "free_list (s\<lparr>nodesstat := ns, pcstat := (pcstat s)[k := HOST_STAT_BUSY]\<rparr>) n
      = filter (\<lambda>j. j \<noteq> k) (free_list s n)"
  proof -
    have *: "(pcstat s)[k := HOST_STAT_BUSY] ! j = HOST_STAT_FREE \<longleftrightarrow> pcstat s ! j = HOST_STAT_FREE \<and> j \<noteq> k"
      if "j \<in> set [1..<Suc n]" for j
      using that server_okD(4) [OF assms(1)] assms(2) by (cases "j = k") (auto simp: host_stat_defs)
    show ?thesis unfolding free_list_def filter_filter by (intro filter_cong refl) (use * in simp)
  qed
  also have "\<dots> = ks" using assms(3) k by (auto simp: filter_id_conv)
  finally show ?thesis .
qed

text \<open>The state after the first \<open>d\<close> free hosts were given to a job.\<close>

definition gave :: "int \<Rightarrow> nat \<Rightarrow> nat \<Rightarrow> server \<Rightarrow> server \<Rightarrow> bool" where
  "gave jid n d s s' \<longleftrightarrow> server_ok s' \<and> num_hosts s' = num_hosts s \<and> ips s' = ips s \<and> local_id s' = local_id s
     \<and> jobnodes s' = jobnodes s \<and> jobq s' = jobq s \<and> job_head s' = job_head s \<and> job_tail s' = job_tail s
     \<and> free_list s' n = drop d (free_list s n)
     \<and> (\<forall>k. nodesstat s' ! k = (if k \<in> set (take d (free_list s n)) then jid else nodesstat s ! k))
     \<and> (\<forall>k. pcstat s' ! k = (if k \<in> set (take d (free_list s n)) then HOST_STAT_BUSY else pcstat s ! k))"

lemma gave_trans:
  assumes "gave jid n 1 s s1" and "gave jid n d s1 s2"
  shows "gave jid n (Suc d) s s2"
proof -
  have l: "free_list s1 n = drop 1 (free_list s n)" using assms(1) by (simp add: gave_def)
  have t: "set (take (Suc d) (free_list s n)) = set (take 1 (free_list s n)) \<union> set (take d (free_list s1 n))"
    unfolding l by (cases "free_list s n") simp_all
  have st: "nodesstat s2 ! k = (if k \<in> set (take (Suc d) (free_list s n)) then jid else nodesstat s ! k)"
    "pcstat s2 ! k = (if k \<in> set (take (Suc d) (free_list s n)) then HOST_STAT_BUSY else pcstat s ! k)" for k
    using assms unfolding gave_def t by simp_all
  have "free_list s2 n = drop (Suc d) (free_list s n)" using assms(2) l by (simp add: gave_def)
  with st show ?thesis using assms unfolding gave_def by simp
qed

lemma assign_node_gave:
  assumes ok: "server_ok s" and n: "num_hosts s = int n" "n \<le> 4"
    and addrs: "\<forall>k. 1 \<le> k \<and> k \<le> n \<longrightarrow> host_addr os s (int k) (addr k)" and os: "sendto_ok os" "malloc_ok malloc"
    and comm: "cstrE command 0 = Inr comm" "length comm < 1000" and ints: "is_int32 jid" "is_int32 (local_id s)"
  shows "\<exists>s' new. assign_node os malloc command jid s = Inr (s', new) \<and> gave jid n 1 s s'
    \<and> list_all2 (\<lambda>k q. job_packet (addr k) jid comm q) (take 1 (free_list s n)) new"
proof (cases "free_list s n")
  case Nil
  with assign_node_ok [OF assms] ok show ?thesis by (auto simp: gave_def)
next
  case (Cons k ks)
  let ?s = "s\<lparr>nodesstat := (nodesstat s)[k := jid], pcstat := (pcstat s)[k := HOST_STAT_BUSY]\<rparr>"
  from assign_node_ok [OF assms] Cons obtain q where q: "assign_node os malloc command jid s = Inr (?s, [q])"
    "job_packet (addr k) jid comm q" by auto
  have "k \<in> set (free_list s n)" using Cons by simp
  then have k: "k < 5" using n(2) by (auto simp: free_list_def)
  have "server_ok ?s" using ok by (simp add: server_ok_def)
  then have "gave jid n 1 s ?s"
    using Cons k free_list_busy [OF ok n(2) Cons] server_okD(3,4) [OF ok] by (auto simp: gave_def)
  with q Cons show ?thesis by auto
qed

text \<open>The assignment loop: as many nodes as there are free hosts, at most the number asked for.\<close>

lemma pop_assign_run:
  assumes n: "n \<le> 4" and os: "sendto_ok os" "malloc_ok malloc"
    and comm: "cstrE (pp_pcomm p) 0 = Inr comm" "length comm < 1000" and jid: "is_int32 (tk_job_id t)"
    and ok: "server_ok s" "num_hosts s = int n" "\<forall>k. 1 \<le> k \<and> k \<le> n \<longrightarrow> host_addr os s (int k) (addr k)"
      "is_int32 (local_id s)"
    and pc: "pp_pc p = Pop_Assign t i" "tk_nreq t = i + int m"
  shows "\<exists>s' new. pop_run os malloc now (Suc m) (s, p, out) = Inr (s', p\<lparr>pp_pc := Pop_Record t\<rparr>, out @ new)
    \<and> gave (tk_job_id t) n (Suc m) s s'
    \<and> list_all2 (\<lambda>k q. job_packet (addr k) (tk_job_id t) comm q) (take (Suc m) (free_list s n)) new"
  using ok comm(1) pc
proof (induction m arbitrary: s p i out)
  case 0
  from assign_node_gave [OF 0(1,2) n 0(3) os 0(5) comm(2) jid 0(4)] 0(6,7) show ?case
    by (auto simp: pop_step_def)
next
  case (Suc m)
  from assign_node_gave [OF Suc.prems(1,2) n Suc.prems(3) os Suc.prems(5) comm(2) jid Suc.prems(4)]
  obtain s1 new1 where s1: "assign_node os malloc (pp_pcomm p) (tk_job_id t) s = Inr (s1, new1)"
    "gave (tk_job_id t) n 1 s s1"
    "list_all2 (\<lambda>k q. job_packet (addr k) (tk_job_id t) comm q) (take 1 (free_list s n)) new1" by blast
  let ?p = "p\<lparr>pp_pc := Pop_Assign t (i + 1)\<rparr>"
  have g: "server_ok s1" "num_hosts s1 = int n" "\<forall>k. 1 \<le> k \<and> k \<le> n \<longrightarrow> host_addr os s1 (int k) (addr k)"
    "is_int32 (local_id s1)" "free_list s1 n = drop 1 (free_list s n)"
    using s1(2) Suc.prems(2-4) by (simp_all add: gave_def host_addr_def)
  have "tk_nreq t = (i + 1) + int m" using Suc.prems(7) by simp
  from Suc.IH [OF g(1-4), of ?p "i + 1" "out @ new1"] Suc.prems(5) this obtain s' new where
    s': "pop_run os malloc now (Suc m) (s1, ?p, out @ new1) = Inr (s', p\<lparr>pp_pc := Pop_Record t\<rparr>, (out @ new1) @ new)"
      "gave (tk_job_id t) n (Suc m) s1 s'"
      "list_all2 (\<lambda>k q. job_packet (addr k) (tk_job_id t) comm q) (take (Suc m) (free_list s1 n)) new"
    by auto
  have "pop_step os malloc now s p = Inr (s1, ?p, new1)" using s1(1) Suc.prems(6,7) by (simp add: pop_step_def)
  then have run: "pop_run os malloc now (Suc (Suc m)) (s, p, out) = Inr (s', p\<lparr>pp_pc := Pop_Record t\<rparr>, out @ new1 @ new)"
    using s'(1) by (subst pop_run.simps) simp
  have "take (Suc (Suc m)) (free_list s n) = take 1 (free_list s n) @ take (Suc m) (free_list s1 n)"
    using g(5) by (cases "free_list s n") simp_all
  then have "list_all2 (\<lambda>k q. job_packet (addr k) (tk_job_id t) comm q) (take (Suc (Suc m)) (free_list s n)) (new1 @ new)"
    using s1(3) s'(3) by (simp add: list_all2_appendI)
  with run gave_trans [OF s1(2) s'(2)] show ?case by blast
qed

lemma free_list_cong: "pcstat s' = pcstat s \<Longrightarrow> free_list s' n = free_list s n"
  by (simp add: free_list_def)

lemma dispatch_run:
  assumes ok: "server_ok s" and n: "num_hosts s = int n" "n \<le> 4"
    and addrs: "\<forall>k. 1 \<le> k \<and> k \<le> n \<longrightarrow> host_addr os s (int k) (addr k)" and os: "sendto_ok os" "malloc_ok malloc"
    and comm: "cstrE (pp_pcomm p) 0 = Inr comm" "length comm < 1000"
    and jid: "tk_job_id t = int J" "J < 32" "tk_slot t < 32" and r: "tk_nreq t = int r" "1 \<le> r"
    and lid: "is_int32 (local_id s)" and free: "free_list s n \<noteq> []" and pc: "pp_pc p = Pop_Wait t 0"
  shows "\<exists>m s' new. pop_run os malloc now m (s, p, []) = Inr (s', p\<lparr>pp_pc := Pop_Poll\<rparr>, new)
    \<and> list_all2 (\<lambda>k q. job_packet (addr k) (int J) comm q) (take r (free_list s n)) new
    \<and> server_ok s' \<and> jobnodes s' = (jobnodes s)[J := int r] \<and> free_list s' n = drop r (free_list s n)
    \<and> (\<forall>k. nodesstat s' ! k = (if k \<in> set (take r (free_list s n)) then int J else nodesstat s ! k))
    \<and> (\<forall>i. job_stat (jobq s' ! i) = job_stat (jobq s ! i)) \<and> local_id s' = local_id s
    \<and> (\<forall>i. job_id (jobq s' ! i) = job_id (jobq s ! i))"
proof -
  let ?j = "(jobq s ! tk_slot t)\<lparr>time2 := now\<rparr>"
  let ?s = "s\<lparr>jobq := (jobq s)[tk_slot t := ?j]\<rparr>"
  let ?p = "\<lambda>c. p\<lparr>pp_pc := c\<rparr>"
  from pop_wait_ends [OF ok n free pc] obtain m1 where
    m1: "pop_run os malloc now m1 (s, p, []) = Inr (s, ?p (Pop_Time t True), [])" by blast
  have "job_ok ?j" using server_ok_job [OF ok jid(3)] by (simp add: job_ok_def)
  then have ok1: "server_ok ?s" by (rule server_ok_jobq [OF ok])
  have time: "pop_step os malloc now s (?p (Pop_Time t True)) = Inr (?s, ?p (Pop_Assign t 1), [])"
    using server_okD(1) [OF ok] jid(3) r by (simp add: pop_step_def)
  have a: "\<forall>k. 1 \<le> k \<and> k \<le> n \<longrightarrow> host_addr os ?s (int k) (addr k)" using addrs by (simp add: host_addr_def)
  have i: "is_int32 (tk_job_id t)" using jid(1,2) by (simp add: is_int32_def)
  obtain d where d: "r = Suc d" using r(2) by (cases r) auto
  have q: "tk_nreq t = 1 + int d" using r(1) d by simp
  have f: "free_list ?s n = free_list s n" by (rule free_list_cong) simp
  from pop_assign_run [OF n(2) os, of "?p (Pop_Assign t 1)" comm t ?s addr 1 d now "[]"] comm i ok1 n(1) a lid q
  obtain s2 new where s2: "pop_run os malloc now r (?s, ?p (Pop_Assign t 1), []) = Inr (s2, ?p (Pop_Record t), new)"
    "gave (tk_job_id t) n r ?s s2"
    "list_all2 (\<lambda>k q. job_packet (addr k) (int J) comm q) (take r (free_list s n)) new"
    unfolding d f jid(1) by auto
  let ?s' = "s2\<lparr>jobnodes := (jobnodes s2)[J := int r]\<rparr>"
  have g: "server_ok s2" "jobnodes s2 = jobnodes s" "jobq s2 = jobq ?s" "free_list s2 n = drop r (free_list s n)"
    "\<forall>k. nodesstat s2 ! k = (if k \<in> set (take r (free_list s n)) then int J else nodesstat s ! k)"
    using s2(2) f jid(1) by (simp_all add: gave_def)
  have "pop_step os malloc now s2 (?p (Pop_Record t)) = Inr (?s', ?p Pop_Poll, [])"
    using server_okD(2) [OF g(1)] jid r(1) by (simp add: pop_step_def)
  then have last: "pop_run os malloc now 1 (s2, ?p (Pop_Record t), new) = Inr (?s', ?p Pop_Poll, new)" by simp
  have "pop_run os malloc now 1 (s, ?p (Pop_Time t True), []) = Inr (?s, ?p (Pop_Assign t 1), [])" using time by simp
  then have "pop_run os malloc now (m1 + (1 + (r + 1))) (s, p, []) = Inr (?s', ?p Pop_Poll, new)"
    using m1 s2(1) last by (simp only: pop_run_add bindE_simps)
  moreover have "server_ok ?s'" using server_ok_tables(1) [OF g(1)] by simp
  moreover have "free_list ?s' n = drop r (free_list s n)" using free_list_cong [of ?s' s2] g(4) by simp
  moreover have "job_stat (jobq ?s' ! k) = job_stat (jobq s ! k)" for k
    using g(3) server_okD(1) [OF ok] jid(3) by (cases "k = tk_slot t") simp_all
  moreover have "job_id (jobq ?s' ! k) = job_id (jobq s ! k)" for k
    using g(3) server_okD(1) [OF ok] jid(3) by (cases "k = tk_slot t") simp_all
  moreover have "local_id ?s' = local_id s" using s2(2) by (simp add: gave_def)
  ultimately show ?thesis using s2(3) g(2,5)
    by (intro exI [of _ "m1 + (1 + (r + 1))"] exI [of _ ?s'] exI [of _ new]) simp
qed

text \<open>
  C5. Dispatch. When at least one host is free and nobody interferes, the thread gets from waiting
  with a fresh count back to the queue in finitely many steps without a fault. It sends the job to
  the first free hosts in numerical order, as many as the job asked for or as there are, one
  message each, marks exactly these busy and assigned, and records the number asked for in
  \<^verbatim>\<open>jobnodes\<close>.
\<close>

theorem pop_dispatches:
  assumes ok: "server_ok s" and n: "num_hosts s = int n" "n \<le> 4"
    and addrs: "\<forall>k. 1 \<le> k \<and> k \<le> n \<longrightarrow> host_addr os s (int k) (addr k)" and os: "sendto_ok os" "malloc_ok malloc"
    and comm: "cstrE (pp_pcomm p) 0 = Inr comm" "length comm < 1000"
    and jid: "tk_job_id t = int J" "J < 32" "tk_slot t < 32" and r: "tk_nreq t = int r" "1 \<le> r"
    and lid: "is_int32 (local_id s)" and free: "free_list s n \<noteq> []" and pc: "pp_pc p = Pop_Wait t 0"
  shows "\<exists>m s' new. pop_run os malloc now m (s, p, []) = Inr (s', p\<lparr>pp_pc := Pop_Poll\<rparr>, new)
    \<and> list_all2 (\<lambda>k q. job_packet (addr k) (int J) comm q) (take r (free_list s n)) new
    \<and> server_ok s' \<and> jobnodes s' = (jobnodes s)[J := int r] \<and> free_list s' n = drop r (free_list s n)
    \<and> (\<forall>k. nodesstat s' ! k = (if k \<in> set (take r (free_list s n)) then int J else nodesstat s ! k))
    \<and> (\<forall>i. job_stat (jobq s' ! i) = job_stat (jobq s ! i))"
  using dispatch_run [OF assms] by blast

lemma example_free_list: "free_list example_server 2 = [1, 2]"
  by (simp add: free_list_def example_server_def upt_rec numeral_2_eq_2)

lemma pop_dispatches_witness:
  "\<exists>m s' p q. pop_run example_net (\<lambda>n. replicate n NUL) 9 m
      (example_server, \<lparr>pp_pc = Pop_Wait \<lparr>tk_slot = 3, tk_job_id = 3, tk_pcomm = [], tk_nreq = 2\<rparr> 0,
                        pp_pcomm = ''date'' @ replicate 28 NUL\<rparr>, []) =
        Inr (s', \<lparr>pp_pc = Pop_Poll, pp_pcomm = ''date'' @ replicate 28 NUL\<rparr>, [p, q])
    \<and> pk_addr p = ''n1'' \<and> pk_addr q = ''n2'' \<and> jobnodes s' ! 3 = 2 \<and> nodesstat s' ! 2 = 3"
proof -
  let ?t = "\<lparr>tk_slot = 3, tk_job_id = 3, tk_pcomm = [], tk_nreq = 2\<rparr>"
  let ?p = "\<lparr>pp_pc = Pop_Wait ?t 0, pp_pcomm = ''date'' @ replicate 28 NUL\<rparr>"
  have h: "(2::nat) \<le> 4" "cstrE (pp_pcomm ?p) 0 = Inr ''date''" "length ''date'' < 1000" "tk_job_id ?t = int 3"
    "(3::nat) < 32" "tk_slot ?t < 32" "tk_nreq ?t = int 2" "(1::nat) \<le> 2" "free_list example_server 2 \<noteq> []"
    "pp_pc ?p = Pop_Wait ?t 0"
    using example_command example_free_list by simp_all
  from pop_dispatches [OF example_facts(1,2) h(1) example_facts(4-6) h(2-8) example_facts(3) h(9,10), of 9]
  obtain m s' new where r: "pop_run example_net (\<lambda>n. replicate n NUL) 9 m (example_server, ?p, []) =
      Inr (s', ?p\<lparr>pp_pc := Pop_Poll\<rparr>, new)"
    "list_all2 (\<lambda>k q. job_packet (example_names k) (int 3) ''date'' q) [1, 2] new"
    "jobnodes s' = (jobnodes example_server)[3 := int 2]" "nodesstat s' ! 2 = int 3"
    using example_free_list by auto
  then obtain p q where "new = [p, q]" "pk_addr p = ''n1''" "pk_addr q = ''n2''"
    by (auto simp: list_all2_Cons1 job_packet_def example_names_def)
  with r show ?thesis using server_okD(2) [OF example_facts(1)]
    by (intro exI [of _ m] exI [of _ s'] exI [of _ p] exI [of _ q]) simp
qed

section \<open>Taking reports in\<close>

text \<open>A report as the node sends it: job \<open>J\<close> finished on host \<open>k\<close>.\<close>

definition finished_message :: "nat \<Rightarrow> nat \<Rightarrow> char list \<Rightarrow> char list" where
  "finished_message J k rest =
     header (msg_code MSG_TYPE_JOB_RETURN) (int k) 1 (int J) JOB_STAT_FINISHED 0 @ rest"

lemma take_result_finished:
  assumes ok: "server_ok s" and J: "J < 32" and k: "k < 5"
  shows "take_result now (finished_message J k rest) s =
    Inr (if jobnodes s ! J = 1
         then s\<lparr>pcstat := (pcstat s)[k := HOST_STAT_FREE], jobnodes := (jobnodes s)[J := 0],
                jobq := (jobq s)[J := (jobq s ! J)\<lparr>job_stat := JOB_STAT_FINISHED, time3 := now\<rparr>]\<rparr>
         else s\<lparr>pcstat := (pcstat s)[k := HOST_STAT_FREE], jobnodes := (jobnodes s)[J := jobnodes s ! J - 1]\<rparr>)"
proof -
  have i: "is_int32 (int k)" "is_int32 (int J)" "is_int32 JOB_STAT_FINISHED"
    using J k by (simp_all add: is_int32_def job_stat_defs)
  have g: "get_int (finished_message J k rest) 1 = Inr (int k)" "get_int (finished_message J k rest) 3 = Inr (int J)"
    "get_int (finished_message J k rest) 4 = Inr JOB_STAT_FINISHED"
    unfolding finished_message_def get_header using i by simp_all
  show ?thesis using g server_okD(1,2,4) [OF ok] J k unfolding take_result_def
    by (simp add: Let_def del: One_nat_def)
qed

definition take_reports :: "int \<Rightarrow> nat \<Rightarrow> nat list \<Rightarrow> server \<Rightarrow> server res" where
  "take_reports now J ks s = forE ks (\<lambda>k. take_result now (finished_message J k [])) s"

lemma reports_taken:
  assumes "server_ok s" and J: "J < 32" and "\<forall>k \<in> set ks. k < 5" and "jobnodes s ! J = int r"
    and "length ks \<le> r"
  shows "\<exists>s'. take_reports now J ks s = Inr s' \<and> server_ok s' \<and> jobnodes s' ! J = int (r - length ks)
    \<and> job_stat (jobq s' ! J) = (if length ks = r \<and> 0 < r then JOB_STAT_FINISHED else job_stat (jobq s ! J))
    \<and> (\<forall>k \<in> set ks. pcstat s' ! k = HOST_STAT_FREE)
    \<and> (\<forall>k. pcstat s ! k = HOST_STAT_FREE \<longrightarrow> pcstat s' ! k = HOST_STAT_FREE)
    \<and> (\<forall>i. i \<noteq> J \<longrightarrow> jobq s' ! i = jobq s ! i \<and> jobnodes s' ! i = jobnodes s ! i)
    \<and> job_id (jobq s' ! J) = job_id (jobq s ! J) \<and> local_id s' = local_id s"
  using assms(1,3-5)
proof (induction ks arbitrary: s r)
  case Nil
  then show ?case by (simp add: take_reports_def)
next
  case (Cons k ks)
  have k: "k < 5" and r: "0 < r" using Cons.prems by auto
  let ?d = "s\<lparr>pcstat := (pcstat s)[k := HOST_STAT_FREE], jobnodes := (jobnodes s)[J := int r - 1]\<rparr>"
  let ?f = "?d\<lparr>jobq := (jobq s)[J := (jobq s ! J)\<lparr>job_stat := JOB_STAT_FINISHED, time3 := now\<rparr>]\<rparr>"
  let ?s = "if r = 1 then ?f else ?d"
  have t: "take_result now (finished_message J k []) s = Inr ?s"
    using take_result_finished [OF Cons.prems(1) J k, of now "[]"] Cons.prems(3) by simp
  have d: "server_ok ?d" using Cons.prems(1) by (simp add: server_ok_def)
  have j: "job_ok ((jobq s ! J)\<lparr>job_stat := JOB_STAT_FINISHED, time3 := now\<rparr>)"
    using server_ok_job [OF Cons.prems(1) J] by (simp add: job_ok_def)
  have "jobq ?d = jobq s" by simp
  then have f: "server_ok ?f" using server_ok_jobq [OF d j, of J] by (simp only:)
  have ok: "server_ok ?s" using d f by (simp only: if_split simp_thms)
  have jn: "jobnodes ?s ! J = int (r - 1)" using server_okD(2) [OF Cons.prems(1)] J r by simp
  have st: "job_stat (jobq ?s ! J) = (if r = 1 then JOB_STAT_FINISHED else job_stat (jobq s ! J))"
    using server_okD(1) [OF Cons.prems(1)] J by simp
  have pc: "pcstat ?s ! k = HOST_STAT_FREE" "\<forall>i. pcstat s ! i = HOST_STAT_FREE \<longrightarrow> pcstat ?s ! i = HOST_STAT_FREE"
    using server_okD(4) [OF Cons.prems(1)] k by (auto simp: nth_list_update)
  have other: "\<forall>i. i \<noteq> J \<longrightarrow> jobq ?s ! i = jobq s ! i \<and> jobnodes ?s ! i = jobnodes s ! i" by simp
  have "\<forall>k \<in> set ks. k < 5" "length ks \<le> r - 1" using Cons.prems by auto
  from Cons.IH [OF ok this(1) jn this(2)] obtain s' where
    s': "take_reports now J ks ?s = Inr s'" "server_ok s'" "jobnodes s' ! J = int (r - 1 - length ks)"
      "job_stat (jobq s' ! J) = (if length ks = r - 1 \<and> 0 < r - 1 then JOB_STAT_FINISHED else job_stat (jobq ?s ! J))"
      "\<forall>k \<in> set ks. pcstat s' ! k = HOST_STAT_FREE"
      "\<forall>k. pcstat ?s ! k = HOST_STAT_FREE \<longrightarrow> pcstat s' ! k = HOST_STAT_FREE"
      "\<forall>i. i \<noteq> J \<longrightarrow> jobq s' ! i = jobq ?s ! i \<and> jobnodes s' ! i = jobnodes ?s ! i"
      "job_id (jobq s' ! J) = job_id (jobq ?s ! J)" "local_id s' = local_id ?s" by blast
  have "take_reports now J (k # ks) s = Inr s'" using t s'(1) by (simp only: take_reports_def forE.simps bindE_simps)
  moreover have "job_stat (jobq s' ! J) = (if length (k # ks) = r \<and> 0 < r then JOB_STAT_FINISHED else job_stat (jobq s ! J))"
    using s'(4) st r \<open>length ks \<le> r - 1\<close> by auto
  moreover have "job_id (jobq ?s ! J) = job_id (jobq s ! J)" using server_okD(1) [OF Cons.prems(1)] J by simp
  ultimately show ?case using s'(2,3,5-9) pc other by (intro exI [of _ s']) simp
qed

text \<open>
  C6. Completion. A job for which \<open>r\<close> nodes were recorded becomes finished with its \<open>r\<close>-th report
  and not before; each report frees the host it came from; other jobs are left alone.
\<close>

theorem reports_finish_job:
  assumes "server_ok s" and J: "J < 32" and "\<forall>k \<in> set ks. k < 5" and "jobnodes s ! J = int r"
    and "length ks \<le> r"
  shows "\<exists>s'. take_reports now J ks s = Inr s' \<and> server_ok s' \<and> jobnodes s' ! J = int (r - length ks)
    \<and> job_stat (jobq s' ! J) = (if length ks = r \<and> 0 < r then JOB_STAT_FINISHED else job_stat (jobq s ! J))
    \<and> (\<forall>k \<in> set ks. pcstat s' ! k = HOST_STAT_FREE)
    \<and> (\<forall>k. pcstat s ! k = HOST_STAT_FREE \<longrightarrow> pcstat s' ! k = HOST_STAT_FREE)
    \<and> (\<forall>i. i \<noteq> J \<longrightarrow> jobq s' ! i = jobq s ! i \<and> jobnodes s' ! i = jobnodes s ! i)"
  using reports_taken [OF assms] by blast

lemma reports_finish_job_witness:
  "\<exists>s'. take_reports 5 3 [1, 2] (example_server\<lparr>jobnodes := (jobnodes example_server)[3 := 2]\<rparr>) = Inr s'
    \<and> job_stat (jobq s' ! 3) = JOB_STAT_FINISHED"
proof -
  let ?s = "example_server\<lparr>jobnodes := (jobnodes example_server)[3 := 2]\<rparr>"
  have "server_ok ?s" by (rule server_ok_tables(1) [OF example_facts(1)])
  moreover have "(3::nat) < 32" "\<forall>k \<in> set [1, 2]. k < (5::nat)" "length [1, 2::nat] \<le> 2" by simp_all
  moreover have "jobnodes ?s ! 3 = int 2" using server_okD(2) [OF example_facts(1)] by simp
  ultimately show ?thesis using reports_finish_job [of ?s 3 "[1, 2]" 2 5] by auto
qed

end
