(* ===== verification/Host_Table.thy ===== *)
theory Host_Table
  imports Server_State "HOL-Library.Sublist"
begin

text \<open>
  \<^verbatim>\<open>libhost.c\<close>: the configuration file with its \<^verbatim>\<open><host>...</host>\<close> entries, the host
  tables built from it, and the lookups. The file's bytes, the buffer contents before
  \<^verbatim>\<open>read\<close>, the allocations and the address of the local machine are arguments.
\<close>

section \<open>Searching and comparing\<close>

fun find_sub :: "'a list \<Rightarrow> 'a list \<Rightarrow> nat option" where
  "find_sub needle [] = (if needle = [] then Some 0 else None)"
| "find_sub needle (c # cs) =
     (if take (length needle) (c # cs) = needle then Some 0 else map_option Suc (find_sub needle cs))"

text \<open>
  \<^verbatim>\<open>strstr(b + off, needle)\<close>, as an offset into \<open>b\<close>; searching past the end of an allocation
  that holds no NUL is a fault.
\<close>

definition strstrE :: "char list \<Rightarrow> nat \<Rightarrow> string \<Rightarrow> nat option res" where
  "strstrE b off needle =
     (case find_sub needle (c_str_of (drop off b)) of
        Some k \<Rightarrow> Inr (Some (off + k))
      | None \<Rightarrow> if NUL \<in> set (drop off b) then Inr None else Inl Out_Of_Bounds)"

lemma find_sub_bound: "find_sub needle s = Some k \<Longrightarrow> k + length needle \<le> length s"
proof (induction s arbitrary: k)
  case Nil
  then show ?case by (auto split: if_splits)
next
  case (Cons c s)
  show ?case
  proof (cases "take (length needle) (c # s) = needle")
    case True
    then have "length needle \<le> length (c # s)" by (metis length_take min.absorb_iff2 min.cobounded1)
    with Cons True show ?thesis by simp
  next
    case False
    with Cons show ?thesis by auto
  qed
qed

section \<open>The configuration file\<close>

text \<open>
  One entry: the offsets of the name and of its end, the pointers \<^verbatim>\<open>p1\<close> and \<^verbatim>\<open>p2\<close> of
  \<^verbatim>\<open>read_host_config_file\<close>; \<^const>\<open>None\<close> where the loop breaks.
\<close>

definition next_host :: "char list \<Rightarrow> nat \<Rightarrow> (nat \<times> nat) option res" where
  "next_host rbuffer p =
     bindE (strstrE rbuffer p ''<host>'') (\<lambda>r1. case r1 of None \<Rightarrow> Inr None | Some q \<Rightarrow>
       let p1 = q + 6 in
       bindE (strstrE rbuffer p1 ''</host>'') (\<lambda>r2. case r2 of None \<Rightarrow> Inr None | Some p2 \<Rightarrow>
         Inr (Some (p1, p2))))"

text \<open>
  \<^verbatim>\<open>memcpy\<close> of the name into the entry's allocation and its terminator, for one of the two tables.
\<close>

definition set_name :: "char list option list \<Rightarrow> int \<Rightarrow> char list \<Rightarrow> char list option list res" where
  "set_name tab i name =
     bindE (nthE tab i) (\<lambda>p. case p of None \<Rightarrow> Inl Null_Deref | Some a \<Rightarrow>
       bindE (put_cstr a name) (\<lambda>a'. updE tab i (Some a')))"

text \<open>
  The loop: \<open>i\<close> is the next entry, \<open>nbytes\<close> what is left of the file by its own count. It
  returns the tables and the final \<open>i\<close>.
\<close>

function read_hosts ::
  "char list \<Rightarrow> int \<Rightarrow> nat \<Rightarrow> int \<Rightarrow> char list option list \<Rightarrow> char list option list \<Rightarrow>
   (int \<times> char list option list \<times> char list option list) res" where
  "read_hosts rbuffer nbytes p i htab itab =
     (if \<not> nbytes > 13 then Inr (i, htab, itab)
      else bindE (next_host rbuffer p) (\<lambda>r. case r of
          None \<Rightarrow> Inr (i, htab, itab)
        | Some (p1, p2) \<Rightarrow>
            let name = take (p2 - p1) (drop p1 rbuffer) in
            bindE (set_name htab i name) (\<lambda>htab'.
            bindE (set_name itab i name) (\<lambda>itab'.
              read_hosts rbuffer (nbytes - (int (p2 - p1) + 13)) (p2 + 7) (i + 1) htab' itab'))))"
  by pat_completeness auto
termination
  by (relation "measure (\<lambda>(rbuffer, nbytes, p, i, htab, itab). nat nbytes)") auto

declare read_hosts.simps [simp del]

text \<open>
  The loop that finds the local machine: every entry of which the local address is a prefix is
  taken, so the last one stays.
\<close>

definition local_match :: "string \<Rightarrow> char list option list \<Rightarrow> int \<Rightarrow> bool res" where
  "local_match my_ip htab i =
     bindE (nthE htab i) (\<lambda>p. case p of None \<Rightarrow> Inl Null_Deref | Some a \<Rightarrow>
       bindE (loadE a 0 (length my_ip)) (\<lambda>bs. Inr (bs = my_ip)))"

definition find_local_id :: "string \<Rightarrow> char list option list \<Rightarrow> int \<Rightarrow> int res" where
  "find_local_id my_ip htab nhosts =
     forE [1..nhosts] (\<lambda>i l. bindE (local_match my_ip htab i) (\<lambda>m. Inr (if m then i else l))) (-1)"

text \<open>The tables before the loop: fresh 64-byte allocations, then entry 0 set to a null pointer.\<close>

definition empty_table :: "char list \<Rightarrow> char list option list" where
  "empty_table fresh = None # replicate MAX_NUM_HOSTS (Some fresh)"

text \<open>
  \<^verbatim>\<open>read_host_config_file\<close>. \<open>file\<close> is \<^const>\<open>None\<close> when \<^verbatim>\<open>open\<close> fails; \<open>stack\<close> the 1024 bytes of
  \<^verbatim>\<open>rbuffer\<close> before the \<^verbatim>\<open>read\<close>; \<open>fresh\<close> the contents of a 64-byte allocation; \<open>my_ip\<close> the
  address of the local machine as text, \<^const>\<open>None\<close> when the resolver does not know it.
\<close>

definition read_host_config_file ::
  "char list option \<Rightarrow> char list \<Rightarrow> char list \<Rightarrow> string option \<Rightarrow> server \<Rightarrow> server res" where
  "read_host_config_file file stack fresh my_ip s =
     (case file of
        None \<Rightarrow> Inl (Exit_Process (-1))
      | Some content \<Rightarrow>
          let got = take 1024 content;
              rbuffer = got @ drop (length got) stack;
              table = empty_table fresh in
          bindE (read_hosts rbuffer (int (length got)) 0 1 table table) (\<lambda>(i, hosts', ips').
          case my_ip of None \<Rightarrow> Inl Null_Deref | Some ip_str \<Rightarrow>
          bindE (find_local_id ip_str hosts' (i - 1)) (\<lambda>l.
            if l = -1 then Inl (Exit_Process (-1))
            else Inr (s\<lparr>local_id := l, num_hosts := i - 1, hosts := hosts', ips := ips'\<rparr>))))"

section \<open>Lookups and initialisation\<close>

text \<open>\<^verbatim>\<open>get_host_ip\<close>: a null pointer outside \<open>1..num_hosts\<close>.\<close>

definition get_host_ip :: "server \<Rightarrow> int \<Rightarrow> char list option res" where
  "get_host_ip s dist_id =
     (if dist_id > num_hosts s \<or> dist_id \<le> 0 then Inr None else nthE (ips s) dist_id)"

text \<open>
  \<^verbatim>\<open>hostq_init\<close>: it walks all \<^const>\<open>MAX_NUM_HOSTS\<close> entries, the ones no host was read into too.
  The copy is as long as the source's string, so no terminator is written.
\<close>

definition hostq_init_entry :: "int \<Rightarrow> server \<Rightarrow> server res" where
  "hostq_init_entry i s =
     bindE (ptr_cstr (ips s) i) (\<lambda>name.
     bindE (nthE (hostq s) i) (\<lambda>h.
     bindE (strncpyE (ip h) name (length name)) (\<lambda>ip'.
     bindE (updE (hostq s) i (h\<lparr>host_id := i, host_stat := HOST_STAT_ONLINE, ip := ip'\<rparr>)) (\<lambda>q.
       Inr (s\<lparr>hostq := q\<rparr>)))))"

definition hostq_init :: "server \<Rightarrow> server res" where
  "hostq_init s = forE [1..int MAX_NUM_HOSTS] hostq_init_entry
     (s\<lparr>pcstat := replicate MAX_NUM_HOSTS HOST_STAT_ONLINE\<rparr>)"

text \<open>
  What \<^verbatim>\<open>epbs_host_status\<close> does with a received message: the status goes to the entry the
  message names.
\<close>

definition host_status_update :: "char list \<Rightarrow> server \<Rightarrow> server res" where
  "host_status_update recv_buffer s =
     bindE (get_int recv_buffer 3) (\<lambda>hid.
     bindE (get_int recv_buffer 4) (\<lambda>status.
     bindE (nthE (hostq s) hid) (\<lambda>h.
     bindE (updE (hostq s) hid (h\<lparr>host_stat := status\<rparr>)) (\<lambda>q. Inr (s\<lparr>hostq := q\<rparr>)))))"

section \<open>Reading back a configuration\<close>

definition host_entry :: "string \<Rightarrow> string" where
  "host_entry name = ''<host>'' @ name @ ''</host>''"

definition host_name_ok :: "string \<Rightarrow> bool" where
  "host_name_ok n \<longleftrightarrow> n \<noteq> [] \<and> length n < 64 \<and> no_nul n \<and> CHR ''<'' \<notin> set n"

lemma c_str_of_prefix: "no_nul xs \<Longrightarrow> c_str_of (xs @ ys) = xs @ c_str_of ys"
  by (induction xs) (auto simp: c_str_of_def)

lemma find_sub_here: "find_sub needle (needle @ ys) = Some 0"
proof (cases "needle @ ys")
  case (Cons c cs)
  then have "take (length needle) (c # cs) = needle" by (metis append_eq_conv_conj)
  with Cons show ?thesis by simp
qed simp

lemma find_sub_skip: "c \<notin> set n \<Longrightarrow> find_sub (c # needle) (n @ (c # needle) @ ys) = Some (length n)"
  by (induction n) auto

lemma next_host_entry:
  assumes "host_name_ok n"
  shows "next_host (pre @ host_entry n @ rest) (length pre) = Inr (Some (length pre + 6, length pre + 6 + length n))"
proof -
  have lt: "CHR ''<'' \<noteq> NUL" "no_nul ''<host>''" "no_nul ''</host>''"
    by (simp_all add: NUL_def no_nul_def)
  have 1: "strstrE (pre @ host_entry n @ rest) (length pre) ''<host>'' = Inr (Some (length pre))"
    using c_str_of_prefix [OF lt(2), of "n @ ''</host>'' @ rest"] find_sub_here [of "''<host>''"]
    by (simp add: strstrE_def host_entry_def)
  have "drop (length pre + 6) (pre @ host_entry n @ rest) = n @ ''</host>'' @ rest"
    by (simp add: host_entry_def)
  moreover have "c_str_of (n @ ''</host>'' @ rest) = n @ ''</host>'' @ c_str_of rest"
    using assms c_str_of_prefix [of "n @ ''</host>''" rest] lt by (simp add: host_name_ok_def)
  moreover have "find_sub ''</host>'' (n @ ''</host>'' @ c_str_of rest) = Some (length n)"
    using assms find_sub_skip [of "CHR ''<''" n "''/host>''"] by (simp add: host_name_ok_def)
  ultimately have "strstrE (pre @ host_entry n @ rest) (length pre + 6) ''</host>''
      = Inr (Some (length pre + 6 + length n))"
    by (simp add: strstrE_def)
  with 1 show ?thesis by (simp add: next_host_def Let_def)
qed

text \<open>A table of allocations that each hold at least 64 bytes.\<close>

definition table_ok :: "char list option list \<Rightarrow> bool" where
  "table_ok tab \<longleftrightarrow> length tab = 6 \<and> (\<forall>k. 1 \<le> k \<and> k < 6 \<longrightarrow> (\<exists>a. tab ! k = Some a \<and> length a = 64))"

lemma set_name_ok:
  assumes "table_ok tab" and "1 \<le> i" and "i < 6" and "host_name_ok n"
  shows "\<exists>a. set_name tab (int i) n = Inr (tab[i := Some a]) \<and> table_ok (tab[i := Some a])
    \<and> ptr_cstr (tab[i := Some a]) (int i) = Inr n"
proof -
  obtain a where a: "tab ! i = Some a" "length a = 64" "length tab = 6"
    using assms by (auto simp: table_ok_def)
  have l: "length n < 64" "no_nul n" using assms(4) by (simp_all add: host_name_ok_def)
  let ?a = "n @ NUL # drop (Suc (length n)) a"
  have "set_name tab (int i) n = Inr (tab[i := Some ?a])"
    using a l assms(3) by (simp add: set_name_def put_cstr_in)
  moreover have "table_ok (tab[i := Some ?a])"
  proof -
    have "\<exists>b. tab[i := Some ?a] ! k = Some b \<and> length b = 64" if k: "1 \<le> k \<and> k < 6" for k
    proof (cases "k = i")
      case True
      then show ?thesis using a l k by simp
    next
      case False
      then show ?thesis using assms(1) k by (simp add: table_ok_def)
    qed
    then show ?thesis using a(3) by (simp add: table_ok_def)
  qed
  moreover have "ptr_cstr (tab[i := Some ?a]) (int i) = Inr n"
    using a l assms(3) cstrE_append [of n "[]" "drop (Suc (length n)) a"]
    by (simp add: ptr_cstr_def)
  ultimately show ?thesis by blast
qed

lemma set_name_full: "table_ok tab \<Longrightarrow> set_name tab 6 n = Inl Out_Of_Bounds"
  by (simp add: set_name_def table_ok_def nthE_def in_range_def)

text \<open>The entries \<open>i, i+1, \<dots>\<close> of a table hold the names, the ones below \<open>i\<close> are as before.\<close>

definition names_at :: "char list option list \<Rightarrow> nat \<Rightarrow> string list \<Rightarrow> bool" where
  "names_at tab i ns \<longleftrightarrow> (\<forall>k < length ns. ptr_cstr tab (int (i + k)) = Inr (ns ! k))"

lemma names_at_Cons: "names_at tab i (n # ns) \<longleftrightarrow> ptr_cstr tab (int i) = Inr n \<and> names_at tab (Suc i) ns"
proof -
  have "names_at tab i (n # ns) \<longleftrightarrow> (\<forall>k < Suc (length ns). ptr_cstr tab (int (i + k)) = Inr ((n # ns) ! k))"
    by (simp add: names_at_def)
  also have "\<dots> \<longleftrightarrow> ptr_cstr tab (int i) = Inr n \<and> (\<forall>k < length ns. ptr_cstr tab (int (Suc i + k)) = Inr (ns ! k))"
    unfolding All_less_Suc2 by simp
  finally show ?thesis by (simp add: names_at_def)
qed

lemma ptr_cstr_cong: "tab ! k = tab' ! k \<Longrightarrow> length tab = length tab' \<Longrightarrow>
    ptr_cstr tab (int k) = ptr_cstr tab' (int k)"
  by (simp add: ptr_cstr_def nthE_def)

lemma read_hosts_step:
  assumes "host_name_ok n" and "table_ok htab" and "table_ok itab" and "1 \<le> i"
    and b: "b = pre @ host_entry n @ rest" and "nb > 13"
  shows "i < 6 \<Longrightarrow> \<exists>a a'. read_hosts b nb (length pre) (int i) htab itab =
      read_hosts b (nb - int (length (host_entry n))) (length (pre @ host_entry n)) (int (Suc i))
        (htab[i := Some a]) (itab[i := Some a'])
    \<and> table_ok (htab[i := Some a]) \<and> ptr_cstr (htab[i := Some a]) (int i) = Inr n
    \<and> table_ok (itab[i := Some a']) \<and> ptr_cstr (itab[i := Some a']) (int i) = Inr n"
    and "i = 6 \<Longrightarrow> read_hosts b nb (length pre) (int i) htab itab = Inl Out_Of_Bounds"
proof -
  have nh: "next_host b (length pre) = Inr (Some (length pre + 6, length pre + 6 + length n))"
    unfolding b using next_host_entry [OF assms(1)] .
  have name: "take (length n) (drop (length pre + 6) b) = n" by (simp add: b host_entry_def)
  have sizes: "int (length (host_entry n)) = int (length n) + 13"
    "length (pre @ host_entry n) = length pre + 6 + length n + 7" by (simp_all add: host_entry_def)
  show "read_hosts b nb (length pre) (int i) htab itab = Inl Out_Of_Bounds" if "i = 6"
    using that nh assms(6) set_name_full [OF assms(2)]
    by (subst read_hosts.simps) (simp add: Let_def)
  show "\<exists>a a'. read_hosts b nb (length pre) (int i) htab itab =
      read_hosts b (nb - int (length (host_entry n))) (length (pre @ host_entry n)) (int (Suc i))
        (htab[i := Some a]) (itab[i := Some a'])
    \<and> table_ok (htab[i := Some a]) \<and> ptr_cstr (htab[i := Some a]) (int i) = Inr n
    \<and> table_ok (itab[i := Some a']) \<and> ptr_cstr (itab[i := Some a']) (int i) = Inr n" if i: "i < 6"
  proof -
    from set_name_ok [OF assms(2,4) i assms(1)] obtain a where
      a: "set_name htab (int i) n = Inr (htab[i := Some a])" "table_ok (htab[i := Some a])"
        "ptr_cstr (htab[i := Some a]) (int i) = Inr n" by blast
    from set_name_ok [OF assms(3,4) i assms(1)] obtain a' where
      a': "set_name itab (int i) n = Inr (itab[i := Some a'])" "table_ok (itab[i := Some a'])"
        "ptr_cstr (itab[i := Some a']) (int i) = Inr n" by blast
    have "read_hosts b nb (length pre) (int i) htab itab =
      read_hosts b (nb - (int (length n) + 13)) (length pre + 6 + length n + 7) (int i + 1)
        (htab[i := Some a]) (itab[i := Some a'])"
      using nh name a(1) a'(1) assms(6) by (subst read_hosts.simps) (simp add: Let_def)
    then show ?thesis using a a' sizes by (metis of_nat_Suc add.commute)
  qed
qed

lemma read_hosts_entries:
  assumes "\<forall>n \<in> set ns. host_name_ok n" and "table_ok htab" and "table_ok itab"
    and "1 \<le> i" and "i + length ns \<le> 6" and "0 \<le> e"
  shows "\<exists>htab' itab'. read_hosts (pre @ concat (map host_entry ns) @ rest)
      (int (length (concat (map host_entry ns))) + e) (length pre) (int i) htab itab
      = read_hosts (pre @ concat (map host_entry ns) @ rest) e
          (length (pre @ concat (map host_entry ns))) (int (i + length ns)) htab' itab'
    \<and> names_at htab' i ns \<and> names_at itab' i ns
    \<and> (\<forall>k < i. htab' ! k = htab ! k \<and> itab' ! k = itab ! k) \<and> table_ok htab' \<and> table_ok itab'"
  using assms
proof (induction ns arbitrary: pre i htab itab)
  case Nil
  then show ?case by (auto simp: names_at_def)
next
  case (Cons n ns)
  let ?rest = "concat (map host_entry ns) @ rest"
  let ?b = "pre @ host_entry n @ ?rest"
  let ?nb = "int (length (concat (map host_entry (n # ns)))) + e"
  have n: "host_name_ok n" and i: "i < 6" using Cons.prems by simp_all
  have nb: "?nb > 13" using n \<open>0 \<le> e\<close> by (cases n) (simp_all add: host_name_ok_def host_entry_def)
  from read_hosts_step(1) [OF n Cons.prems(2,3,4) refl nb i, of pre ?rest] obtain a a' where
    step: "read_hosts ?b ?nb (length pre) (int i) htab itab =
      read_hosts ?b (?nb - int (length (host_entry n))) (length (pre @ host_entry n)) (int (Suc i))
        (htab[i := Some a]) (itab[i := Some a'])"
    and t: "table_ok (htab[i := Some a])" "ptr_cstr (htab[i := Some a]) (int i) = Inr n"
      "table_ok (itab[i := Some a'])" "ptr_cstr (itab[i := Some a']) (int i) = Inr n" by blast
  from Cons.IH [OF _ t(1,3), of "Suc i" "pre @ host_entry n"] Cons.prems obtain htab' itab' where
    IH: "read_hosts ((pre @ host_entry n) @ ?rest)
      (int (length (concat (map host_entry ns))) + e) (length (pre @ host_entry n)) (int (Suc i))
        (htab[i := Some a]) (itab[i := Some a']) =
      read_hosts ((pre @ host_entry n) @ ?rest) e
        (length ((pre @ host_entry n) @ concat (map host_entry ns))) (int (Suc i + length ns)) htab' itab'"
      "names_at htab' (Suc i) ns" "names_at itab' (Suc i) ns"
      "\<forall>k < Suc i. htab' ! k = htab[i := Some a] ! k \<and> itab' ! k = itab[i := Some a'] ! k"
      "table_ok htab'" "table_ok itab'" by auto
  have at_i: "ptr_cstr htab' (int i) = Inr n" "ptr_cstr itab' (int i) = Inr n"
    using t IH(4,5,6) ptr_cstr_cong [of htab' i "htab[i := Some a]"]
      ptr_cstr_cong [of itab' i "itab[i := Some a']"] by (auto simp: table_ok_def)
  have "?nb - int (length (host_entry n)) = int (length (concat (map host_entry ns))) + e" by simp
  then have "read_hosts ?b ?nb (length pre) (int i) htab itab = read_hosts ?b e
      (length (pre @ concat (map host_entry (n # ns)))) (int (i + length (n # ns))) htab' itab'"
    using step IH(1) by (simp add: add.assoc)
  moreover have "\<forall>k < i. htab' ! k = htab ! k \<and> itab' ! k = itab ! k" using IH(4) by simp
  ultimately show ?case using IH(2,3,5,6) at_i
    by (intro exI [of _ htab'] exI [of _ itab']) (simp add: names_at_Cons)
qed

lemma table_ok_empty: "length fresh = 64 \<Longrightarrow> table_ok (empty_table fresh)"
  by (auto simp: table_ok_def empty_table_def nth_Cons split: nat.splits)

text \<open>
  C33. A configuration file of at most five entries, each name non-empty, shorter than 64 bytes
  and without \<^verbatim>\<open><\<close> or NUL, followed by at most 13 more bytes, is read back exactly, whatever the
  buffer held before: both tables hold the names in order from entry 1, the null entry 0 stays,
  and the counter ends one past the last entry.
\<close>

theorem read_hosts_roundtrip:
  assumes names: "\<forall>n \<in> set ns. host_name_ok n" and len: "length ns \<le> 5"
    and fresh: "length fresh = 64" and t: "length trail \<le> 13"
  shows "\<exists>htab itab. read_hosts (concat (map host_entry ns) @ trail @ stack)
      (int (length (concat (map host_entry ns) @ trail))) 0 1 (empty_table fresh) (empty_table fresh)
      = Inr (int (length ns) + 1, htab, itab)
    \<and> names_at htab 1 ns \<and> names_at itab 1 ns \<and> htab ! 0 = None \<and> itab ! 0 = None"
proof -
  note e = table_ok_empty [OF fresh]
  have stop: "read_hosts b (int (length trail)) p i h t = Inr (i, h, t)" for b p i h t
    using \<open>length trail \<le> 13\<close> by (subst read_hosts.simps) simp
  from read_hosts_entries [OF names e e, of 1 "int (length trail)" "[]" "trail @ stack"] len
  show ?thesis by (auto simp: stop empty_table_def)
qed

text \<open>
  The tables have room for five hosts and nothing checks the count: a configuration with a
  sixth entry makes the reader write outside them, whatever the names are.
\<close>

lemma read_hosts_six_overflow:
  assumes names: "\<forall>n \<in> set ns. host_name_ok n" and five: "length ns = 5" and n: "host_name_ok n"
    and fresh: "length fresh = 64"
  shows "read_hosts (concat (map host_entry ns) @ host_entry n @ stack)
      (int (length (concat (map host_entry ns) @ host_entry n @ trail))) 0 1
      (empty_table fresh) (empty_table fresh) = Inl Out_Of_Bounds"
proof -
  note e = table_ok_empty [OF fresh]
  let ?b = "concat (map host_entry ns) @ host_entry n @ stack"
  let ?e = "int (length (host_entry n @ trail))"
  have "?e > 13" using n by (cases n) (simp_all add: host_name_ok_def host_entry_def)
  from read_hosts_entries [OF names e e, of 1 ?e "[]" "host_entry n @ stack"] five obtain h t where
    ht: "read_hosts ?b (int (length (concat (map host_entry ns))) + ?e) 0 1 (empty_table fresh)
      (empty_table fresh) = read_hosts ?b ?e (length (concat (map host_entry ns))) 6 h t"
      "table_ok h" "table_ok t" by auto
  have "read_hosts ?b ?e (length (concat (map host_entry ns))) (int 6) h t = Inl Out_Of_Bounds"
    by (rule read_hosts_step(2) [OF n ht(2,3) _ refl \<open>?e > 13\<close>]) simp_all
  with ht(1) show ?thesis by (simp add: add.assoc)
qed

lemma read_hosts_roundtrip_witness:
  "\<exists>htab itab. read_hosts (concat (map host_entry [''10.0.0.1'', ''10.0.0.2'']) @ [CHR 0x0A] @ [])
      (int (length (concat (map host_entry [''10.0.0.1'', ''10.0.0.2'']) @ [CHR 0x0A]))) 0 1
      (empty_table (replicate 64 NUL)) (empty_table (replicate 64 NUL)) = Inr (3, htab, itab)
    \<and> ptr_cstr htab 1 = Inr ''10.0.0.1'' \<and> ptr_cstr itab 2 = Inr ''10.0.0.2''"
proof -
  have names: "\<forall>n \<in> set [''10.0.0.1'', ''10.0.0.2'']. host_name_ok n"
    by (simp add: host_name_ok_def no_nul_def NUL_def)
  have side: "length [''10.0.0.1'', ''10.0.0.2''] \<le> 5" "length (replicate 64 NUL) = 64"
    "length [CHR 0x0A] \<le> 13" by simp_all
  from read_hosts_roundtrip [OF names side, of "[]"] obtain h t where
    ht: "read_hosts (concat (map host_entry [''10.0.0.1'', ''10.0.0.2'']) @ [CHR 0x0A] @ [])
      (int (length (concat (map host_entry [''10.0.0.1'', ''10.0.0.2'']) @ [CHR 0x0A]))) 0 1
      (empty_table (replicate 64 NUL)) (empty_table (replicate 64 NUL))
        = Inr (int (length [''10.0.0.1'', ''10.0.0.2'']) + 1, h, t)"
      "names_at h 1 [''10.0.0.1'', ''10.0.0.2'']" "names_at t 1 [''10.0.0.1'', ''10.0.0.2'']"
    by blast
  then have "ptr_cstr h 1 = Inr ''10.0.0.1''" "ptr_cstr t 2 = Inr ''10.0.0.2''"
    by (simp_all add: names_at_Cons)
  with ht(1) show ?thesis by auto
qed

lemma read_hosts_six_overflow_witness:
  "read_hosts (concat (map host_entry (replicate 5 ''h'')) @ host_entry ''x'' @ [])
      (int (length (concat (map host_entry (replicate 5 ''h'')) @ host_entry ''x'' @ []))) 0 1
      (empty_table (replicate 64 NUL)) (empty_table (replicate 64 NUL)) = Inl Out_Of_Bounds"
  by (rule read_hosts_six_overflow) (simp_all add: host_name_ok_def no_nul_def NUL_def)

section \<open>Finding the local machine\<close>

lemma take_eq_prefix:
  assumes "NUL \<in> set a" and "no_nul ip_str"
  shows "take (length ip_str) a = ip_str \<longleftrightarrow> prefix ip_str (c_str_of a)"
proof -
  obtain n r where a: "a = n @ NUL # r" "NUL \<notin> set n"
    using split_list_first [OF assms(1)] by blast
  then have n: "c_str_of a = n" by (simp add: c_str_of_append no_nul_def)
  have "take (length ip_str) a = ip_str \<longleftrightarrow> prefix ip_str (n @ NUL # r)"
    unfolding a(1) by (metis prefix_def append_eq_conv_conj append_take_drop_id)
  also have "\<dots> \<longleftrightarrow> prefix ip_str n"
    using assms(2) by (auto simp: prefix_append prefix_Cons no_nul_def)
  finally show ?thesis by (simp add: n)
qed

lemma local_match_prefix:
  assumes "table_ok tab" and "names_at tab 1 ns" and "no_nul ip_str" and "length ip_str \<le> 64"
    and "k < length ns" and "k < 5"
  shows "local_match ip_str tab (int (Suc k)) = Inr (prefix ip_str (ns ! k))"
proof -
  obtain a where a: "tab ! Suc k = Some a" "length a = 64" "length tab = 6"
    using assms(1,6) by (auto simp: table_ok_def)
  have "ptr_cstr tab (int (Suc k)) = Inr (ns ! k)"
    using assms(2,5) by (simp add: names_at_def)
  then have c: "NUL \<in> set a" "c_str_of a = ns ! k"
    using a assms(6) by (auto simp: ptr_cstr_def nthE_def in_range_def cstrE_def nat_add_distrib split: if_splits)
  show ?thesis
    using take_eq_prefix [OF c(1) assms(3)] c(2) a assms(4,6)
    by (simp add: local_match_def loadE_def nthE_def in_range_def nat_add_distrib)
qed

definition is_last_prefix :: "string \<Rightarrow> string list \<Rightarrow> nat \<Rightarrow> int \<Rightarrow> bool" where
  "is_last_prefix ip_str ns m l \<longleftrightarrow>
     (if \<exists>k < m. prefix ip_str (ns ! k)
      then 1 \<le> l \<and> l \<le> int m \<and> prefix ip_str (ns ! nat (l - 1))
        \<and> (\<forall>k < m. l \<le> int k \<longrightarrow> \<not> prefix ip_str (ns ! k))
      else l = -1)"

lemma find_local_id_upto:
  assumes "table_ok tab" and "names_at tab 1 ns" and "no_nul ip_str" and "length ip_str \<le> 64"
    and "m \<le> length ns" and "m \<le> 5"
  shows "\<exists>l. find_local_id ip_str tab (int m) = Inr l \<and> is_last_prefix ip_str ns m l"
  using assms(5,6)
proof (induction m)
  case 0
  then show ?case by (simp add: find_local_id_def is_last_prefix_def)
next
  case (Suc m)
  then obtain l where l: "find_local_id ip_str tab (int m) = Inr l" "is_last_prefix ip_str ns m l"
    by auto
  have "[1..int (Suc m)] = [1..int m] @ [int (Suc m)]"
    using upto_rec2 [of 1 "int (Suc m)"] by simp
  then have "find_local_id ip_str tab (int (Suc m)) =
      Inr (if prefix ip_str (ns ! m) then int (Suc m) else l)"
    using l(1) local_match_prefix [OF assms(1-4), of m] Suc.prems
    by (simp add: find_local_id_def forE_append)
  moreover have "is_last_prefix ip_str ns (Suc m) (if prefix ip_str (ns ! m) then int (Suc m) else l)"
    using l(2) by (auto simp: is_last_prefix_def less_Suc_eq split: if_splits)
  ultimately show ?case by blast
qed

lemma find_local_id_last:
  assumes "table_ok tab" and "names_at tab 1 ns" and "length ns \<le> 5"
    and "no_nul ip_str" and "length ip_str \<le> 64"
  shows "\<exists>l. find_local_id ip_str tab (int (length ns)) = Inr l \<and> is_last_prefix ip_str ns (length ns) l"
  using find_local_id_upto [OF assms(1,2,4,5)] assms(3) by blast

text \<open>
  What \<^verbatim>\<open>local_id\<close> is: the search always ends without a fault and gives the last entry of
  which the local address is a prefix, and -1 exactly when it is a prefix of none.
\<close>

lemma find_local_id_correct:
  assumes "table_ok tab" and "names_at tab 1 ns" and "length ns \<le> 5"
    and "no_nul ip_str" and "length ip_str \<le> 64"
  shows "\<exists>l. find_local_id ip_str tab (int (length ns)) = Inr l \<and> is_last_prefix ip_str ns (length ns) l"
  using assms by (rule find_local_id_last)

text \<open>
  The comparison stops at the length of the local address, so a later host whose address
  merely starts with it (\<^verbatim>\<open>10.0.0.1\<close> and \<^verbatim>\<open>10.0.0.12\<close>) takes the local machine's place: the
  machine's own entry \<open>i\<close> is never the result.
\<close>

lemma find_local_id_prefix_confusion:
  assumes "table_ok tab" and "names_at tab 1 ns" and "length ns \<le> 5"
    and "no_nul (ns ! i)" and "length (ns ! i) \<le> 64"
    and "i < j" and "j < length ns" and "prefix (ns ! i) (ns ! j)"
  shows "\<exists>l. find_local_id (ns ! i) tab (int (length ns)) = Inr l \<and> l \<noteq> int (Suc i)"
proof -
  from find_local_id_last [OF assms(1-5)] obtain l where
    l: "find_local_id (ns ! i) tab (int (length ns)) = Inr l"
      "is_last_prefix (ns ! i) ns (length ns) l" by blast
  have "\<not> l \<le> int j"
    using l(2) assms(7,8) by (auto simp: is_last_prefix_def split: if_splits)
  with l(1) assms(6) show ?thesis by auto
qed

lemma host_tables_example:
  "\<exists>h. table_ok h \<and> names_at h 1 [''10.0.0.1'', ''10.0.0.12'']"
proof -
  have "\<forall>n \<in> set [''10.0.0.1'', ''10.0.0.12'']. host_name_ok n"
    by (simp add: host_name_ok_def no_nul_def NUL_def)
  note e = read_hosts_entries [OF this table_ok_empty table_ok_empty, of "replicate 64 NUL" "replicate 64 NUL" 1 0]
  from e show ?thesis by auto
qed

lemma find_local_id_correct_witness:
  "\<exists>h. names_at h 1 [''10.0.0.1'', ''10.0.0.12''] \<and> find_local_id ''10.0.0.12'' h 2 = Inr 2"
proof -
  let ?ns = "[''10.0.0.1'', ''10.0.0.12'']"
  obtain h where h: "table_ok h" "names_at h 1 ?ns" using host_tables_example by blast
  have ip: "no_nul ''10.0.0.12''" "length ''10.0.0.12'' \<le> 64" "length ?ns \<le> 5"
    by (simp_all add: no_nul_def NUL_def)
  from find_local_id_correct [OF h ip(3,1,2)] obtain l where
    l: "find_local_id ''10.0.0.12'' h (int (length ?ns)) = Inr l"
      "is_last_prefix ''10.0.0.12'' ?ns (length ?ns) l" by blast
  then have "l = 2"
    by (auto simp: is_last_prefix_def less_Suc_eq numeral_2_eq_2 split: if_splits)
  with l h show ?thesis by auto
qed

lemma find_local_id_prefix_confusion_witness:
  "\<exists>h l. names_at h 1 [''10.0.0.1'', ''10.0.0.12''] \<and> find_local_id ''10.0.0.1'' h 2 = Inr l \<and> l \<noteq> 1"
proof -
  let ?ns = "[''10.0.0.1'', ''10.0.0.12'']"
  obtain h where h: "table_ok h" "names_at h 1 ?ns" using host_tables_example by blast
  have "\<exists>l. find_local_id (?ns ! 0) h (int (length ?ns)) = Inr l \<and> l \<noteq> int (Suc 0)"
    by (rule find_local_id_prefix_confusion [OF h, of 0 1]) (simp_all add: no_nul_def NUL_def)
  with h show ?thesis by auto
qed

section \<open>Configuration as a whole\<close>

lemma config_file_read:
  assumes names: "\<forall>n \<in> set ns. host_name_ok n" and len: "length ns \<le> 5"
    and fresh: "length fresh = 64" and t: "length trail \<le> 13"
    and size: "length (concat (map host_entry ns) @ trail) \<le> 1024" and stack: "length stack = 1024"
    and my_ip: "no_nul my_ip" "length my_ip \<le> 64"
  shows "if \<exists>n \<in> set ns. prefix my_ip n
    then \<exists>l h t. read_host_config_file (Some (concat (map host_entry ns) @ trail)) stack fresh (Some my_ip) s
        = Inr (s\<lparr>local_id := int l, num_hosts := int (length ns), hosts := h, ips := t\<rparr>)
      \<and> 1 \<le> l \<and> l \<le> length ns \<and> prefix my_ip (ns ! (l - 1)) \<and> names_at h 1 ns \<and> names_at t 1 ns
    else read_host_config_file (Some (concat (map host_entry ns) @ trail)) stack fresh (Some my_ip) s
        = Inl (Exit_Process (-1))"
proof -
  let ?file = "concat (map host_entry ns) @ trail"
  note e = table_ok_empty [OF fresh]
  have stop: "read_hosts b (int (length trail)) p i h t = Inr (i, h, t)" for b p i h t
    using \<open>length trail \<le> 13\<close> by (subst read_hosts.simps) simp
  from read_hosts_entries [OF names e e, of 1 "int (length trail)" "[]"
      "trail @ drop (length ?file) stack"] len
  obtain h t where ht: "read_hosts (?file @ drop (length ?file) stack) (int (length ?file)) 0 1
      (empty_table fresh) (empty_table fresh) = Inr (int (length ns) + 1, h, t)"
    "table_ok h" "names_at h 1 ns" "names_at t 1 ns"
    by (auto simp: stop)
  from find_local_id_last [OF ht(2,3) len my_ip] obtain l where
    l: "find_local_id my_ip h (int (length ns)) = Inr l" "is_last_prefix my_ip ns (length ns) l" by blast
  have take: "take 1024 ?file = ?file" using size by simp
  have r: "read_host_config_file (Some ?file) stack fresh (Some my_ip) s =
     (if l = -1 then Inl (Exit_Process (-1))
      else Inr (s\<lparr>local_id := l, num_hosts := int (length ns), hosts := h, ips := t\<rparr>))"
    unfolding read_host_config_file_def option.case Let_def take using ht(1) l(1) by simp
  show ?thesis
  proof (cases "\<exists>n \<in> set ns. prefix my_ip n")
    case True
    then have "\<exists>k < length ns. prefix my_ip (ns ! k)" by (auto simp: in_set_conv_nth)
    then have l1: "1 \<le> l" "l \<le> int (length ns)" "prefix my_ip (ns ! nat (l - 1))"
      using l(2) by (simp_all add: is_last_prefix_def)
    then have "int (nat l) = l" "1 \<le> nat l" "nat l \<le> length ns" "nat (l - 1) = nat l - 1" by simp_all
    moreover have "l \<noteq> -1" using l1 by simp
    ultimately have "read_host_config_file (Some ?file) stack fresh (Some my_ip) s
        = Inr (s\<lparr>local_id := int (nat l), num_hosts := int (length ns), hosts := h, ips := t\<rparr>)
      \<and> 1 \<le> nat l \<and> nat l \<le> length ns \<and> prefix my_ip (ns ! (nat l - 1)) \<and> names_at h 1 ns \<and> names_at t 1 ns"
      using r l1(3) ht(3,4) by simp
    with True show ?thesis unfolding if_P [OF True] by blast
  next
    case False
    then have "l = -1" using l(2) by (auto simp: is_last_prefix_def)
    with False r show ?thesis by simp
  qed
qed

text \<open>
  \<^verbatim>\<open>read_host_config_file\<close> on a file of at most five entries in at most 1024 bytes: when the
  local address is a prefix of some entry it sets the two tables, \<^verbatim>\<open>num_hosts\<close> to the number of
  entries and \<^verbatim>\<open>local_id\<close> to an entry the address is a prefix of, and changes nothing else;
  when it is a prefix of none the process exits with -1.
\<close>

lemma read_host_config_file_result:
  assumes names: "\<forall>n \<in> set ns. host_name_ok n" and len: "length ns \<le> 5"
    and fresh: "length fresh = 64" and t: "length trail \<le> 13"
    and size: "length (concat (map host_entry ns) @ trail) \<le> 1024" and stack: "length stack = 1024"
    and my_ip: "no_nul my_ip" "length my_ip \<le> 64"
  shows "if \<exists>n \<in> set ns. prefix my_ip n
    then \<exists>l h t. read_host_config_file (Some (concat (map host_entry ns) @ trail)) stack fresh (Some my_ip) s
        = Inr (s\<lparr>local_id := int l, num_hosts := int (length ns), hosts := h, ips := t\<rparr>)
      \<and> 1 \<le> l \<and> l \<le> length ns \<and> prefix my_ip (ns ! (l - 1)) \<and> names_at h 1 ns \<and> names_at t 1 ns
    else read_host_config_file (Some (concat (map host_entry ns) @ trail)) stack fresh (Some my_ip) s
        = Inl (Exit_Process (-1))"
  using assms by (rule config_file_read)

lemma read_host_config_file_result_witness:
  "\<exists>h t. read_host_config_file (Some (host_entry ''10.0.0.7'')) (replicate 1024 NUL) (replicate 64 NUL)
      (Some ''10.0.0.7'') zero_server
    = Inr (zero_server\<lparr>local_id := 1, num_hosts := 1, hosts := h, ips := t\<rparr>)
   \<and> ptr_cstr t 1 = Inr ''10.0.0.7''"
proof -
  let ?ns = "[''10.0.0.7'']"
  have names: "\<forall>n \<in> set ?ns. host_name_ok n" by (simp add: host_name_ok_def no_nul_def NUL_def)
  have side: "length ?ns \<le> 5" "length (replicate 64 NUL) = 64" "length [] \<le> 13"
    "length (concat (map host_entry ?ns) @ []) \<le> 1024" "length (replicate 1024 NUL) = 1024"
    "no_nul ''10.0.0.7''" "length ''10.0.0.7'' \<le> 64"
    by (simp_all add: host_entry_def no_nul_def NUL_def)
  have p: "\<exists>n \<in> set ?ns. prefix ''10.0.0.7'' n" by simp
  note read_host_config_file_result [OF names side, of zero_server, unfolded if_P [OF p]]
  then obtain l h t where
    r: "read_host_config_file (Some (concat (map host_entry ?ns) @ [])) (replicate 1024 NUL)
         (replicate 64 NUL) (Some ''10.0.0.7'') zero_server
        = Inr (zero_server\<lparr>local_id := int l, num_hosts := int (length ?ns), hosts := h, ips := t\<rparr>)"
      "1 \<le> l" "l \<le> length ?ns" "names_at t 1 ?ns" by blast
  have "l = 1" using r(2,3) by simp
  moreover have "ptr_cstr t 1 = Inr ''10.0.0.7''" using r(4) by (simp add: names_at_Cons)
  moreover have "concat (map host_entry ?ns) @ [] = host_entry ''10.0.0.7''" by simp
  ultimately show ?thesis using r(1) by (intro exI [of _ h] exI [of _ t]) simp
qed

section \<open>The host list at start\<close>

lemma strncpyE_self:
  assumes "no_nul n" and "length n \<le> length d"
  shows "\<exists>d'. strncpyE d n (length n) = Inr d' \<and> length d' = length d \<and> take (length n) d' = n"
proof -
  have "c_str_of n = n" using assms(1) by (induction n) (auto simp: c_str_of_def)
  with assms(2) show ?thesis by (simp add: strncpyE_def storeE_def blit_def)
qed

lemma ptr_cstr_no_nul: "ptr_cstr tab i = Inr n \<Longrightarrow> no_nul n"
  by (auto simp: ptr_cstr_def bindE_Inr_iff split: option.splits dest: cstrE_no_nul)

text \<open>The entry that \<^verbatim>\<open>hostq_init\<close> leaves for host \<open>k\<close> with address \<open>n\<close>.\<close>

definition host_entry_ready :: "int \<Rightarrow> string \<Rightarrow> epbs_host_info \<Rightarrow> bool" where
  "host_entry_ready k n h \<longleftrightarrow> host_id h = k \<and> host_stat h = HOST_STAT_ONLINE \<and> take (length n) (ip h) = n"

definition hostq_ok :: "epbs_host_info list \<Rightarrow> bool" where
  "hostq_ok q \<longleftrightarrow> length q = 6 \<and> (\<forall>h \<in> set q. length (ip h) = 32)"

lemma hostq_init_pass:
  assumes "ptr_cstr (ips s) (int k) = Inr n" and "length n \<le> 32" and "k < 6" and q: "hostq_ok (hostq s)"
  shows "\<exists>h. host_entry_ready (int k) n h \<and> hostq_ok ((hostq s)[k := h])
    \<and> hostq_init_entry (int k) s = Inr (s\<lparr>hostq := (hostq s)[k := h]\<rparr>)"
proof -
  have k: "k < length (hostq s)" "length (ip (hostq s ! k)) = 32" using q assms(3) by (auto simp: hostq_ok_def)
  from strncpyE_self [OF ptr_cstr_no_nul [OF assms(1)], of "ip (hostq s ! k)"] assms(2) k obtain d where
    d: "strncpyE (ip (hostq s ! k)) n (length n) = Inr d" "length d = 32" "take (length n) d = n" by auto
  let ?h = "(hostq s ! k)\<lparr>host_id := int k, host_stat := HOST_STAT_ONLINE, ip := d\<rparr>"
  have "hostq_ok ((hostq s)[k := ?h])"
    using q d(2) set_update_ball [of "hostq s" "\<lambda>h. length (ip h) = 32" ?h k] by (simp add: hostq_ok_def)
  with assms(1) k d show ?thesis
    by (intro exI [of _ ?h]) (simp add: host_entry_ready_def hostq_init_entry_def)
qed

lemma hostq_init_entry_frame:
  "hostq_init_entry i s = Inr t \<Longrightarrow> \<exists>q. t = s\<lparr>hostq := q\<rparr>"
  by (auto simp: hostq_init_entry_def elim!: bindE_InrE)

lemma hostq_initialised:
  assumes ips: "\<forall>k. 1 \<le> k \<and> k \<le> 5 \<longrightarrow> ptr_cstr (ips s) (int k) = Inr (name k) \<and> length (name k) \<le> 32"
    and q: "hostq_ok (hostq s)"
  shows "\<exists>q. hostq_init s = Inr (s\<lparr>pcstat := replicate MAX_NUM_HOSTS HOST_STAT_ONLINE, hostq := q\<rparr>)
     \<and> hostq_ok q \<and> (\<forall>k. 1 \<le> k \<and> k \<le> 5 \<longrightarrow> host_entry_ready (int k) (name k) (q ! k))"
proof -
  let ?s0 = "s\<lparr>pcstat := replicate MAX_NUM_HOSTS HOST_STAT_ONLINE\<rparr>"
  let ?P = "\<lambda>m u. \<exists>q. u = ?s0\<lparr>hostq := q\<rparr> \<and> hostq_ok q
    \<and> (\<forall>k. 1 \<le> k \<and> k \<le> m \<longrightarrow> host_entry_ready (int k) (name k) (q ! k))"
  have "\<exists>t. forE [1..int 5] hostq_init_entry ?s0 = Inr t \<and> ?P 5 t"
  proof (rule forE_count [where P = ?P])
    show "?P 0 ?s0" using q by (intro exI [of _ "hostq s"]) simp
  next
    fix m u
    assume m: "m < (5::nat)" and "?P m u"
    then obtain q where u: "u = ?s0\<lparr>hostq := q\<rparr>" "hostq_ok q"
      "\<forall>k. 1 \<le> k \<and> k \<le> m \<longrightarrow> host_entry_ready (int k) (name k) (q ! k)" by blast
    have n: "ptr_cstr (ips u) (int (Suc m)) = Inr (name (Suc m))" "length (name (Suc m)) \<le> 32"
      using ips [rule_format, of "Suc m"] m u(1) by auto
    have qu: "hostq_ok (hostq u)" "Suc m < 6" using u m by simp_all
    from hostq_init_pass [OF n qu(2,1)] obtain h where
      h: "host_entry_ready (int (Suc m)) (name (Suc m)) h" "hostq_ok ((hostq u)[Suc m := h])"
      "hostq_init_entry (int (Suc m)) u = Inr (u\<lparr>hostq := (hostq u)[Suc m := h]\<rparr>)" by blast
    have "?P (Suc m) (u\<lparr>hostq := (hostq u)[Suc m := h]\<rparr>)"
      using u h m by (intro exI [of _ "q[Suc m := h]"]) (auto simp: nth_list_update hostq_ok_def le_Suc_eq)
    with h(3) show "\<exists>u'. hostq_init_entry (int (Suc m)) u = Inr u' \<and> ?P (Suc m) u'" by blast
  qed
  then show ?thesis by (auto simp: hostq_init_def table_sizes)
qed

text \<open>
  \<^verbatim>\<open>hostq_init\<close> walks all five entries of the address table. When each holds a string of at
  most 32 characters, every host ends up online under its own number with its address, the
  status table too, and nothing else changes.
\<close>

lemma hostq_init_result:
  assumes ips: "\<forall>k. 1 \<le> k \<and> k \<le> 5 \<longrightarrow> ptr_cstr (ips s) (int k) = Inr (name k) \<and> length (name k) \<le> 32"
    and q: "hostq_ok (hostq s)"
  shows "\<exists>q. hostq_init s = Inr (s\<lparr>pcstat := replicate MAX_NUM_HOSTS HOST_STAT_ONLINE, hostq := q\<rparr>)
     \<and> hostq_ok q \<and> (\<forall>k. 1 \<le> k \<and> k \<le> 5 \<longrightarrow> host_entry_ready (int k) (name k) (q ! k))"
  using assms by (rule hostq_initialised)

lemma hostq_init_result_witness:
  "\<exists>q. hostq_init (zero_server\<lparr>ips := None # replicate 5 (Some (CHR ''h'' # [NUL]))\<rparr>)
      = Inr (zero_server\<lparr>ips := None # replicate 5 (Some (CHR ''h'' # [NUL])),
          pcstat := replicate MAX_NUM_HOSTS HOST_STAT_ONLINE, hostq := q\<rparr>)
    \<and> host_entry_ready 3 ''h'' (q ! 3)"
proof -
  let ?s = "zero_server\<lparr>ips := None # replicate 5 (Some (CHR ''h'' # [NUL]))\<rparr>"
  have "ptr_cstr (ips ?s) (int k) = Inr ''h''" if "1 \<le> k" "k \<le> 5" for k
    using that by (simp add: ptr_cstr_def nthE_def in_range_def nth_Cons' cstrE_def c_str_of_def NUL_def)
  then have i: "\<forall>k. 1 \<le> k \<and> k \<le> 5 \<longrightarrow> ptr_cstr (ips ?s) (int k) = Inr ''h'' \<and> length ''h'' \<le> 32" by simp
  have q: "hostq_ok (hostq ?s)" by (simp add: hostq_ok_def zero_server_def zero_host_def)
  from hostq_init_result [where name = "\<lambda>_. ''h''", OF i q] obtain q where
    q: "hostq_init ?s = Inr (?s\<lparr>pcstat := replicate MAX_NUM_HOSTS HOST_STAT_ONLINE, hostq := q\<rparr>)"
       "\<forall>k. 1 \<le> k \<and> k \<le> 5 \<longrightarrow> host_entry_ready (int k) ''h'' (q ! k)" by blast
  have "host_entry_ready (int 3) ''h'' (q ! 3)" by (rule q(2) [rule_format]) simp
  with q(1) show ?thesis by auto
qed

text \<open>
  With fewer than five hosts configured, \<^verbatim>\<open>hostq_init\<close> measures the length of allocations
  that were never written. If one of them happens to hold no NUL byte the read leaves it: there is
  no result.
\<close>

lemma hostq_init_reads_unset_entries:
  assumes "1 \<le> k" and "k \<le> 5" and "length (ips s) = 6" and "ips s ! k = Some fresh" and "no_nul fresh"
  shows "\<exists>e. hostq_init s = Inl e"
  unfolding hostq_init_def
proof (rule forE_fault [where I = "\<lambda>u :: server. ips u = ips s" and k = "int k"])
  show "int k \<in> set [1..int MAX_NUM_HOSTS]" using assms(1,2) by (simp add: table_sizes)
next
  fix u :: server
  assume "ips u = ips s"
  then have "ptr_cstr (ips u) (int k) = Inl Out_Of_Bounds"
    using assms by (simp add: ptr_cstr_def cstrE_def no_nul_def)
  then show "\<exists>e. hostq_init_entry (int k) u = Inl e" by (simp add: hostq_init_entry_def)
next
  fix i and u u' :: server
  assume "ips u = ips s" and "hostq_init_entry i u = Inr u'"
  then show "ips u' = ips s" using hostq_init_entry_frame by fastforce
qed simp

lemma hostq_init_reads_unset_entries_witness:
  "\<exists>e. hostq_init (zero_server\<lparr>ips := None # replicate 5 (Some (replicate 64 (CHR ''x'')))\<rparr>) = Inl e"
  by (rule hostq_init_reads_unset_entries [where k = 2 and fresh = "replicate 64 (CHR ''x'')"])
    (simp_all add: no_nul_def NUL_def)

end
