(* ===== verification/Host_Monitor.thy ===== *)
theory Host_Monitor
  imports Host_Table Conn_Loop
begin

text \<open>
  The two threads that know about hosts: \<^verbatim>\<open>epbs_host_status\<close> (\<^verbatim>\<open>libhost.c\<close>), which takes the
  nodes' status reports in, and \<^verbatim>\<open>host_monitor_transfer_2\<close> with its predecessor
  \<^verbatim>\<open>host_monitor_transfer_1\<close> (\<^verbatim>\<open>host_monitor.c\<close>), which answer the client's host queries. Both
  loops are instances of the connection loop, and their handlers of its contract.
\<close>

section \<open>Replies to host queries\<close>

text \<open>\<^verbatim>\<open>qh_id >= 1\<close>: the words behind the header are \<^verbatim>\<open>pcstat[0..num_hosts-1]\<close>, whatever the id.\<close>

definition host_reply_one :: "int \<Rightarrow> int \<Rightarrow> int \<Rightarrow> char list \<Rightarrow> server \<Rightarrow> char list res" where
  "host_reply_one type src qh_id send_buffer s =
     bindE (put_ints [(0, type), (1, local_id s), (2, src), (3, qh_id)] send_buffer)
       (forE [0..num_hosts s - 1] (\<lambda>i b. bindE (nthE (pcstat s) i) (\<lambda>st. put_int b (MSG_HEAD_SIZE + nat i) st)))"

text \<open>One record of the table: status, id and the 32 bytes of the address at their offsets.\<close>

definition host_record :: "nat \<Rightarrow> epbs_host_info \<Rightarrow> char list \<Rightarrow> char list res" where
  "host_record i h send_buffer =
     bindE (put_int send_buffer (MSG_HEAD_SIZE + 16 * i + 1) (host_stat h)) (\<lambda>b.
     bindE (put_int b (MSG_HEAD_SIZE + 16 * i) (int i + 1)) (\<lambda>b.
       storeE b (HEAD_BYTES + SIZEOF_HOST * i + 32) (strncpy_bytes (ip h) 32)))"

text \<open>\<^verbatim>\<open>qh_id == 0\<close>: record \<open>i\<close> is filled from \<^verbatim>\<open>hostq[i]\<close> and numbered \<open>i + 1\<close>.\<close>

definition host_reply_all :: "int \<Rightarrow> int \<Rightarrow> int \<Rightarrow> char list \<Rightarrow> server \<Rightarrow> char list res" where
  "host_reply_all type src qh_id send_buffer s =
     bindE (put_ints [(0, type), (1, local_id s), (2, src), (3, qh_id)] send_buffer)
       (forE [0..num_hosts s - 1] (\<lambda>i b. bindE (nthE (hostq s) i) (\<lambda>h. host_record (nat i) h b)))"

text \<open>Any other id leaves the buffer as it was allocated.\<close>

definition host_reply :: "char list \<Rightarrow> char list \<Rightarrow> server \<Rightarrow> char list res" where
  "host_reply recv_buffer send_buffer s =
     bindE (get_int recv_buffer 0) (\<lambda>type.
     bindE (get_int recv_buffer 1) (\<lambda>src.
     bindE (get_int recv_buffer 3) (\<lambda>qh_id.
     bindE (if qh_id \<ge> 1 then host_reply_one type src qh_id send_buffer s else Inr send_buffer) (\<lambda>b.
       if qh_id = 0 then host_reply_all type src qh_id b s else Inr b))))"

section \<open>The threads\<close>

definition host_monitor_event :: handler where
  "host_monitor_event os up r m =
     (if has_event (events up) UPOLL_READ_T then
        bindE (conn_recv os r m) (\<lambda>m.
          if cn_size m > 0 then
            bindE (host_reply (cn_buf m) (cs_junk os r) (cn_srv m)) (\<lambda>reply.
              Inr (m\<lparr>cn_map := omap_put r \<lparr>usock = Some r, events = UPOLL_WRITE_T, pointer = Some reply\<rparr> (cn_map m)\<rparr>))
          else Inr m)
      else if has_event (events up) UPOLL_WRITE_T then
        (case pointer up of None \<Rightarrow> Inl Null_Deref | Some reply \<Rightarrow>
         bindE (deref (cn_et m) r) (\<lambda>u.
         bindE (tcp_send (cs_util os) (cs_send os) reply 0 MSG_BUFF_SIZE u) (\<lambda>(u', sent, n).
           conn_destroy r (m\<lparr>cn_et := set_sock r u' (cn_et m), cn_replies := cn_replies m @ [(r, sent)]\<rparr>))))
      else if has_event (events up) UPOLL_ERROR_T then conn_destroy r m
      else Inr m)"

definition host_monitor_transfer_2 :: "conn_os \<Rightarrow> conn \<Rightarrow> conn res" where
  "host_monitor_transfer_2 = conn_iter host_monitor_event"

text \<open>
  \<^verbatim>\<open>epbs_host_status\<close> treats only readable clients. What was received last is applied to the table
  after the loop over the entries, once in every pass: \<^verbatim>\<open>recv_size\<close> is not reset.
\<close>

definition host_status_event :: handler where
  "host_status_event os up r m =
     (if has_event (events up) UPOLL_READ_T then bindE (conn_recv os r m) (conn_destroy r) else Inr m)"

definition epbs_host_status :: "conn_os \<Rightarrow> conn \<Rightarrow> conn res" where
  "epbs_host_status os m =
     bindE (conn_iter host_status_event os m) (\<lambda>m.
       if cn_size m > 0
       then bindE (host_status_update (cn_buf m) (cn_srv m)) (\<lambda>s. Inr (m\<lparr>cn_srv := s\<rparr>))
       else Inr m)"

section \<open>The version with one connection\<close>

text \<open>
  \<^verbatim>\<open>host_monitor_transfer_1\<close> waits for one client. Its send buffer has room for a header only. The
  system: whether \<^verbatim>\<open>bind\<close> and \<^verbatim>\<open>listen\<close> succeed, the connection accepted. The result is what was
  sent, \<^const>\<open>None\<close> when the function returns without sending.
\<close>

record transfer1_os =
  t1_bind :: bool
  t1_listen :: bool
  t1_accept :: "(int \<times> csockaddr) option"
  t1_nonblock :: int
  t1_err :: int
  t1_util :: sock_util
  t1_recv :: "int \<Rightarrow> nat \<Rightarrow> recv_answer"
  t1_writable :: "int \<Rightarrow> bool"
  t1_send :: "int \<Rightarrow> char list \<Rightarrow> send_answer"

definition host_monitor_transfer_1 ::
  "transfer1_os \<Rightarrow> int \<Rightarrow> char list \<Rightarrow> char list \<Rightarrow> server \<Rightarrow> char list option res" where
  "host_monitor_transfer_1 os junk send_buffer recv_buffer s =
     bindE (put_ints [(0, msg_code MSG_TYPE_HOST), (1, local_id s), (2, 0), (3, 0)] send_buffer) (\<lambda>sb.
     bindE (get_host_ip s 1) (\<lambda>hip.
       if hip = None \<or> \<not> t1_bind os \<or> \<not> t1_listen os then Inr None
       else (case t1_accept os of
          None \<Rightarrow> Inr None
        | Some (fd, addr) \<Rightarrow>
            let u = fst (tcp_bind (t1_nonblock os) (t1_err os) fd addr (new_UTcpSocket junk)) in
            bindE (tcp_recv (t1_util os) (t1_recv os) recv_buffer 0 MSG_BUFF_SIZE u) (\<lambda>(u, rb, n).
              if n > 0 then
                bindE (host_reply rb sb s) (\<lambda>sb.
                bindE (tcp_can_write (t1_writable os) u) (\<lambda>w.
                  if w then bindE (tcp_send (t1_util os) (t1_send os) sb 0 MSG_BUFF_SIZE u)
                              (\<lambda>(u, sent, _). Inr (Some sent))
                  else Inr None))
              else Inr None))))"

section \<open>The replies\<close>

lemma host_record_ok:
  assumes "88 + 64 * i \<le> length b" and "is_int32 (host_stat h)" and "i < 1000"
  shows "\<exists>b'. host_record i h b = Inr b' \<and> length b' = length b \<and> take (24 + 64 * i) b' = take (24 + 64 * i) b
    \<and> get_int b' (6 + 16 * i) = Inr (int i + 1) \<and> get_int b' (7 + 16 * i) = Inr (host_stat h)
    \<and> loadE b' (56 + 64 * i) 32 = Inr (strncpy_bytes (ip h) 32)"
proof -
  let ?b1 = "blit b (4 * (7 + 16 * i)) (enc32 (host_stat h))"
  let ?b2 = "blit ?b1 (4 * (6 + 16 * i)) (enc32 (int i + 1))"
  let ?b3 = "blit ?b2 (56 + 64 * i) (strncpy_bytes (ip h) 32)"
  have l: "length ?b1 = length b" "length ?b2 = length b" "length ?b3 = length b" using assms(1) by simp_all
  have i: "is_int32 (int i + 1)" using assms(3) by (simp add: is_int32_def)
  have r: "host_record i h b = Inr ?b3" using assms(1) l
    by (simp add: host_record_def put_int_in storeE_def SIZEOF_HOST_def)
  have t: "take (24 + 64 * i) ?b3 = take (24 + 64 * i) b" using assms(1) l by (simp add: take_blit_before)
  have g1: "get_int ?b3 (7 + 16 * i) = Inr (host_stat h)"
    using assms(1,2) l get_int_blit_same [of "7 + 16 * i" b] by (simp add: get_int_blit_other)
  have g2: "get_int ?b3 (6 + 16 * i) = Inr (int i + 1)"
    using assms(1) l i get_int_blit_same [of "6 + 16 * i" ?b1] by (simp add: get_int_blit_other)
  have "loadE ?b3 (56 + 64 * i) 32 = Inr (strncpy_bytes (ip h) 32)"
    using loadE_blit_same [of "56 + 64 * i" "strncpy_bytes (ip h) 32" ?b2] assms(1) l by simp
  with r t g1 g2 l show ?thesis by (intro exI [of _ ?b3]) simp
qed

text \<open>The first four words of every reply.\<close>

definition reply_head :: "int \<Rightarrow> int \<Rightarrow> int \<Rightarrow> int \<Rightarrow> char list \<Rightarrow> bool" where
  "reply_head type lid src qh b \<longleftrightarrow> length b = MSG_BUFF_SIZE \<and> get_int b 0 = Inr type \<and> get_int b 1 = Inr lid
     \<and> get_int b 2 = Inr src \<and> get_int b 3 = Inr qh"

lemma reply_head_put:
  assumes "length junk = MSG_BUFF_SIZE" and "is_int32 type" "is_int32 lid" "is_int32 src" "is_int32 qh"
  shows "\<exists>b. put_ints [(0, type), (1, lid), (2, src), (3, qh)] junk = Inr b \<and> reply_head type lid src qh b"
proof -
  let ?ws = "[(0::nat, type), (1, lid), (2, src), (3, qh)]"
  have c: "\<forall>w \<in> set ?ws. 4 * fst w + 4 \<le> length junk" using assms(1) by simp
  from put_ints_defined [OF c] obtain b where b: "put_ints ?ws junk = Inr b" "length b = MSG_BUFF_SIZE"
    using assms(1) by auto
  have d: "distinct (map fst ?ws)" by simp
  note get = put_ints_get [OF b(1) _ d c]
  have "get_int b 0 = Inr type" by (rule get) (simp_all add: assms)
  moreover have "get_int b 1 = Inr lid" by (rule get) (simp_all add: assms)
  moreover have "get_int b 2 = Inr src" by (rule get) (simp_all add: assms)
  moreover have "get_int b 3 = Inr qh" by (rule get) (simp_all add: assms)
  ultimately show ?thesis using b by (auto simp: reply_head_def)
qed

lemma reply_head_cong:
  assumes "reply_head type lid src qh b" and "take 24 b' = take 24 b" and "length b' = length b"
  shows "reply_head type lid src qh b'"
  using assms get_int_prefix_eq [OF assms(2,3)] by (simp add: reply_head_def)

lemma forE_host_records:
  assumes b: "length b = MSG_BUFF_SIZE" and n: "n \<le> 6" and q: "length (hostq s) = 6" "\<forall>h \<in> set (hostq s). is_int32 (host_stat h)"
  shows "\<exists>b'. forE [0..int n - 1] (\<lambda>i b. bindE (nthE (hostq s) i) (\<lambda>h. host_record (nat i) h b)) b = Inr b'
    \<and> length b' = MSG_BUFF_SIZE \<and> take 24 b' = take 24 b
    \<and> (\<forall>i < n. get_int b' (6 + 16 * i) = Inr (int i + 1) \<and> get_int b' (7 + 16 * i) = Inr (host_stat (hostq s ! i))
         \<and> loadE b' (56 + 64 * i) 32 = Inr (strncpy_bytes (ip (hostq s ! i)) 32))"
proof -
  let ?R = "\<lambda>b' i. get_int b' (6 + 16 * i) = Inr (int i + 1) \<and> get_int b' (7 + 16 * i) = Inr (host_stat (hostq s ! i))
         \<and> loadE b' (56 + 64 * i) 32 = Inr (strncpy_bytes (ip (hostq s ! i)) 32)"
  let ?P = "\<lambda>m b'. length b' = MSG_BUFF_SIZE \<and> take 24 b' = take 24 b \<and> (\<forall>i < m. ?R b' i)"
  show ?thesis
  proof (rule forE_count0 [where P = ?P])
    show "?P 0 b" using b by simp
  next
    fix m b1
    assume m: "m < n" and b1: "?P m b1"
    have i: "is_int32 (host_stat (hostq s ! m))" using q m n by simp
    from host_record_ok [OF _ i, of m b1] m n b1 obtain b2 where
      b2: "host_record m (hostq s ! m) b1 = Inr b2" "length b2 = length b1" "take (24 + 64 * m) b2 = take (24 + 64 * m) b1"
        "?R b2 m" by auto
    have "?R b2 i" if "i < m" for i
      using that b1 get_int_prefix_eq [OF b2(3,2)] loadE_prefix_eq [OF b2(3,2)] by simp
    then have "\<forall>i < Suc m. ?R b2 i" using b2(4) less_Suc_eq by auto
    moreover have "take 24 b2 = take 24 b1" using arg_cong [OF b2(3), of "take 24"] by simp
    ultimately have "?P (Suc m) b2" using b2(2) b1 by simp
    moreover have "in_range (hostq s) (int m)" using q(1) m n by simp
    ultimately show "\<exists>b2. (bindE (nthE (hostq s) (int m)) (\<lambda>h. host_record (nat (int m)) h b1)) = Inr b2 \<and> ?P (Suc m) b2"
      using b2(1) by (intro exI [of _ b2]) simp
  qed
qed

lemma table_answered:
  assumes ints: "is_int32 type" "is_int32 src" "is_int32 (local_id s)" and n: "num_hosts s = int n" "n \<le> 6"
    and q: "length (hostq s) = 6" "\<forall>h \<in> set (hostq s). is_int32 (host_stat h)"
    and junk: "length junk = MSG_BUFF_SIZE"
  shows "\<exists>b. host_reply (header type src dist 0 j1 j2 @ rest) junk s = Inr b \<and> reply_head type (local_id s) src 0 b
    \<and> (\<forall>i < n. get_int b (6 + 16 * i) = Inr (int i + 1) \<and> get_int b (7 + 16 * i) = Inr (host_stat (hostq s ! i))
         \<and> loadE b (56 + 64 * i) 32 = Inr (strncpy_bytes (ip (hostq s ! i)) 32))"
proof -
  have z: "is_int32 0" by (simp add: is_int32_def)
  from reply_head_put [OF junk ints(1,3,2) z] obtain b where
    b: "put_ints [(0, type), (1, local_id s), (2, src), (3, 0)] junk = Inr b" "reply_head type (local_id s) src 0 b" by blast
  have l: "length b = MSG_BUFF_SIZE" using b(2) by (simp add: reply_head_def)
  from forE_host_records [OF l n(2) q] obtain b' where
    b': "forE [0..int n - 1] (\<lambda>i b. bindE (nthE (hostq s) i) (\<lambda>h. host_record (nat i) h b)) b = Inr b'"
    "length b' = MSG_BUFF_SIZE" "take 24 b' = take 24 b"
    "\<forall>i < n. get_int b' (6 + 16 * i) = Inr (int i + 1) \<and> get_int b' (7 + 16 * i) = Inr (host_stat (hostq s ! i))
         \<and> loadE b' (56 + 64 * i) 32 = Inr (strncpy_bytes (ip (hostq s ! i)) 32)" by blast
  have "host_reply (header type src dist 0 j1 j2 @ rest) junk s = Inr b'"
    using b(1) b'(1) ints z n(1)
    by (simp add: host_reply_def host_reply_all_def get_header get_header(2) [unfolded One_nat_def])
  moreover have "reply_head type (local_id s) src 0 b'" using b'(2,3) l by (intro reply_head_cong [OF b(2)]) simp_all
  ultimately show ?thesis using b'(4) by blast
qed

text \<open>
  The host table a client gets: record \<open>i\<close> of the reply carries the number \<open>i + 1\<close> with the
  state and the address of \<^verbatim>\<open>hostq[i]\<close>, which is host \<open>i\<close>'s own entry (\<^verbatim>\<open>hostq_init\<close> numbers them
  from 1). Every host is shown with its predecessor's data, the first with the entry no host has,
  and the last host's data is not in the reply.
\<close>

lemma host_table_reply:
  assumes ints: "is_int32 type" "is_int32 src" "is_int32 (local_id s)" and n: "num_hosts s = int n" "n \<le> 6"
    and q: "length (hostq s) = 6" "\<forall>h \<in> set (hostq s). is_int32 (host_stat h)"
    and junk: "length junk = MSG_BUFF_SIZE"
  shows "\<exists>b. host_reply (header type src dist 0 j1 j2 @ rest) junk s = Inr b \<and> reply_head type (local_id s) src 0 b
    \<and> (\<forall>i < n. get_int b (6 + 16 * i) = Inr (int i + 1) \<and> get_int b (7 + 16 * i) = Inr (host_stat (hostq s ! i))
         \<and> loadE b (56 + 64 * i) 32 = Inr (strncpy_bytes (ip (hostq s ! i)) 32))"
  using assms by (rule table_answered)

lemma states_answered:
  assumes ints: "is_int32 type" "is_int32 src" "is_int32 qh" "is_int32 (local_id s)" and n: "num_hosts s = int n" "n \<le> 5"
    and qh: "1 \<le> qh" and p: "length (pcstat s) = 5" "\<forall>x \<in> set (pcstat s). is_int32 x"
    and junk: "length junk = MSG_BUFF_SIZE"
  shows "\<exists>b. host_reply (header type src dist qh j1 j2 @ rest) junk s = Inr b \<and> reply_head type (local_id s) src qh b
    \<and> (\<forall>i < n. get_int b (6 + i) = Inr (pcstat s ! i))"
proof -
  let ?f = "\<lambda>i b. bindE (nthE (pcstat s) i) (\<lambda>st. put_int b (MSG_HEAD_SIZE + nat i) st)"
  from reply_head_put [OF junk ints(1,4,2,3)] obtain b where
    b: "put_ints [(0, type), (1, local_id s), (2, src), (3, qh)] junk = Inr b" "reply_head type (local_id s) src qh b" by blast
  let ?P = "\<lambda>m b'. length b' = MSG_BUFF_SIZE \<and> take 24 b' = take 24 b \<and> (\<forall>i < m. get_int b' (6 + i) = Inr (pcstat s ! i))"
  have "\<exists>b'. forE [0..int n - 1] ?f b = Inr b' \<and> ?P n b'"
  proof (rule forE_count0 [where P = ?P])
    show "?P 0 b" using b(2) by (simp add: reply_head_def)
  next
    fix m b1
    assume m: "m < n" and b1: "?P m b1"
    let ?b2 = "blit b1 (4 * (6 + m)) (enc32 (pcstat s ! m))"
    have c: "4 * (6 + m) + 4 \<le> length b1" "is_int32 (pcstat s ! m)" "in_range (pcstat s) (int m)"
      using m n b1 p by simp_all
    have w: "?f (int m) b1 = Inr ?b2" using put_int_in [OF c(1)] c(3) by simp
    have "get_int ?b2 (6 + i) = Inr (pcstat s ! i)" if "i < Suc m" for i
      using that b1 c n m get_int_blit_same [OF c(1,2)] by (cases "i = m") (simp_all add: get_int_blit_other)
    moreover have "take 24 ?b2 = take 24 b1" using c(1) by (simp add: take_blit_before)
    ultimately have "?P (Suc m) ?b2" using b1 c(1) by simp
    with w show "\<exists>b2. ?f (int m) b1 = Inr b2 \<and> ?P (Suc m) b2" by blast
  qed
  then obtain b' where b': "forE [0..int n - 1] ?f b = Inr b'" "?P n b'" by blast
  have "host_reply (header type src dist qh j1 j2 @ rest) junk s = Inr b'"
    using b(1) b'(1) ints qh n(1)
    by (simp add: host_reply_def host_reply_one_def get_header get_header(2) [unfolded One_nat_def])
  moreover have "reply_head type (local_id s) src qh b'" using b' b(2) by (intro reply_head_cong [OF b(2)]) (simp_all add: reply_head_def)
  ultimately show ?thesis using b'(2) by blast
qed

text \<open>
  A query for one host is answered with a word for every host, and again from \<^verbatim>\<open>pcstat[0]\<close> on:
  word \<open>6 + i\<close> is the state of host \<open>i\<close>, so the last host's state is missing and the word of the
  first is the state of no host. Which host was asked for does not matter.
\<close>

lemma host_status_reply:
  assumes ints: "is_int32 type" "is_int32 src" "is_int32 qh" "is_int32 (local_id s)" and n: "num_hosts s = int n" "n \<le> 5"
    and qh: "1 \<le> qh" and p: "length (pcstat s) = 5" "\<forall>x \<in> set (pcstat s). is_int32 x"
    and junk: "length junk = MSG_BUFF_SIZE"
  shows "\<exists>b. host_reply (header type src dist qh j1 j2 @ rest) junk s = Inr b \<and> reply_head type (local_id s) src qh b
    \<and> (\<forall>i < n. get_int b (6 + i) = Inr (pcstat s ! i))"
  using assms by (rule states_answered)

text \<open>A query with a negative id gets the allocation back as it was.\<close>

lemma host_reply_negative:
  assumes "is_int32 qh" and "qh < 0" and "is_int32 type" "is_int32 src"
  shows "host_reply (header type src dist qh j1 j2 @ rest) junk s = Inr junk"
  using assms by (simp add: host_reply_def get_header get_header(2) [unfolded One_nat_def])

section \<open>The contract of the threads\<close>

lemma send_frame:
  assumes "et_ok (cn_et m)" and "m_tcp_listener (cn_et m) \<noteq> Some r" and "heap (cn_et m) r = Some u"
    and "tcp_send ut os buf off n u = Inr (u', sent, k)"
  shows "et_ok (set_sock r u' (cn_et m))"
  using tcp_send_frame [OF assms(4)] assms(1-3) by (intro et_ok_set_sock) auto

lemma host_monitor_event_frame:
  assumes ok: "et_ok (cn_et m)" and l: "m_tcp_listener (cn_et m) \<noteq> Some r" and h: "host_monitor_event os up r m = Inr m'"
  shows "et_ok (cn_et m') \<and> same_fds (cn_et m) (cn_et m')"
proof -
  have reading: ?thesis
    if "bindE (conn_recv os r m) (\<lambda>m. if cn_size m > 0 then
            bindE (host_reply (cn_buf m) (cs_junk os r) (cn_srv m)) (\<lambda>reply.
              Inr (m\<lparr>cn_map := omap_put r \<lparr>usock = Some r, events = UPOLL_WRITE_T, pointer = Some reply\<rparr> (cn_map m)\<rparr>))
          else Inr m) = Inr m'"
  proof -
    from that obtain m1 where "conn_recv os r m = Inr m1" "cn_et m' = cn_et m1"
      by (auto elim!: bindE_InrE split: if_splits)
    with conn_recv_frame [OF ok l] show ?thesis by simp
  qed
  have writing: ?thesis
    if "(case pointer up of None \<Rightarrow> Inl Null_Deref | Some reply \<Rightarrow>
         bindE (deref (cn_et m) r) (\<lambda>u. bindE (tcp_send (cs_util os) (cs_send os) reply 0 MSG_BUFF_SIZE u) (\<lambda>(u', sent, n).
           conn_destroy r (m\<lparr>cn_et := set_sock r u' (cn_et m), cn_replies := cn_replies m @ [(r, sent)]\<rparr>)))) = Inr m'"
  proof -
    from that obtain reply u u' sent n where u: "heap (cn_et m) r = Some u"
      "tcp_send (cs_util os) (cs_send os) reply 0 MSG_BUFF_SIZE u = Inr (u', sent, n)"
      "conn_destroy r (m\<lparr>cn_et := set_sock r u' (cn_et m), cn_replies := cn_replies m @ [(r, sent)]\<rparr>) = Inr m'"
      by (auto simp: deref_def elim!: bindE_InrE split: option.splits)
    have "et_ok (set_sock r u' (cn_et m))" by (rule send_frame [OF ok l u(1,2)])
    with conn_destroy_frame [OF _ u(3)] same_fds_trans [OF same_fds_set_sock] show ?thesis by auto
  qed
  from h reading writing conn_destroy_frame [OF ok] ok show ?thesis
    by (simp add: host_monitor_event_def split: if_splits)
qed

lemma host_status_event_frame:
  assumes ok: "et_ok (cn_et m)" and l: "m_tcp_listener (cn_et m) \<noteq> Some r" and h: "host_status_event os up r m = Inr m'"
  shows "et_ok (cn_et m') \<and> same_fds (cn_et m) (cn_et m')"
proof (cases "has_event (events up) UPOLL_READ_T")
  case True
  with h obtain m1 where m1: "conn_recv os r m = Inr m1" "conn_destroy r m1 = Inr m'"
    by (auto simp: host_status_event_def elim!: bindE_InrE)
  from conn_recv_frame [OF ok l m1(1)] conn_destroy_frame [OF _ m1(2)] same_fds_trans show ?thesis by blast
next
  case False
  with h ok show ?thesis by (simp add: host_status_event_def)
qed

interpretation host_monitor: conn_handler host_monitor_event
  by unfold_locales (rule host_monitor_event_frame)

interpretation host_status: conn_handler host_status_event
  by unfold_locales (rule host_status_event_frame)

lemma epbs_host_status_frame:
  assumes "et_ok (cn_et m)" and "epbs_host_status os m = Inr m'"
  shows "keeps_fds (cn_et m) (cn_et m')"
proof -
  from assms(2) obtain m1 where "conn_iter host_status_event os m = Inr m1" "cn_et m' = cn_et m1"
    by (auto simp: epbs_host_status_def elim!: bindE_InrE split: if_splits)
  with host_status.iter_frame [OF assms(1)] show ?thesis by simp
qed

section \<open>Status reports\<close>

definition status_message :: "int \<Rightarrow> int \<Rightarrow> int \<Rightarrow> char list" where
  "status_message src hid status = header (msg_code MSG_TYPE_HOST) src 1 hid status 0"

lemma host_status_update_message:
  assumes "is_int32 hid" and "is_int32 status" and "length (hostq s) = 6"
  shows "host_status_update (status_message src hid status @ rest) s =
    (if 0 \<le> hid \<and> hid < 6
     then Inr (s\<lparr>hostq := (hostq s)[nat hid := (hostq s ! nat hid)\<lparr>host_stat := status\<rparr>]\<rparr>)
     else Inl Out_Of_Bounds)"
proof -
  have "in_range (hostq s) hid \<longleftrightarrow> 0 \<le> hid \<and> hid < 6" using assms(3) by (auto simp: in_range_def)
  then show ?thesis using assms by (simp add: host_status_update_def status_message_def get_header nthE_def updE_def)
qed

text \<open>
  C26. The last report is applied in every pass, also when nothing was received: after a report for
  host \<open>hid\<close>, a pass in which no socket is ready puts the reported state back, whatever other
  threads have written there. An id outside the table, which comes from the network, ends in a
  write outside it.
\<close>

theorem host_status_reapplied:
  assumes quiet: "quiet os m et" and size: "0 < cn_size m" and q: "length (hostq (cn_srv m)) = 6"
    and buf: "cn_buf m = status_message src hid status @ rest" and i: "is_int32 hid" "is_int32 status"
  shows "epbs_host_status os m = (if 0 \<le> hid \<and> hid < 6
    then Inr (m\<lparr>cn_et := et, cn_srv := (cn_srv m)\<lparr>hostq :=
      (hostq (cn_srv m))[nat hid := (hostq (cn_srv m) ! nat hid)\<lparr>host_stat := status\<rparr>]\<rparr>\<rparr>)
    else Inl Out_Of_Bounds)"
  using conn_iter_quiet [OF quiet, of host_status_event] size buf host_status_update_message [OF i q]
  by (simp add: epbs_host_status_def)

section \<open>The version with one connection never answers\<close>

lemma host_reply_small:
  assumes "length b = 24" and "1 \<le> num_hosts s" and "length (pcstat s) = 5" and "length (hostq s) = 6"
    and "host_reply rb b s = Inr b'"
  shows "b' = b"
proof -
  have z: "[0..num_hosts s - 1] = 0 # [1..num_hosts s - 1]" using assms(2) upto_rec1 [of 0 "num_hosts s - 1"] by simp
  have one: "\<exists>e. host_reply_one t src qh c s = Inl e" if "length c = 24" for t src qh c
  proof (cases "put_ints [(0, t), (1, local_id s), (2, src), (3, qh)] c")
    case (Inr d)
    then have "length d = 24" using length_put_ints that by auto
    then show ?thesis using Inr assms(3) unfolding host_reply_one_def z
      by (simp add: put_int_out nthE_def in_range_def)
  qed (simp add: host_reply_one_def)
  have all: "\<exists>e. host_reply_all t src qh c s = Inl e" if "length c = 24" for t src qh c
  proof (cases "put_ints [(0, t), (1, local_id s), (2, src), (3, qh)] c")
    case (Inr d)
    then have "length d = 24" using length_put_ints that by auto
    then show ?thesis using Inr assms(4) unfolding host_reply_all_def z
      by (simp add: host_record_def put_int_out nthE_def in_range_def)
  qed (simp add: host_reply_all_def)
  have "host_reply_one t src qh b s \<noteq> Inr c" "host_reply_all t src qh b s \<noteq> Inr c" for t src qh c
    using one [OF assms(1), of t src qh] all [OF assms(1), of t src qh] by auto
  with assms(5) show ?thesis by (auto simp: host_reply_def elim!: bindE_InrE split: if_splits)
qed

text \<open>
  \<^verbatim>\<open>host_monitor_transfer_1\<close> answers no query: its reply needs more than the 24 bytes it
  allocated and it sends 2000 of them, so every message it receives, with any id and any
  contents, ends in an access outside the allocation, provided \<^verbatim>\<open>send\<close> is asked for more than 24
  bytes at a time.
\<close>

lemma transfer_1_never_answers:
  assumes "length send_buffer = HEAD_BYTES" and "1 \<le> num_hosts s" and "length (pcstat s) = 5" and "length (hostq s) = 6"
    and "HEAD_BYTES < ut_send_cap (t1_util os) MSG_BUFF_SIZE"
  shows "host_monitor_transfer_1 os junk send_buffer recv_buffer s \<noteq> Inr (Some reply)"
proof
  assume "host_monitor_transfer_1 os junk send_buffer recv_buffer s = Inr (Some reply)"
  then obtain sb rb b u u' k n fd addr where
    recv: "tcp_recv (t1_util os) (t1_recv os) recv_buffer 0 MSG_BUFF_SIZE
      (fst (tcp_bind (t1_nonblock os) (t1_err os) fd addr (new_UTcpSocket junk))) = Inr (u, rb, n)" "0 < n"
    and sb: "put_ints [(0, msg_code MSG_TYPE_HOST), (1, local_id s), (2, 0), (3, 0)] send_buffer = Inr sb"
    and b: "host_reply rb sb s = Inr b"
    and send: "tcp_send (t1_util os) (t1_send os) b 0 MSG_BUFF_SIZE u = Inr (u', reply, k)"
    by (auto simp: host_monitor_transfer_1_def Let_def elim!: bindE_InrE split: if_splits option.splits)
  have "length sb = 24" using length_put_ints [OF sb] assms(1) by simp
  with host_reply_small [OF this assms(2-4) b] have "length b = 24" by simp
  moreover have "m_status u \<noteq> SOCK_ERROR" using tcp_recv_positive [OF recv] by simp
  ultimately show False using send assms(5) by (auto simp: tcp_send_def Let_def loadE_def split: if_splits)
qed

section \<open>Examples\<close>

definition two_hosts :: server where
  "two_hosts = zero_server\<lparr>num_hosts := 2, local_id := 1,
     hostq := zero_host # zero_host\<lparr>host_id := 1, host_stat := HOST_STAT_ONLINE\<rparr> # replicate 4 zero_host,
     pcstat := [7, 1, 2, 0, 0]\<rparr>"

lemma two_hosts:
  "num_hosts two_hosts = int 2" "is_int32 (local_id two_hosts)" "length (hostq two_hosts) = 6" "length (pcstat two_hosts) = 5"
  "\<forall>h \<in> set (hostq two_hosts). is_int32 (host_stat h)" "\<forall>x \<in> set (pcstat two_hosts). is_int32 x"
  "hostq two_hosts ! 0 = zero_host" "host_stat (hostq two_hosts ! 1) = HOST_STAT_ONLINE"
  "pcstat two_hosts ! 0 = 7" "pcstat two_hosts ! 1 = 1"
  by (simp_all add: two_hosts_def is_int32_def zero_host_def HOST_STAT_ONLINE_def zero_server_def)

lemma host_table_reply_witness:
  "\<exists>b. host_reply (header 2 1 1 0 0 0 @ []) (replicate 2000 NUL) two_hosts = Inr b
    \<and> get_int b 6 = Inr 1 \<and> get_int b 7 = Inr 0 \<and> get_int b 22 = Inr 2 \<and> get_int b 23 = Inr HOST_STAT_ONLINE"
proof -
  have a: "is_int32 2" "is_int32 1" "(2::nat) \<le> 6" "length (replicate 2000 NUL) = MSG_BUFF_SIZE"
    by (simp_all add: is_int32_def)
  from host_table_reply [OF a(1,2) two_hosts(2,1) a(3) two_hosts(3,5) a(4), of 1 0 0 "[]"] obtain b where
    b: "host_reply (header 2 1 1 0 0 0 @ []) (replicate 2000 NUL) two_hosts = Inr b"
    "\<forall>i < 2. get_int b (6 + 16 * i) = Inr (int i + 1) \<and> get_int b (7 + 16 * i) = Inr (host_stat (hostq two_hosts ! i))
       \<and> loadE b (56 + 64 * i) 32 = Inr (strncpy_bytes (ip (hostq two_hosts ! i)) 32)" by blast
  from b(2) [rule_format, of 0] b(2) [rule_format, of 1] two_hosts(7,8) b(1) show ?thesis
    by (simp add: zero_host_def)
qed

lemma host_status_reply_witness:
  "\<exists>b. host_reply (header 2 1 1 2 0 0 @ []) (replicate 2000 NUL) two_hosts = Inr b
    \<and> get_int b 6 = Inr 7 \<and> get_int b 7 = Inr 1"
proof -
  have a: "is_int32 2" "is_int32 1" "(2::nat) \<le> 5" "(1::int) \<le> 2" "length (replicate 2000 NUL) = MSG_BUFF_SIZE"
    by (simp_all add: is_int32_def)
  from host_status_reply [OF a(1,2,1) two_hosts(2,1) a(3,4) two_hosts(4,6) a(5), of 1 0 0 "[]"] obtain b where
    b: "host_reply (header 2 1 1 2 0 0 @ []) (replicate 2000 NUL) two_hosts = Inr b"
    "\<forall>i < 2. get_int b (6 + i) = Inr (pcstat two_hosts ! i)" by blast
  from b(2) [rule_format, of 0] b(2) [rule_format, of 1] two_hosts(9,10) b(1) show ?thesis by simp
qed

definition example_conn_os :: conn_os where
  "example_conn_os = \<lparr>cs_select = (\<lambda>_ s. (0, s)), cs_accept = example_ac, cs_poll = (all_ready, all_ready, all_ready),
     cs_util = \<lparr>ut_recv_cap = (\<lambda>n. n), ut_send_cap = (\<lambda>n. n)\<rparr>, cs_recv = (\<lambda>_ _. Received []),
     cs_send = (\<lambda>_ b. Sent (length b)), cs_now = 0, cs_junk = (\<lambda>_. replicate 2000 NUL)\<rparr>"

definition example_conn :: "char list \<Rightarrow> int \<Rightarrow> server \<Rightarrow> conn" where
  "example_conn buf n s = \<lparr>cn_srv = s, cn_et = example_et, cn_map = [], cn_buf = buf, cn_size = n, cn_replies = []\<rparr>"

lemma example_quiet: "\<exists>et. quiet example_conn_os (example_conn buf n s) et"
proof -
  have w: "walk_through (cs_select example_conn_os) (cs_accept example_conn_os) example_et = Inr example_et"
    by (simp add: walk_through_def example_conn_os_def example_et_def set_conn_set_def FD_SET_def FD_SETSIZE_def)
  have u: "m_tcp_listener example_et = Some (Sock_Ptr 0)" "heap example_et (Sock_Ptr 0) = Some (new_UTcpSocket 0)"
    "m_sock (new_UTcpSocket 0) = -1" "m_status (new_UTcpSocket 0) = SOCK_CLOSED" "m_tcp_accept_list example_et = []"
    by (simp_all add: example_et_def new_UTcpSocket_def)
  from select_idle [OF u, of all_ready all_ready all_ready, where 'p = "char list"] w show ?thesis
    by (auto simp: quiet_def example_conn_def example_conn_os_def example_et_def)
qed

lemma host_status_reapplied_witness:
  "\<exists>et. epbs_host_status example_conn_os (example_conn (status_message 2 1 3 @ []) 24 two_hosts) =
     Inr ((example_conn (status_message 2 1 3 @ []) 24 two_hosts)\<lparr>cn_et := et, cn_srv := two_hosts\<lparr>hostq :=
       (hostq two_hosts)[1 := (hostq two_hosts ! 1)\<lparr>host_stat := 3\<rparr>]\<rparr>\<rparr>)"
proof -
  let ?m = "example_conn (status_message 2 1 3 @ []) 24 two_hosts"
  obtain et where q: "quiet example_conn_os ?m et" using example_quiet by blast
  have m: "0 < cn_size ?m" "length (hostq (cn_srv ?m)) = 6" "cn_buf ?m = status_message 2 1 3 @ []" "cn_srv ?m = two_hosts"
    "is_int32 1" "is_int32 3"
    using two_hosts(3) by (simp_all add: example_conn_def is_int32_def)
  from host_status_reapplied [OF q m(1-3,5,6)] m(4) show ?thesis by auto
qed

lemma transfer_1_never_answers_witness:
  "host_monitor_transfer_1 \<lparr>t1_bind = True, t1_listen = True, t1_accept = Some (4, sa_reset), t1_nonblock = 0, t1_err = 0,
      t1_util = \<lparr>ut_recv_cap = (\<lambda>n. n), ut_send_cap = (\<lambda>n. n)\<rparr>, t1_recv = (\<lambda>_ _. Received (header 2 1 1 0 0 0)),
      t1_writable = (\<lambda>_. True), t1_send = (\<lambda>_ b. Sent (length b))\<rparr> 0 (replicate 24 NUL) (replicate 2000 NUL) two_hosts
    \<noteq> Inr (Some [])"
  by (rule transfer_1_never_answers) (simp_all add: two_hosts)

end
