(* ===== verification/Server_System.thy ===== *)
theory Server_System
  imports Job_Monitor Job_Dispatch Host_Monitor
begin

text \<open>
  The server process (\<^verbatim>\<open>epbssrv.c\<close>): the configuration, and the threads that \<^verbatim>\<open>main\<close> starts on the
  first host, interleaved over the shared state. A step is one pass of a thread's loop; the pop
  thread, which holds no lock while it waits and dispatches, takes the finer steps of its machine.
\<close>

section \<open>Configuration\<close>

definition clear_job :: "int \<Rightarrow> server \<Rightarrow> server res" where
  "clear_job i s =
     bindE (nthE (jobq s) i) (\<lambda>job.
     bindE (updE (username job) 0 NUL) (\<lambda>un.
     bindE (updE (pcomm job) 0 NUL) (\<lambda>pc.
     bindE (updE (jobq s) i (job\<lparr>job_id := -1, job_stat := JOB_STAT_UNKNOW, username := un, pcomm := pc\<rparr>)) (\<lambda>q.
       Inr (s\<lparr>jobq := q\<rparr>)))))"

text \<open>The file is always \<^verbatim>\<open>hosts\<close>; the other arguments are those of \<^const>\<open>read_host_config_file\<close>.\<close>

definition epbssrv_configure ::
  "char list option \<Rightarrow> char list \<Rightarrow> char list \<Rightarrow> string option \<Rightarrow> server \<Rightarrow> server res" where
  "epbssrv_configure file stack fresh my_ip s =
     bindE (read_host_config_file file stack fresh my_ip s) (\<lambda>s.
     bindE (hostq_init s) (forE [0..int MAX_JOB_QUEUE - 1] clear_job))"

text \<open>What \<^verbatim>\<open>main\<close> does before it starts the threads.\<close>

definition server_boot ::
  "char list option \<Rightarrow> char list \<Rightarrow> char list \<Rightarrow> string option \<Rightarrow> server \<Rightarrow> server res" where
  "server_boot file stack fresh my_ip s =
     bindE (epbssrv_configure file stack fresh my_ip s) (\<lambda>s. Inr (s\<lparr>job_head := 0, job_tail := 0\<rparr>))"

section \<open>The threads of the first host\<close>

text \<open>
  The shared state, the private state of each thread and the datagrams sent to the nodes. The pop
  thread is \<^const>\<open>None\<close> until it has initialised the tables.
\<close>

record system =
  sy_srv :: server
  sy_mon :: monitor
  sy_pop :: "popper option"
  sy_res :: conn
  sy_hm :: conn
  sy_hs :: conn
  sy_sent :: "packet list"

inductive sys_step :: "system \<Rightarrow> system \<Rightarrow> bool" where
  job_monitor_thread:
    "monitor_iter os ((sy_mon y)\<lparr>mo_srv := sy_srv y\<rparr>) = Inr m \<Longrightarrow>
     sys_step y (y\<lparr>sy_srv := mo_srv m, sy_mon := m\<lparr>mo_out := []\<rparr>, sy_sent := sy_sent y @ mo_out m\<rparr>)"
| pop_thread_start:
    "sy_pop y = None \<Longrightarrow> length stack = 32 \<Longrightarrow>
     sys_step y (y\<lparr>sy_srv := pop_start (sy_srv y), sy_pop := Some \<lparr>pp_pc = Pop_Poll, pp_pcomm = stack\<rparr>\<rparr>)"
| pop_thread:
    "sy_pop y = Some p \<Longrightarrow> pop_step net malloc now (sy_srv y) p = Inr (s', p', sent) \<Longrightarrow>
     sys_step y (y\<lparr>sy_srv := s', sy_pop := Some p', sy_sent := sy_sent y @ sent\<rparr>)"
| job_queue_result_thread:
    "job_queue_result_1 cos ((sy_res y)\<lparr>cn_srv := sy_srv y\<rparr>) = Inr c \<Longrightarrow>
     sys_step y (y\<lparr>sy_srv := cn_srv c, sy_res := c\<rparr>)"
| host_monitor_thread:
    "host_monitor_transfer_2 cos ((sy_hm y)\<lparr>cn_srv := sy_srv y\<rparr>) = Inr c \<Longrightarrow>
     sys_step y (y\<lparr>sy_srv := cn_srv c, sy_hm := c\<rparr>)"
| host_status_thread:
    "epbs_host_status cos ((sy_hs y)\<lparr>cn_srv := sy_srv y\<rparr>) = Inr c \<Longrightarrow>
     sys_step y (y\<lparr>sy_srv := cn_srv c, sy_hs := c\<rparr>)"

text \<open>\<^verbatim>\<open>main\<close> has configured the server and every thread has opened its port, or tried to.\<close>

definition sys_start :: "system \<Rightarrow> bool" where
  "sys_start y \<longleftrightarrow> (\<exists>file stack fresh my_ip ios mstack ios1 p1 b1 ios2 p2 b2 ios3 p3 b3 j0 j1 j2 j3.
     server_boot file stack fresh my_ip zero_server = Inr (sy_srv y)
     \<and> sy_mon y = monitor_start ios j0 mstack (sy_srv y) \<and> sy_pop y = None
     \<and> sy_res y = conn_start ios1 p1 j1 b1 (sy_srv y) \<and> sy_hm y = conn_start ios2 p2 j2 b2 (sy_srv y)
     \<and> sy_hs y = conn_start ios3 p3 j3 b3 (sy_srv y) \<and> sy_sent y = [])"

section \<open>What the passes keep of the shared state\<close>

text \<open>Well-formed tables and the same ends of the queue.\<close>

definition same_queue :: "server \<Rightarrow> server \<Rightarrow> bool" where
  "same_queue s s' \<longleftrightarrow> server_ok s' \<and> job_head s' = job_head s \<and> job_tail s' = job_tail s"

lemma same_queue_trans: "same_queue a b \<Longrightarrow> same_queue b c \<Longrightarrow> same_queue a c"
  by (simp add: same_queue_def)

text \<open>
  What a report does to the shared state: nothing, one count less, or the last count and the job's new
  state.
\<close>

lemma take_result_cases:
  assumes "take_result now b s = Inr s'"
  obtains (other) "s' = s"
  | (count) k J where "in_range (jobnodes s) J" "jobnodes s ! nat J \<noteq> 1"
      "s' = s\<lparr>pcstat := (pcstat s)[k := HOST_STAT_FREE], jobnodes := (jobnodes s)[nat J := jobnodes s ! nat J - 1]\<rparr>"
  | (finish) k J where "in_range (jobnodes s) J" "in_range (jobq s) J" "jobnodes s ! nat J = 1"
      "s' = s\<lparr>pcstat := (pcstat s)[k := HOST_STAT_FREE], jobnodes := (jobnodes s)[nat J := 0],
          jobq := (jobq s)[nat J := (jobq s ! nat J)\<lparr>job_stat := JOB_STAT_FINISHED, time3 := now\<rparr>]\<rparr>"
proof -
  from assms obtain src jid relt where g: "get_int b 1 = Inr src" "get_int b 3 = Inr jid" "get_int b 4 = Inr relt"
    by (auto simp: take_result_def elim!: bindE_InrE)
  show ?thesis
  proof (cases "relt = JOB_STAT_FINISHED")
    case False
    with assms g show ?thesis by (intro other) (simp add: take_result_def)
  next
    case fin: True
    let ?d = "s\<lparr>pcstat := (pcstat s)[nat src := HOST_STAT_FREE], jobnodes := (jobnodes s)[nat jid := jobnodes s ! nat jid - 1]\<rparr>"
    from assms g fin have r: "in_range (jobnodes s) jid" and t:
      "(if jobnodes s ! nat jid = 1 then bindE (nthE (jobq s) jid) (\<lambda>j.
          Inr (?d\<lparr>jobq := (jobq s)[nat jid := j\<lparr>job_stat := JOB_STAT_FINISHED, time3 := now\<rparr>]\<rparr>))
        else Inr ?d) = Inr s'"
      by (auto simp: take_result_def Let_def nthE_Inr_iff updE_Inr_iff elim!: bindE_InrE)
    show ?thesis
    proof (cases "jobnodes s ! nat jid = 1")
      case True
      with t show ?thesis by (intro finish [where k = "nat src", OF r _ True]) (auto simp: nthE_Inr_iff elim!: bindE_InrE)
    next
      case False
      with t show ?thesis by (intro count [where k = "nat src", OF r False]) simp
    qed
  qed
qed

lemma take_result_queue:
  assumes ok: "server_ok s" and t: "take_result now b s = Inr s'"
  shows "same_queue s s'"
proof -
  have tab: "server_ok (s\<lparr>pcstat := (pcstat s)[k := x], jobnodes := (jobnodes s)[i := y]\<rparr>)" for k x i y
    using server_ok_tables(1) [OF server_ok_tables(3) [OF ok]] by (simp add: server_ok_def)
  from t show ?thesis
  proof (cases rule: take_result_cases)
    case other
    then show ?thesis using ok by (simp add: same_queue_def)
  next
    case (count k J)
    then show ?thesis using tab by (simp add: same_queue_def)
  next
    case (finish k J)
    let ?j = "(jobq s ! nat J)\<lparr>job_stat := JOB_STAT_FINISHED, time3 := now\<rparr>"
    have "nat J < 32" using finish(2) server_okD(1) [OF ok] by (simp add: in_range_def)
    then have "job_ok ?j" using server_ok_job [OF ok] by (simp add: job_ok_def)
    from server_ok_jobq [OF tab [where k = k and x = HOST_STAT_FREE and i = "nat J" and y = 0] this, of "nat J"]
    show ?thesis unfolding finish(4) by (simp add: same_queue_def)
  qed
qed

lemma host_status_update_queue:
  "server_ok s \<Longrightarrow> host_status_update b s = Inr s' \<Longrightarrow> same_queue s s'"
  by (auto simp: host_status_update_def same_queue_def updE_Inr_iff server_ok_tables elim!: bindE_InrE)

text \<open>A property of the shared state that a handler keeps is kept by its thread's passes.\<close>

lemma conn_recv_srv: "conn_recv os r m = Inr m' \<Longrightarrow> cn_srv m' = cn_srv m"
  by (auto simp: conn_recv_def elim!: bindE_InrE)

lemma conn_destroy_srv: "conn_destroy r m = Inr m' \<Longrightarrow> cn_srv m' = cn_srv m"
  by (auto simp: conn_destroy_def elim!: bindE_InrE)

lemma conn_accept_srv: "conn_accept m = Inr m' \<Longrightarrow> cn_srv m' = cn_srv m"
  by (auto simp: conn_accept_def elim!: bindE_InrE split: option.splits)

lemma conn_iter_srv:
  assumes "\<And>os up r m m'. P (cn_srv m) \<Longrightarrow> h os up r m = Inr m' \<Longrightarrow> P (cn_srv m')"
    and "P (cn_srv m)" and "conn_iter h os m = Inr m'"
  shows "P (cn_srv m')"
proof -
  have ev: "P (cn_srv y)" if "P (cn_srv x)" and "conn_event h os up x = Inr y" for x y up
    using that assms(1) conn_accept_srv by (auto simp: conn_event_def split: option.splits if_splits)
  obtain p0 p1 p2 where p: "cs_poll os = (p0, p1, p2)" by (cases "cs_poll os")
  from assms(3) obtain e1 et dst n where "walk_through (cs_select os) (cs_accept os) (cn_et m) = Inr e1"
    "select p0 p1 p2 (map snd (cn_map m) @ [\<lparr>usock = m_tcp_listener (cn_et m), events = UPOLL_READ_T, pointer = None\<rparr>]) e1
      = Inr (et, dst, n)"
    "(if n > 0 then forE dst (conn_event h os) (m\<lparr>cn_et := et\<rparr>) else Inr (m\<lparr>cn_et := et\<rparr>)) = Inr m'"
    unfolding conn_iter_def Let_def p prod.case by (auto elim!: bindE_InrE)
  then show ?thesis
    using forE_Inr_invariant [where I = "\<lambda>m. P (cn_srv m)", of dst "conn_event h os" "m\<lparr>cn_et := et\<rparr>" m'] ev assms(2)
    by (auto split: if_splits)
qed

lemma result_event_srv:
  assumes "same_queue s0 (cn_srv m)" and "result_event os up r m = Inr m'"
  shows "same_queue s0 (cn_srv m')"
proof -
  have ok: "server_ok (cn_srv m)" using assms(1) by (simp add: same_queue_def)
  show ?thesis
  proof (cases "has_event (events up) UPOLL_READ_T")
    case True
    with assms(2) obtain m1 s where m1: "conn_recv os r m = Inr m1" "take_result (cs_now os) (cn_buf m1) (cn_srv m1) = Inr s"
      "conn_destroy r (m1\<lparr>cn_srv := s\<rparr>) = Inr m'"
      by (auto simp: result_event_def elim!: bindE_InrE)
    have "same_queue (cn_srv m) s" using take_result_queue [OF ok] m1(2) conn_recv_srv [OF m1(1)] by simp
    moreover have "cn_srv m' = s" using conn_destroy_srv [OF m1(3)] by simp
    ultimately show ?thesis using same_queue_trans [OF assms(1)] by simp
  next
    case False
    with assms conn_destroy_srv show ?thesis by (auto simp: result_event_def split: if_splits)
  qed
qed

lemma host_monitor_event_srv: "host_monitor_event os up r m = Inr m' \<Longrightarrow> cn_srv m' = cn_srv m"
  by (auto simp: host_monitor_event_def split: if_splits option.splits elim!: bindE_InrE
      dest!: conn_destroy_srv conn_recv_srv)

lemma host_status_event_srv: "host_status_event os up r m = Inr m' \<Longrightarrow> cn_srv m' = cn_srv m"
  by (auto simp: host_status_event_def split: if_splits elim!: bindE_InrE dest!: conn_destroy_srv conn_recv_srv)

lemma result_pass_queue:
  "server_ok (cn_srv m) \<Longrightarrow> job_queue_result_1 os m = Inr m' \<Longrightarrow> same_queue (cn_srv m) (cn_srv m')"
  unfolding job_queue_result_1_def
  by (rule conn_iter_srv [where P = "same_queue (cn_srv m)"], rule result_event_srv) (simp_all add: same_queue_def)

lemma host_monitor_pass_srv: "host_monitor_transfer_2 os m = Inr m' \<Longrightarrow> cn_srv m' = cn_srv m"
  unfolding host_monitor_transfer_2_def
  by (rule conn_iter_srv [where P = "\<lambda>s. s = cn_srv m"]) (simp_all add: host_monitor_event_srv)

lemma host_status_pass_queue:
  assumes "server_ok (cn_srv m)" and "epbs_host_status os m = Inr m'"
  shows "same_queue (cn_srv m) (cn_srv m')"
proof -
  from assms(2) obtain m1 where m1: "conn_iter host_status_event os m = Inr m1"
    "(if cn_size m1 > 0 then bindE (host_status_update (cn_buf m1) (cn_srv m1)) (\<lambda>s. Inr (m1\<lparr>cn_srv := s\<rparr>))
      else Inr m1) = Inr m'" by (auto simp: epbs_host_status_def elim!: bindE_InrE)
  have s: "cn_srv m1 = cn_srv m"
    by (rule conn_iter_srv [where P = "\<lambda>s. s = cn_srv m", OF _ refl m1(1)]) (simp_all add: host_status_event_srv)
  show ?thesis
  proof (cases "cn_size m1 > 0")
    case True
    with m1(2) obtain s' where "host_status_update (cn_buf m1) (cn_srv m1) = Inr s'" "cn_srv m' = s'"
      by (auto elim!: bindE_InrE)
    with host_status_update_queue assms(1) s show ?thesis by auto
  next
    case False
    with m1(2) s assms(1) show ?thesis by (simp add: same_queue_def)
  qed
qed

lemma pop_start_queue: "server_ok s \<Longrightarrow> same_queue s (pop_start s)"
  by (simp add: same_queue_def pop_start_def server_ok_def)

section \<open>Booting\<close>

lemma set_name_length: "set_name tab i name = Inr tab' \<Longrightarrow> length tab' = length tab"
  by (auto simp: set_name_def updE_Inr_iff elim!: bindE_InrE split: option.splits)

lemma read_hosts_length:
  "read_hosts b n p i ht it = Inr (j, ht', it') \<Longrightarrow> length ht' = length ht \<and> length it' = length it"
proof (induction b n p i ht it arbitrary: j ht' it' rule: read_hosts.induct)
  case (1 b n p i ht it)
  show ?case
  proof (cases "n > 13")
    case False
    with "1.prems" show ?thesis by (subst (asm) read_hosts.simps) simp
  next
    case True
    show ?thesis
    proof (cases "next_host b p")
      case (Inl e)
      with True "1.prems" show ?thesis by (subst (asm) read_hosts.simps) simp
    next
      case (Inr r)
      show ?thesis
      proof (cases r)
        case None
        with True Inr "1.prems" show ?thesis by (subst (asm) read_hosts.simps) simp
      next
        case (Some q)
        obtain p1 p2 where q: "q = (p1, p2)" by (cases q)
        from "1.prems" obtain h t where ht: "set_name ht i (take (p2 - p1) (drop p1 b)) = Inr h"
          "set_name it i (take (p2 - p1) (drop p1 b)) = Inr t"
          "read_hosts b (n - (int (p2 - p1) + 13)) (p2 + 7) (i + 1) h t = Inr (j, ht', it')"
          unfolding read_hosts.simps [of b n p i ht it] using True Inr Some q by (auto simp: Let_def elim!: bindE_InrE)
        have c: "\<not> \<not> n > 13" using True by simp
        from "1.IH" [OF c] Inr Some q ht set_name_length show ?thesis by fastforce
      qed
    qed
  qed
qed

lemma read_host_config_file_ok:
  assumes "server_ok s" and "read_host_config_file file stack fresh my_ip s = Inr s'"
  shows "server_ok s'"
proof -
  from assms(2) obtain l n h t where s': "s' = s\<lparr>local_id := l, num_hosts := n, hosts := h, ips := t\<rparr>"
    and r: "\<exists>b k p i. read_hosts b k p i (empty_table fresh) (empty_table fresh) = Inr (n + 1, h, t)"
    by (auto simp: read_host_config_file_def Let_def elim!: bindE_InrE split: option.splits if_splits)
      (metis diff_add_cancel)
  from r read_hosts_length have "length h = 6" "length t = 6" by (fastforce simp: empty_table_def)+
  with assms(1) show ?thesis unfolding s' by (simp add: server_ok_def)
qed

lemma hostq_init_ok:
  assumes "server_ok s" and "hostq_init s = Inr s'"
  shows "server_ok s'"
proof -
  let ?s = "s\<lparr>pcstat := replicate MAX_NUM_HOSTS HOST_STAT_ONLINE\<rparr>"
  have "server_ok ?s" using assms(1) by (simp add: server_ok_def)
  moreover have "server_ok y" if "server_ok x" and "hostq_init_entry i x = Inr y" for x y i
    using that by (auto simp: hostq_init_entry_def updE_Inr_iff server_ok_tables elim!: bindE_InrE)
  ultimately show ?thesis
    using assms(2) forE_Inr_invariant [where I = server_ok, of "[1..int MAX_NUM_HOSTS]" hostq_init_entry ?s s']
    by (simp add: hostq_init_def)
qed

lemma clear_job_ok:
  assumes "server_ok s" and "clear_job i s = Inr s'"
  shows "server_ok s'"
proof -
  from assms(2) obtain un pc where i: "in_range (jobq s) i" and un: "in_range (username (jobq s ! nat i)) 0"
      "in_range (pcomm (jobq s ! nat i)) 0"
    and s': "s' = s\<lparr>jobq := (jobq s)[nat i := (jobq s ! nat i)\<lparr>job_id := -1, job_stat := JOB_STAT_UNKNOW,
      username := (username (jobq s ! nat i))[0 := NUL], pcomm := (pcomm (jobq s ! nat i))[0 := NUL]\<rparr>]\<rparr>"
    by (auto simp: clear_job_def nthE_Inr_iff updE_Inr_iff elim!: bindE_InrE)
  have "job_ok (jobq s ! nat i)" using assms(1) i by (simp add: server_ok_def in_range_def)
  moreover have "NUL \<in> set (xs[0 := NUL])" if "in_range xs 0" for xs
    using that by (simp add: in_range_def set_update_memI)
  ultimately have "job_ok ((jobq s ! nat i)\<lparr>job_id := -1, job_stat := JOB_STAT_UNKNOW,
      username := (username (jobq s ! nat i))[0 := NUL], pcomm := (pcomm (jobq s ! nat i))[0 := NUL]\<rparr>)"
    using un by (simp add: job_ok_def)
  then show ?thesis unfolding s' by (rule server_ok_jobq [OF assms(1)])
qed

lemma server_boot_ok:
  assumes "server_ok s" and "server_boot file stack fresh my_ip s = Inr s'"
  shows "server_ok s' \<and> job_head s' = 0 \<and> job_tail s' = 0"
proof -
  from assms(2) obtain s1 s2 s3 where 1: "read_host_config_file file stack fresh my_ip s = Inr s1"
    and 2: "hostq_init s1 = Inr s2" and 3: "forE [0..int MAX_JOB_QUEUE - 1] clear_job s2 = Inr s3"
    and s': "s' = s3\<lparr>job_head := 0, job_tail := 0\<rparr>"
    by (auto simp: server_boot_def epbssrv_configure_def elim!: bindE_InrE)
  have "server_ok s2" by (rule hostq_init_ok [OF read_host_config_file_ok [OF assms(1) 1] 2])
  with forE_Inr_invariant [where I = server_ok, OF 3] clear_job_ok have "server_ok s3" by blast
  then show ?thesis unfolding s' by (simp add: server_ok_def)
qed

section \<open>The whole server\<close>

definition sys_inv :: "system \<Rightarrow> bool" where
  "sys_inv y \<longleftrightarrow> server_ok (sy_srv y) \<and> job_head (sy_srv y) = job_tail (sy_srv y) \<and> sy_sent y = []
     \<and> (\<forall>p. sy_pop y = Some p \<longrightarrow> pp_pc p = Pop_Poll)
     \<and> ((\<exists>stack. deaf stack (sy_mon y))
        \<or> m_tcp_listener (mo_et (sy_mon y)) = None \<and> mo_map (sy_mon y) = [] \<and> mo_replies (sy_mon y) = [])
     \<and> et_ok (cn_et (sy_res y)) \<and> et_ok (cn_et (sy_hm y)) \<and> et_ok (cn_et (sy_hs y))"

lemma conn_start_ok: "et_ok (cn_et (conn_start ios port junk stack s))"
  using init_tcp_ok [of ios port junk] by (simp add: conn_start_def) (metis prod.collapse)

lemma sys_inv_init: "sys_start y \<Longrightarrow> sys_inv y"
proof -
  assume "sys_start y"
  then obtain f stack fresh my_ip ios mstack j0 where
    b: "server_boot f stack fresh my_ip zero_server = Inr (sy_srv y)"
    and m: "sy_mon y = monitor_start ios j0 mstack (sy_srv y)" and "sy_pop y = None" "sy_sent y = []"
    "et_ok (cn_et (sy_res y))" "et_ok (cn_et (sy_hm y))" "et_ok (cn_et (sy_hs y))"
    using conn_start_ok unfolding sys_start_def by metis
  with server_boot_ok [OF server_ok_zero b] monitor_start_state [of mstack ios j0 "sy_srv y"] show ?thesis
    unfolding sys_inv_def by auto
qed

lemma pop_poll_idle:
  "pp_pc p = Pop_Poll \<Longrightarrow> job_head s = job_tail s \<Longrightarrow> pop_step net malloc now s p = Inr (s, p, [])"
  by (simp add: pop_step_def job_dequeue_def)

lemma sys_inv_step:
  assumes inv: "sys_inv y" and step: "sys_step y y'"
  shows "sys_inv y'"
  using step
proof cases
  case (job_monitor_thread os m)
  let ?m = "(sy_mon y)\<lparr>mo_srv := sy_srv y\<rparr>"
  have "\<not> (m_tcp_listener (mo_et ?m) = None \<and> mo_map ?m = [])"
    using null_listener_iter [of ?m os] job_monitor_thread(2) by auto
  then obtain stack where "deaf stack ?m" using inv by (auto simp: sys_inv_def deaf_def)
  from deaf_iter [OF this, of os] job_monitor_thread(2) have m: "deaf stack m" "mo_srv m = sy_srv y" by auto
  then have "mo_out m = []" "deaf stack (m\<lparr>mo_out := []\<rparr>)" by (auto simp: deaf_def)
  with inv m(2) show ?thesis unfolding job_monitor_thread(1) by (auto simp: sys_inv_def)
next
  case (pop_thread_start stack)
  have "same_queue (sy_srv y) (pop_start (sy_srv y))" using inv pop_start_queue by (simp add: sys_inv_def)
  with inv show ?thesis unfolding pop_thread_start(1) by (simp add: sys_inv_def same_queue_def)
next
  case (pop_thread p net malloc now s' p' sent)
  have "pop_step net malloc now (sy_srv y) p = Inr (sy_srv y, p, [])"
    using inv pop_thread(2) by (intro pop_poll_idle) (simp_all add: sys_inv_def)
  with pop_thread(3) inv pop_thread(2) show ?thesis unfolding pop_thread(1) by (auto simp: sys_inv_def)
next
  case (job_queue_result_thread cos c)
  have "same_queue (sy_srv y) (cn_srv c)"
    using result_pass_queue [OF _ job_queue_result_thread(2)] inv by (simp add: sys_inv_def)
  moreover have "et_ok (cn_et c)"
    using result.iter_frame [OF _ job_queue_result_thread(2) [unfolded job_queue_result_1_def]] inv
    by (simp add: sys_inv_def keeps_fds_def)
  ultimately show ?thesis using inv unfolding job_queue_result_thread(1) by (simp add: sys_inv_def same_queue_def)
next
  case (host_monitor_thread cos c)
  have "cn_srv c = sy_srv y" using host_monitor_pass_srv [OF host_monitor_thread(2)] by simp
  moreover have "et_ok (cn_et c)"
    using host_monitor.iter_frame [OF _ host_monitor_thread(2) [unfolded host_monitor_transfer_2_def]] inv
    by (simp add: sys_inv_def keeps_fds_def)
  ultimately show ?thesis using inv unfolding host_monitor_thread(1) by (simp add: sys_inv_def)
next
  case (host_status_thread cos c)
  have "same_queue (sy_srv y) (cn_srv c)"
    using host_status_pass_queue [OF _ host_status_thread(2)] inv by (simp add: sys_inv_def)
  moreover have "et_ok (cn_et c)"
    using epbs_host_status_frame [OF _ host_status_thread(2)] inv by (simp add: sys_inv_def keeps_fds_def)
  ultimately show ?thesis using inv unfolding host_status_thread(1) by (simp add: sys_inv_def same_queue_def)
qed

interpretation server_system: invariant_system sys_start sys_step sys_inv
  by unfold_locales (rule sys_inv_init, assumption, rule sys_inv_step)


section \<open>A server that boots\<close>

definition cleared :: "batch_job_info \<Rightarrow> bool" where
  "cleared j \<longleftrightarrow> job_id j = -1 \<and> job_stat j = JOB_STAT_UNKNOW \<and> c_str_of (pcomm j) = [] \<and> c_str_of (username j) = []"

lemma c_str_of_cleared: "xs \<noteq> [] \<Longrightarrow> c_str_of (xs[0 := NUL]) = []"
  by (cases xs) (simp_all add: c_str_of_def)

lemma clear_job_in:
  assumes "server_ok s" and "i < 32"
  shows "\<exists>j. clear_job (int i) s = Inr (s\<lparr>jobq := (jobq s)[i := j]\<rparr>) \<and> job_ok j \<and> cleared j"
proof -
  let ?o = "jobq s ! i"
  let ?j = "?o\<lparr>job_id := -1, job_stat := JOB_STAT_UNKNOW, username := (username ?o)[0 := NUL], pcomm := (pcomm ?o)[0 := NUL]\<rparr>"
  have o: "job_ok ?o" by (rule server_ok_job [OF assms])
  then have l: "length (username ?o) = 32" "length (pcomm ?o) = 256" by (simp_all add: job_ok_def)
  have ne: "username ?o \<noteq> []" "pcomm ?o \<noteq> []" using l by auto
  have c: "clear_job (int i) s = Inr (s\<lparr>jobq := (jobq s)[i := ?j]\<rparr>)"
    using server_okD(1) [OF assms(1)] assms(2) ne by (simp add: clear_job_def in_range_def)
  from clear_job_ok [OF assms(1) c] have "\<forall>j \<in> set ((jobq s)[i := ?j]). job_ok j" by (simp add: server_ok_def)
  then have "job_ok ?j" using server_okD(1) [OF assms(1)] assms(2) by (simp add: set_update_memI)
  moreover have "cleared ?j" using c_str_of_cleared [OF ne(1)] c_str_of_cleared [OF ne(2)] by (simp add: cleared_def)
  ultimately show ?thesis using c by blast
qed

lemma clear_jobs:
  assumes "server_ok s"
  shows "\<exists>q. forE [0..int MAX_JOB_QUEUE - 1] clear_job s = Inr (s\<lparr>jobq := q\<rparr>)
    \<and> length q = 32 \<and> (\<forall>j \<in> set q. job_ok j \<and> cleared j)"
proof -
  let ?P = "\<lambda>m u. \<exists>q. u = s\<lparr>jobq := q\<rparr> \<and> length q = 32 \<and> (\<forall>j \<in> set q. job_ok j) \<and> (\<forall>i < m. cleared (q ! i))"
  have "\<exists>u. forE [0..int 32 - 1] clear_job s = Inr u \<and> ?P 32 u"
  proof (rule forE_count0 [where P = ?P])
    show "?P 0 s" using assms by (intro exI [of _ "jobq s"]) (simp add: server_ok_def)
  next
    fix m u
    assume m: "m < (32::nat)" and "?P m u"
    then obtain q where q: "u = s\<lparr>jobq := q\<rparr>" "length q = 32" "\<forall>j \<in> set q. job_ok j" "\<forall>i < m. cleared (q ! i)" by blast
    have "server_ok u" using assms q by (simp add: server_ok_def)
    from clear_job_in [OF this m] obtain j where j: "clear_job (int m) u = Inr (u\<lparr>jobq := (jobq u)[m := j]\<rparr>)"
      "job_ok j" "cleared j" by blast
    have "?P (Suc m) (u\<lparr>jobq := (jobq u)[m := j]\<rparr>)"
      using q j m set_update_ball [of q job_ok j m]
      by (intro exI [of _ "q[m := j]"]) (auto simp: nth_list_update less_Suc_eq)
    with j(1) show "\<exists>u'. clear_job (int m) u = Inr u' \<and> ?P (Suc m) u'" by blast
  qed
  then obtain q where "forE [0..int 32 - 1] clear_job s = Inr (s\<lparr>jobq := q\<rparr>)" "length q = 32" "\<forall>j \<in> set q. job_ok j"
    "\<forall>i < 32. cleared (q ! i)" by blast
  then show ?thesis by (intro exI [of _ q]) (auto simp: in_set_conv_nth)
qed

lemma server_boots:
  assumes names: "\<forall>n \<in> set ns. host_name_ok n \<and> length n \<le> 32" and len: "length ns = 5"
    and fresh: "length fresh = 64" and t: "length trail \<le> 13"
    and size: "length (concat (map host_entry ns) @ trail) \<le> 1024" and stack: "length stack = 1024"
    and my_ip: "no_nul my_ip" "length my_ip \<le> 64" and own: "\<exists>n \<in> set ns. prefix my_ip n"
  shows "\<exists>s. server_boot (Some (concat (map host_entry ns) @ trail)) stack fresh (Some my_ip) zero_server = Inr s
    \<and> server_ok s \<and> num_hosts s = 5 \<and> names_at (ips s) 1 ns \<and> pending s = []
    \<and> (\<forall>k < 5. host_entry_ready (int (Suc k)) (ns ! k) (hostq s ! Suc k))
    \<and> (\<forall>j \<in> set (jobq s). cleared j)"
proof -
  have n: "\<forall>n \<in> set ns. host_name_ok n" "length ns \<le> 5" using names len by simp_all
  from config_file_read [OF n fresh t size stack my_ip, of zero_server, unfolded if_P [OF own]] obtain l h u where
    1: "read_host_config_file (Some (concat (map host_entry ns) @ trail)) stack fresh (Some my_ip) zero_server
      = Inr (zero_server\<lparr>local_id := int l, num_hosts := int (length ns), hosts := h, ips := u\<rparr>)" "names_at u 1 ns" by blast
  let ?s1 = "zero_server\<lparr>local_id := int l, num_hosts := int (length ns), hosts := h, ips := u\<rparr>"
  have "ptr_cstr (ips ?s1) (int k) = Inr (ns ! (k - 1)) \<and> length (ns ! (k - 1)) \<le> 32" if "1 \<le> k \<and> k \<le> 5" for k
  proof -
    from that len have k: "k - 1 < length ns" "1 + (k - 1) = k" by auto
    with 1(2) have "ptr_cstr u (int (1 + (k - 1))) = Inr (ns ! (k - 1))" unfolding names_at_def by blast
    with k names show ?thesis by simp
  qed
  then have p: "\<forall>k. 1 \<le> k \<and> k \<le> 5 \<longrightarrow> ptr_cstr (ips ?s1) (int k) = Inr (ns ! (k - 1)) \<and> length (ns ! (k - 1)) \<le> 32" by blast
  have "hostq_ok (hostq ?s1)" by (simp add: hostq_ok_def zero_server_def zero_host_def)
  from hostq_initialised [where name = "\<lambda>k. ns ! (k - 1)", OF p this] obtain q where
    2: "hostq_init ?s1 = Inr (?s1\<lparr>pcstat := replicate MAX_NUM_HOSTS HOST_STAT_ONLINE, hostq := q\<rparr>)"
      "\<forall>k. 1 \<le> k \<and> k \<le> 5 \<longrightarrow> host_entry_ready (int k) (ns ! (k - 1)) (q ! k)" by blast
  let ?s2 = "?s1\<lparr>pcstat := replicate MAX_NUM_HOSTS HOST_STAT_ONLINE, hostq := q\<rparr>"
  have ok2: "server_ok ?s2" by (rule hostq_init_ok [OF read_host_config_file_ok [OF server_ok_zero 1(1)] 2(1)])
  from clear_jobs [OF ok2] obtain jq where 3: "forE [0..int MAX_JOB_QUEUE - 1] clear_job ?s2 = Inr (?s2\<lparr>jobq := jq\<rparr>)"
    "\<forall>j \<in> set jq. job_ok j \<and> cleared j" by blast
  let ?s = "?s2\<lparr>jobq := jq, job_head := 0, job_tail := 0\<rparr>"
  have b: "server_boot (Some (concat (map host_entry ns) @ trail)) stack fresh (Some my_ip) zero_server = Inr ?s"
    using 1(1) 2(1) 3(1) by (simp add: server_boot_def epbssrv_configure_def)
  from server_boot_ok [OF server_ok_zero b] pending_Nil_iff [of ?s] have "server_ok ?s" "pending ?s = []" by simp_all
  moreover have "\<forall>k < 5. host_entry_ready (int (Suc k)) (ns ! k) (q ! Suc k)"
  proof (intro allI impI)
    fix k :: nat
    assume "k < 5"
    then show "host_entry_ready (int (Suc k)) (ns ! k) (q ! Suc k)" using 2(2) [rule_format, of "Suc k"] by simp
  qed
  ultimately show ?thesis using b 1(2) 3(2) len by (intro exI [of _ ?s]) simp
qed

text \<open>
  C24. Booting with a configuration of five hosts, the local machine among them: the server comes up
  with the names in its table, every host online under its own number, an empty queue and all job
  slots cleared, with ids that no query asks for.
\<close>

theorem server_boot_result:
  assumes names: "\<forall>n \<in> set ns. host_name_ok n \<and> length n \<le> 32" and len: "length ns = 5"
    and fresh: "length fresh = 64" and t: "length trail \<le> 13"
    and size: "length (concat (map host_entry ns) @ trail) \<le> 1024" and stack: "length stack = 1024"
    and my_ip: "no_nul my_ip" "length my_ip \<le> 64" and own: "\<exists>n \<in> set ns. prefix my_ip n"
  shows "\<exists>s. server_boot (Some (concat (map host_entry ns) @ trail)) stack fresh (Some my_ip) zero_server = Inr s
    \<and> server_ok s \<and> num_hosts s = 5 \<and> names_at (ips s) 1 ns \<and> pending s = []
    \<and> (\<forall>k < 5. host_entry_ready (int (Suc k)) (ns ! k) (hostq s ! Suc k))
    \<and> (\<forall>j \<in> set (jobq s). cleared j)"
  using assms by (rule server_boots)

definition five_names :: "string list" where
  "five_names = [''n1'', ''n2'', ''n3'', ''n4'', ''n5'']"

lemma five_names:
  "\<forall>n \<in> set five_names. host_name_ok n \<and> length n \<le> 32" "length five_names = 5" "length (replicate 64 NUL) = 64"
  "length [] \<le> 13" "length (concat (map host_entry five_names) @ []) \<le> 1024" "length (replicate 1024 NUL) = 1024"
  "no_nul ''n2''" "length ''n2'' \<le> 64" "\<exists>n \<in> set five_names. prefix ''n2'' n"
  by (simp_all add: five_names_def host_name_ok_def no_nul_def NUL_def host_entry_def)

lemma server_boot_result_witness:
  "\<exists>s. server_boot (Some (concat (map host_entry five_names) @ [])) (replicate 1024 NUL) (replicate 64 NUL)
      (Some ''n2'') zero_server = Inr s
    \<and> num_hosts s = 5 \<and> ptr_cstr (ips s) 3 = Inr ''n3''"
proof -
  from server_boot_result [OF five_names] obtain s where
    s: "server_boot (Some (concat (map host_entry five_names) @ [])) (replicate 1024 NUL) (replicate 64 NUL)
      (Some ''n2'') zero_server = Inr s" "num_hosts s = 5" "names_at (ips s) 1 five_names" by blast
  from s(3) [unfolded names_at_def, rule_format, of 2] have "ptr_cstr (ips s) 3 = Inr ''n3''" by (simp add: five_names_def)
  with s show ?thesis by blast
qed


section \<open>Descriptors\<close>

text \<open>
  C25. The threads that serve connections never close one: in any run of the report thread, the
  host monitor or the status thread, the descriptors closed stay those closed while the port was
  opened, and every descriptor once in the map stays there. Their next connection with a descriptor
  that does not fit an \<^verbatim>\<open>fd_set\<close> ends the pass in an access outside it.
\<close>

theorem service_threads_leak:
  assumes thread: "iter \<in> {job_queue_result_1, host_monitor_transfer_2, epbs_host_status}"
    and ok: "et_ok (cn_et m)" and run: "conn_run iter script m = Inr m'"
  shows "closed_fds (cn_et m') = closed_fds (cn_et m)
    \<and> fst ` set (m_tcp_map (cn_et m)) \<subseteq> fst ` set (m_tcp_map (cn_et m'))
    \<and> (\<forall>os. small_fds (cn_et m') \<and> 0 \<le> m_tcp_sock (cn_et m') \<and> new_connection (cs_select os) (cn_et m')
          \<and> FD_SETSIZE \<le> ac_sock (cs_accept os) \<longrightarrow> (\<exists>e. iter os m' = Inl e))"
proof -
  have pass: "keeps_fds (cn_et a) (cn_et b)" if "et_ok (cn_et a)" "iter os a = Inr b" for os a b
    using thread that result.iter_frame host_monitor.iter_frame epbs_host_status_frame
    unfolding job_queue_result_1_def host_monitor_transfer_2_def by blast
  have k: "keeps_fds (cn_et m) (cn_et m')" using run ok by (rule conn_run_frame) (rule pass)
  have "\<exists>e. iter os m' = Inl e"
    if "small_fds (cn_et m')" "0 \<le> m_tcp_sock (cn_et m')" "new_connection (cs_select os) (cn_et m')"
      "FD_SETSIZE \<le> ac_sock (cs_accept os)" for os
  proof -
    have "\<exists>e. conn_iter h os m' = Inl e" for h
      using k that by (intro conn_iter_large_fd) (simp_all add: keeps_fds_def)
    then obtain a b c where "conn_iter result_event os m' = Inl a" "conn_iter host_monitor_event os m' = Inl b"
      "conn_iter host_status_event os m' = Inl c" by meson
    then have "job_queue_result_1 os m' = Inl a" "host_monitor_transfer_2 os m' = Inl b" "epbs_host_status os m' = Inl c"
      by (simp_all add: job_queue_result_1_def host_monitor_transfer_2_def epbs_host_status_def)
    with thread show ?thesis by blast
  qed
  with k show ?thesis by (simp add: keeps_fds_def)
qed

lemma service_threads_leak_witness:
  "\<exists>m. conn_run host_monitor_transfer_2 [(example_conn_os, two_hosts)] (example_conn [] 0 two_hosts) = Inr m
    \<and> closed_fds (cn_et m) = []"
proof -
  have e: "et_ok (cn_et (example_conn [] 0 two_hosts))"
    using et_machine.inv_init [OF example_et(1)] by (simp add: example_conn_def)
  have "(example_conn [] 0 two_hosts)\<lparr>cn_srv := two_hosts\<rparr> = example_conn [] 0 two_hosts" by (simp add: example_conn_def)
  with example_quiet conn_iter_quiet [of example_conn_os "example_conn [] 0 two_hosts" _ host_monitor_event] obtain m where
    m: "conn_run host_monitor_transfer_2 [(example_conn_os, two_hosts)] (example_conn [] 0 two_hosts) = Inr m"
    by (fastforce simp: host_monitor_transfer_2_def)
  from service_threads_leak [OF _ e m] m show ?thesis by (simp add: example_conn_def example_et_def)
qed

end
