(* ===== verification/Shared_Tables.thy ===== *)
theory Shared_Tables
  imports Server_System
begin

text \<open>
  What the threads of the server may do to the state they share, as one step relation, and the
  well-formedness of the tables as its invariant.
\<close>

section \<open>Operations on the shared state\<close>

text \<open>
  Everything any thread may do to the shared state, in any order and with any input, also what the monitor
  would do with a request if it got one.
\<close>

inductive server_op :: "server \<Rightarrow> server \<Rightarrow> bool" where
  op_request: "handle_request os now junk j24 buf s = Inr (s', reply, ps) \<Longrightarrow> server_op s s'"
| op_pop_start: "server_op s (pop_start s)"
| op_pop: "pop_step os malloc now s p = Inr (s', p', ps) \<Longrightarrow> server_op s s'"
| op_report: "take_result now buf s = Inr s' \<Longrightarrow> server_op s s'"
| op_status: "host_status_update buf s = Inr s' \<Longrightarrow> server_op s s'"

lemma cstr_at_no_nul: "cstr_at b off = Inr s \<Longrightarrow> no_nul s"
  by (auto simp: cstr_at_def dest: cstrE_no_nul split: if_splits)

text \<open>What the operations on the queue change, when they return.\<close>

lemma job_enqueueE:
  assumes "server_ok s" and "job_enqueue comm cl user ul nreq now s = Inr (s', jid)"
  obtains pc un where "sprintf_int (pcomm (jobq s ! job_head s)) comm cl = Inr pc"
    "sprintf_int (username (jobq s ! job_head s)) user ul = Inr un"
    "s' = s\<lparr>jobq := (jobq s)[job_head s := (jobq s ! job_head s)\<lparr>pcomm := pc, username := un, num_req_nodes := nreq, time1 := now,
        job_stat := JOB_STAT_INQUEUE, job_id := int (job_head s)\<rparr>], job_head := (job_head s + 1) mod MAX_JOB_QUEUE\<rparr>"
proof -
  from assms(2) obtain pc un where "sprintf_int (pcomm (jobq s ! job_head s)) comm cl = Inr pc"
    "sprintf_int (username (jobq s ! job_head s)) user ul = Inr un"
    "s' = s\<lparr>jobq := (jobq s)[job_head s := (jobq s ! job_head s)\<lparr>pcomm := pc, username := un, num_req_nodes := nreq, time1 := now,
        job_stat := JOB_STAT_INQUEUE, job_id := int (job_head s)\<rparr>], job_head := (job_head s + 1) mod MAX_JOB_QUEUE\<rparr>"
    using server_okD(1,8) [OF assms(1)] by (auto simp: job_enqueue_def Let_def elim!: bindE_InrE)
  then show ?thesis by (rule that)
qed

lemma job_dequeueE:
  assumes "server_ok s" and "job_dequeue arr s = Inr (s', t)"
  obtains (empty) "s' = s"
  | (taken) "job_head s \<noteq> job_tail s"
      "s' = s\<lparr>job_tail := (job_tail s + 1) mod MAX_JOB_QUEUE,
          jobq := (jobq s)[job_tail s := (jobq s ! job_tail s)\<lparr>job_stat := JOB_STAT_RUNNING\<rparr>]\<rparr>"
proof (cases "job_head s = job_tail s")
  case True
  with assms(2) show ?thesis by (intro empty) (simp add: job_dequeue_def)
next
  case False
  with assms(2) have "s' = s\<lparr>job_tail := (job_tail s + 1) mod MAX_JOB_QUEUE,
          jobq := (jobq s)[job_tail s := (jobq s ! job_tail s)\<lparr>job_stat := JOB_STAT_RUNNING\<rparr>]\<rparr>"
    using server_okD(1,9) [OF assms(1)] by (auto simp: job_dequeue_def elim!: bindE_InrE)
  with False show ?thesis by (rule taken)
qed

lemma handle_request_cases:
  assumes "handle_request os now junk j24 buf s = Inr (s', reply, ps)"
  obtains (same) "s' = s"
  | (submitted) c cl u ul nreq jid where "no_nul c" "no_nul u" "job_enqueue c cl u ul nreq now s = Inr (s', jid)"
proof -
  have "s' = s \<or> (\<exists>src b. monitor_submit now buf src junk s = Inr (s', b))"
    using assms by (auto simp: handle_request_def elim!: bindE_InrE split: if_splits)
  then show ?thesis
  proof
    assume "\<exists>src b. monitor_submit now buf src junk s = Inr (s', b)"
    then obtain src b where m: "monitor_submit now buf src junk s = Inr (s', b)" by blast
    then obtain c off cl u ul nreq jid where
      "cstr_at buf (int HEAD_BYTES) = Inr c" "cstr_at buf off = Inr u" "job_enqueue c cl u ul nreq now s = Inr (s', jid)"
      by (auto simp: monitor_submit_def elim!: bindE_InrE)
    then show ?thesis using submitted cstr_at_no_nul by blast
  qed (rule same)
qed

lemma assign_nodeE:
  assumes "assign_node os malloc c jid s = Inr (s', ps)"
  obtains (none) "s' = s"
  | (chosen) i x j y where "s' = s\<lparr>nodesstat := (nodesstat s)[i := x], pcstat := (pcstat s)[j := y]\<rparr>"
proof -
  from assms obtain f where f: "(case f of None \<Rightarrow> Inr (s, []) | Some k \<Rightarrow>
        bindE (updE (nodesstat s) k jid) (\<lambda>ns. bindE (updE (pcstat s) k HOST_STAT_BUSY) (\<lambda>pc.
          let s = s\<lparr>nodesstat := ns, pcstat := pc\<rparr> in
          bindE (server_single_job_submit os malloc k c jid s) (\<lambda>ps. Inr (s, ps))))) = Inr (s', ps)"
    by (auto simp: assign_node_def elim!: bindE_InrE)
  show ?thesis
  proof (cases f)
    case None
    with f none show ?thesis by simp
  next
    case (Some k)
    with f obtain i x j y where "s' = s\<lparr>nodesstat := (nodesstat s)[i := x], pcstat := (pcstat s)[j := y]\<rparr>"
      by (auto simp: res_simps Let_def elim!: bindE_InrE)
    then show ?thesis by (rule chosen)
  qed
qed

text \<open>What a step of the pop thread changes.\<close>

lemma pop_step_cases:
  assumes ok: "server_ok s" and p: "pop_step os malloc now s p = Inr (s', p', ps)"
  obtains (same) "s' = s"
  | (take_job) "job_head s \<noteq> job_tail s"
      "s' = s\<lparr>job_tail := (job_tail s + 1) mod MAX_JOB_QUEUE,
          jobq := (jobq s)[job_tail s := (jobq s ! job_tail s)\<lparr>job_stat := JOB_STAT_RUNNING\<rparr>]\<rparr>"
  | (stamp) k where "k < 32" "s' = s\<lparr>jobq := (jobq s)[k := (jobq s ! k)\<lparr>time2 := now\<rparr>]\<rparr>"
  | (assign) i x j y where "s' = s\<lparr>nodesstat := (nodesstat s)[i := x], pcstat := (pcstat s)[j := y]\<rparr>"
  | (note_nodes) i x where "s' = s\<lparr>jobnodes := (jobnodes s)[i := x]\<rparr>"
proof (cases "pp_pc p")
  case Pop_Poll
  with p obtain t where "job_dequeue (pp_pcomm p) s = Inr (s', t)" by (auto simp: pop_step_def elim!: bindE_InrE)
  with ok show ?thesis by (cases rule: job_dequeueE) (rule same, assumption, rule take_job)
next
  case (Pop_Wait t c)
  with p have "s' = s" by (auto simp: pop_step_def elim!: bindE_InrE)
  then show ?thesis by (rule same)
next
  case (Pop_Time t e)
  with p have "tk_slot t < 32" "s' = s\<lparr>jobq := (jobq s)[tk_slot t := (jobq s ! tk_slot t)\<lparr>time2 := now\<rparr>]\<rparr>"
    using server_okD(1) [OF ok] by (auto simp: pop_step_def res_simps elim!: bindE_InrE)
  then show ?thesis by (rule stamp)
next
  case (Pop_Assign t i)
  with p obtain qs where "assign_node os malloc (pp_pcomm p) (tk_job_id t) s = Inr (s', qs)"
    by (auto simp: pop_step_def elim!: bindE_InrE)
  then show ?thesis by (cases rule: assign_nodeE) (rule same, assumption, rule assign)
next
  case (Pop_Record t)
  with p obtain i x where "s' = s\<lparr>jobnodes := (jobnodes s)[i := x]\<rparr>"
    by (auto simp: pop_step_def res_simps elim!: bindE_InrE)
  then show ?thesis by (rule note_nodes)
qed

section \<open>The tables keep their shape\<close>

lemma job_enqueue_tables:
  assumes ok: "server_ok s" and nn: "no_nul comm" "no_nul user"
    and q: "job_enqueue comm cl user ul nreq now s = Inr (s', jid)"
  shows "server_ok s'"
  using ok q
proof (rule job_enqueueE)
  fix pc un
  assume f: "sprintf_int (pcomm (jobq s ! job_head s)) comm cl = Inr pc" "sprintf_int (username (jobq s ! job_head s)) user ul = Inr un"
    and s': "s' = s\<lparr>jobq := (jobq s)[job_head s := (jobq s ! job_head s)\<lparr>pcomm := pc, username := un, num_req_nodes := nreq, time1 := now,
        job_stat := JOB_STAT_INQUEUE, job_id := int (job_head s)\<rparr>], job_head := (job_head s + 1) mod MAX_JOB_QUEUE\<rparr>"
  have "job_ok (jobq s ! job_head s)" using server_ok_job [OF ok server_okD(8) [OF ok]] .
  then have "length pc = 256" "length un = 32" "NUL \<in> set pc" "NUL \<in> set un"
    using sprintf_int_length [OF f(1)] sprintf_int_length [OF f(2)] sprintf_int_str [OF f(1) nn(1)] sprintf_int_str [OF f(2) nn(2)]
    by (auto simp: job_ok_def)
  then show ?thesis unfolding s' by (intro server_ok_push [OF ok]) (simp add: job_ok_def)
qed

lemma handle_request_tables:
  assumes ok: "server_ok s" and h: "handle_request os now junk j24 buf s = Inr (s', reply, ps)"
  shows "server_ok s'"
  using h by (cases rule: handle_request_cases) (use ok job_enqueue_tables in blast)+

lemma pop_step_tables:
  assumes ok: "server_ok s" and p: "pop_step os malloc now s p = Inr (s', p', ps)"
  shows "server_ok s'"
  using ok p
proof (cases rule: pop_step_cases)
  case same
  with ok show ?thesis by simp
next
  case take_job
  have "job_ok ((jobq s ! job_tail s)\<lparr>job_stat := JOB_STAT_RUNNING\<rparr>)"
    using server_ok_job [OF ok server_okD(9) [OF ok]] by (simp add: job_ok_def)
  then show ?thesis unfolding take_job(2) by (rule server_ok_pop [OF ok])
next
  case (stamp k)
  have "job_ok ((jobq s ! k)\<lparr>time2 := now\<rparr>)" using server_ok_job [OF ok stamp(1)] by (simp add: job_ok_def)
  then show ?thesis unfolding stamp(2) by (rule server_ok_jobq [OF ok])
next
  case (assign i x j y)
  with ok show ?thesis by (simp add: server_ok_def)
next
  case (note_nodes i x)
  then show ?thesis using server_ok_tables(1) [OF ok] by (simp only:)
qed

lemma server_op_tables:
  assumes "server_ok s" and "server_op s s'"
  shows "server_ok s'"
  using assms(2)
proof cases
  case op_request
  then show ?thesis by (rule handle_request_tables [OF assms(1)])
next
  case op_pop_start
  then show ?thesis using assms(1) by (simp add: pop_start_def server_ok_def)
next
  case op_pop
  then show ?thesis by (rule pop_step_tables [OF assms(1)])
next
  case op_report
  then show ?thesis using take_result_queue [OF assms(1)] by (simp add: same_queue_def)
next
  case op_status
  then show ?thesis using host_status_update_queue [OF assms(1)] by (simp add: same_queue_def)
qed

interpretation shared_tables: invariant_system "\<lambda>s. s = zero_server" server_op server_ok
proof unfold_locales
  show "s = zero_server \<Longrightarrow> server_ok s" for s using server_ok_zero by simp
qed (rule server_op_tables)

text \<open>
  C2. The shared tables keep their shape under everything the threads do to them, in any order and whatever
  bytes arrive, the requests the monitor never gets to serve included: no operation that returns changes the size of an
  array, moves a queue index out of range or leaves a command or user name without its terminator.
\<close>

theorem shared_tables_well_formed:
  assumes "server_op\<^sup>*\<^sup>* s s'" and "server_ok s"
  shows "server_ok s'"
  using assms by (rule shared_tables.steps_inv)

lemma shared_tables_well_formed_witness:
  "server_ok (pop_start (pop_start zero_server))"
proof (rule shared_tables_well_formed)
  show "server_op\<^sup>*\<^sup>* zero_server (pop_start (pop_start zero_server))"
    by (meson op_pop_start rtranclp.rtrancl_refl rtranclp.rtrancl_into_rtrancl)
qed (rule server_ok_zero)

end
