(* ===== verification/Job_Board.thy ===== *)
theory Job_Board
  imports Shared_Tables
begin

text \<open>
  The specification the shared job table is held to: a board with a state for each slot, the number of
  reports each slot still waits for, and the two ends of the queue. Everything the threads of the server do to
  their shared state is one move on the board, so that what holds of all moves holds of the server.
\<close>

section \<open>The board\<close>

record board =
  bd_stat :: "int list"
  bd_left :: "int list"
  bd_head :: nat
  bd_tail :: nat

definition board_of :: "server \<Rightarrow> board" where
  "board_of s = \<lparr>bd_stat = map job_stat (jobq s), bd_left = jobnodes s, bd_head = job_head s, bd_tail = job_tail s\<rparr>"

inductive board_move :: "board \<Rightarrow> board \<Rightarrow> bool" where
  stay: "board_move b b"
| submit: "board_move b (b\<lparr>bd_stat := (bd_stat b)[bd_head b := JOB_STAT_INQUEUE], bd_head := (bd_head b + 1) mod MAX_JOB_QUEUE\<rparr>)"
| start: "bd_head b \<noteq> bd_tail b \<Longrightarrow>
    board_move b (b\<lparr>bd_stat := (bd_stat b)[bd_tail b := JOB_STAT_RUNNING], bd_tail := (bd_tail b + 1) mod MAX_JOB_QUEUE\<rparr>)"
| expect: "board_move b (b\<lparr>bd_left := (bd_left b)[J := r]\<rparr>)"
| report: "bd_left b ! J \<noteq> 1 \<Longrightarrow> board_move b (b\<lparr>bd_left := (bd_left b)[J := bd_left b ! J - 1]\<rparr>)"
| finish: "bd_left b ! J = 1 \<Longrightarrow> J < length (bd_stat b) \<Longrightarrow>
    board_move b (b\<lparr>bd_left := (bd_left b)[J := 0], bd_stat := (bd_stat b)[J := JOB_STAT_FINISHED]\<rparr>)"

section \<open>Every operation is a move\<close>

lemma request_moves:
  assumes ok: "server_ok s" and h: "handle_request os now junk j24 buf s = Inr (s', reply, ps)"
  shows "board_move (board_of s) (board_of s')"
  using h
proof (cases rule: handle_request_cases)
  case same
  then show ?thesis by (simp add: stay)
next
  case (submitted c cl u ul nreq jid)
  from ok submitted(3) show ?thesis
  proof (rule job_enqueueE)
    fix pc un
    assume s': "s' = s\<lparr>jobq := (jobq s)[job_head s := (jobq s ! job_head s)\<lparr>pcomm := pc, username := un, num_req_nodes := nreq,
        time1 := now, job_stat := JOB_STAT_INQUEUE, job_id := int (job_head s)\<rparr>], job_head := (job_head s + 1) mod MAX_JOB_QUEUE\<rparr>"
    show ?thesis using submit [of "board_of s"] unfolding s' by (simp add: board_of_def map_update)
  qed
qed

lemma pop_moves:
  assumes ok: "server_ok s" and p: "pop_step os malloc now s p = Inr (s', p', ps)"
  shows "board_move (board_of s) (board_of s')"
  using ok p
proof (cases rule: pop_step_cases)
  case same
  then show ?thesis by (simp add: stay)
next
  case take_job
  then show ?thesis using start [of "board_of s"] by (simp add: board_of_def map_update)
next
  case (stamp k)
  have "map job_stat ((jobq s)[k := (jobq s ! k)\<lparr>time2 := now\<rparr>]) = (map job_stat (jobq s))[k := map job_stat (jobq s) ! k]"
    using stamp(1) server_okD(1) [OF ok] by (simp add: map_update)
  then have "board_of s' = board_of s" by (simp add: board_of_def stamp(2))
  then show ?thesis by (simp add: stay)
next
  case (assign i x j y)
  then have "board_of s' = board_of s" by (simp add: board_of_def)
  then show ?thesis by (simp add: stay)
next
  case (note_nodes i x)
  then show ?thesis using expect [of "board_of s" i x] by (simp add: board_of_def)
qed

lemma report_moves:
  assumes ok: "server_ok s" and t: "take_result now buf s = Inr s'"
  shows "board_move (board_of s) (board_of s')"
  using t
proof (cases rule: take_result_cases)
  case other
  then show ?thesis by (simp add: stay)
next
  case (count k J)
  then show ?thesis using report [of "board_of s" "nat J"] by (simp add: board_of_def)
next
  case (finish k J)
  then have "nat J < length (jobq s)" by (simp add: in_range_def)
  then show ?thesis using board_move.finish [of "board_of s" "nat J"] finish(3,4) by (simp add: board_of_def map_update)
qed

lemma status_moves:
  assumes "host_status_update buf s = Inr s'"
  shows "board_move (board_of s) (board_of s')"
proof -
  have "board_of s' = board_of s"
    using assms by (auto simp: host_status_update_def board_of_def elim!: bindE_InrE)
  then show ?thesis by (simp add: stay)
qed

lemma server_op_moves:
  assumes "server_ok s" and "server_op s s'"
  shows "board_move (board_of s) (board_of s')"
  using assms(2)
proof cases
  case op_request
  then show ?thesis by (rule request_moves [OF assms(1)])
next
  case op_pop_start
  then have "board_of s' = board_of s" by (simp add: pop_start_def board_of_def)
  then show ?thesis by (simp add: stay)
next
  case op_pop
  then show ?thesis by (rule pop_moves [OF assms(1)])
next
  case op_report
  then show ?thesis by (rule report_moves [OF assms(1)])
next
  case op_status
  then show ?thesis by (rule status_moves)
qed

interpretation job_board: simulation "\<lambda>s. s = zero_server" server_op server_ok board_of board_move
  by unfold_locales (rule server_op_moves)

section \<open>What the board promises\<close>

lemma board_status_changes:
  assumes "board_move b b'" and "bd_stat b' ! i \<noteq> bd_stat b ! i"
  shows "(i = bd_head b \<and> bd_stat b' ! i = JOB_STAT_INQUEUE \<and> bd_head b' = (bd_head b + 1) mod MAX_JOB_QUEUE)
    \<or> (i = bd_tail b \<and> bd_head b \<noteq> bd_tail b \<and> bd_stat b' ! i = JOB_STAT_RUNNING \<and> bd_tail b' = (bd_tail b + 1) mod MAX_JOB_QUEUE)
    \<or> (bd_left b ! i = 1 \<and> bd_stat b' ! i = JOB_STAT_FINISHED)"
  using assms(1)
proof (cases rule: board_move.cases)
  case submit
  with assms(2) nth_update_changed [of "bd_stat b" "bd_head b" JOB_STAT_INQUEUE i] show ?thesis by auto
next
  case start
  with assms(2) nth_update_changed [of "bd_stat b" "bd_tail b" JOB_STAT_RUNNING i] show ?thesis by auto
next
  case (finish J)
  with assms(2) nth_update_changed [of "bd_stat b" J JOB_STAT_FINISHED i] show ?thesis by auto
qed (use assms(2) in auto)

text \<open>C8.
  The threads play by the board. Whatever they do to the shared state, in any order and with any input,
  is a run of moves on the board; so the state of a job changes only in three ways: to queued when a submission takes
  its slot at the head, to running when the pop thread takes it from the tail of a queue that is not empty, and to
  finished when the last report that its slot waits for comes in.
\<close>

theorem job_board_refined:
  assumes ok: "server_ok s" and run: "server_op\<^sup>*\<^sup>* s s'" and op: "server_op s' u" and i: "i < 32"
  shows "board_move\<^sup>*\<^sup>* (board_of s) (board_of u)
    \<and> (job_stat (jobq u ! i) = job_stat (jobq s' ! i)
       \<or> (i = job_head s' \<and> job_stat (jobq u ! i) = JOB_STAT_INQUEUE \<and> job_head u = (job_head s' + 1) mod MAX_JOB_QUEUE)
       \<or> (i = job_tail s' \<and> job_head s' \<noteq> job_tail s' \<and> job_stat (jobq u ! i) = JOB_STAT_RUNNING
            \<and> job_tail u = (job_tail s' + 1) mod MAX_JOB_QUEUE)
       \<or> (jobnodes s' ! i = 1 \<and> job_stat (jobq u ! i) = JOB_STAT_FINISHED))"
proof -
  have "server_op\<^sup>*\<^sup>* s u" using run op by (rule rtranclp.rtrancl_into_rtrancl)
  then have run': "board_move\<^sup>*\<^sup>* (board_of s) (board_of u)" using ok by (rule job_board.steps_refine)
  have ok': "server_ok s'" by (rule shared_tables.steps_inv [OF run ok])
  have "server_ok u" by (rule shared_tables.inv_step [OF ok' op])
  then have st: "bd_stat (board_of u) ! i = job_stat (jobq u ! i)" "bd_stat (board_of s') ! i = job_stat (jobq s' ! i)"
    using ok' i server_okD(1) by (simp_all add: board_of_def)
  note change = board_status_changes [OF job_board.sim [OF ok' op], of i, unfolded st]
  show ?thesis using run' change by (auto simp: board_of_def)
qed

lemma job_board_refined_witness:
  "board_move\<^sup>*\<^sup>* (board_of zero_server) (board_of (pop_start (pop_start zero_server)))"
proof -
  have "server_op\<^sup>*\<^sup>* zero_server (pop_start zero_server)" using op_pop_start by blast
  from job_board_refined [OF server_ok_zero this op_pop_start, of 0] show ?thesis by simp
qed

end
