(* ===== verification/Job_Lifecycle.thy ===== *)
theory Job_Lifecycle
  imports Job_Dispatch Job_Monitor
begin

text \<open>
  The way of one job through the components: the submission handled by the job monitor, the pop
  thread that takes it out and sends it to hosts, the nodes that run it and report, the report thread's
  bookkeeping, and the query that shows the result. Each step is the code's own, run without interference; that
  the monitor's loop never gets a client to serve is shown separately.
\<close>

section \<open>Reports as datagrams\<close>

text \<open>What the report thread makes of a report depends on three words of it.\<close>

lemma take_result_report:
  assumes "report_packet MSG_TYPE_JOB_RETURN port (int k) (int J) JOB_STAT_FINISHED q" and "k < 5" and "J < 32"
  shows "take_result now (pk_data q @ rest) s = take_result now (finished_message J k []) s"
proof -
  have l: "length (pk_data q) = 24" and g: "get_int (pk_data q) 1 = Inr (int k)" "get_int (pk_data q) 3 = Inr (int J)"
    "get_int (pk_data q) 4 = Inr JOB_STAT_FINISHED" using assms(1) by (simp_all add: report_packet_def)
  have i: "is_int32 (int k)" "is_int32 (int J)" "is_int32 JOB_STAT_FINISHED"
    using assms(2,3) by (simp_all add: is_int32_def job_stat_defs)
  have f: "get_int (finished_message J k []) 1 = Inr (int k)" "get_int (finished_message J k []) 3 = Inr (int J)"
    "get_int (finished_message J k []) 4 = Inr JOB_STAT_FINISHED"
    unfolding finished_message_def get_header using i by simp_all
  have "get_int (pk_data q @ rest) 1 = Inr (int k)" "get_int (pk_data q @ rest) 3 = Inr (int J)"
    "get_int (pk_data q @ rest) 4 = Inr JOB_STAT_FINISHED"
    using g l get_int_prefix [of 1 "pk_data q" rest] get_int_prefix [of 3 "pk_data q" rest]
      get_int_prefix [of 4 "pk_data q" rest] by simp_all
  then show ?thesis using f by (simp add: take_result_def)
qed

text \<open>The report thread's buffer after it received a report, its other bytes unspecified.\<close>

definition take_data :: "int \<Rightarrow> char list \<Rightarrow> packet list \<Rightarrow> server \<Rightarrow> server res" where
  "take_data now rest qs s = forE qs (\<lambda>q. take_result now (pk_data q @ rest)) s"

lemma take_data_reports:
  assumes "list_all2 (\<lambda>k q. report_packet MSG_TYPE_JOB_RETURN port (int k) (int J) JOB_STAT_FINISHED q) ks qs"
    and "\<forall>k \<in> set ks. k < 5" and "J < 32"
  shows "take_data now rest qs s = take_reports now J ks s"
  using assms(1,2)
proof (induction ks qs arbitrary: s rule: list_all2_induct)
  case Nil
  then show ?case by (simp add: take_data_def take_reports_def)
next
  case (Cons k ks q qs)
  have "take_result now (pk_data q @ rest) = take_result now (finished_message J k [])"
    using take_result_report [OF Cons(1) _ assms(3)] Cons.prems by (intro ext) simp
  moreover have "forE qs (\<lambda>q. take_result now (pk_data q @ rest)) = forE ks (\<lambda>k. take_result now (finished_message J k []))"
    using Cons.IH Cons.prems by (intro ext) (simp add: take_data_def take_reports_def)
  ultimately show ?case by (simp add: take_data_def take_reports_def)
qed

section \<open>Running a job on its nodes\<close>

text \<open>A node that got the message executes the command and reports.\<close>

definition node_runs ::
  "net_os \<Rightarrow> (nat \<Rightarrow> server) \<Rightarrow> char list \<Rightarrow> char list \<Rightarrow> string \<Rightarrow> nat \<Rightarrow> packet \<Rightarrow> packet \<Rightarrow> bool" where
  "node_runs os node junk buf comm k p q \<longleftrightarrow> (\<exists>buf' q2. deal_interactive_job_request os (Some (pk_data p)) True True junk buf (node k)
     = Inr (buf', execl_thread True comm @ [Send q, Send q2]))"

lemma nodes_run:
  assumes "list_all2 (\<lambda>k p. job_packet (addr k) (int J) comm p) ks ps" and "length comm < 1000" and "no_nul comm"
    and "\<forall>k \<in> set ks. local_id (node k) = int k \<and> host_addr os (node k) 1 a \<and> k < 5" and "sendto_ok os" and "J < 32"
    and "length buf = MSG_BUFF_SIZE" and "length junk = HEAD_BYTES"
  shows "\<exists>qs. list_all2 (\<lambda>(k, p) q. node_runs os node junk buf comm k p q) (zip ks ps) qs
    \<and> list_all2 (\<lambda>k q. report_packet MSG_TYPE_JOB_RETURN UDP_JOB_RELT_SRV_PORT_NUMBER (int k) (int J) JOB_STAT_FINISHED q) ks qs"
  using assms(1,4)
proof (induction ks ps rule: list_all2_induct)
  case Nil
  then show ?case by simp
next
  case (Cons k ks p ps)
  then obtain qs where qs: "list_all2 (\<lambda>(k, p) q. node_runs os node junk buf comm k p q) (zip ks ps) qs"
    "list_all2 (\<lambda>k q. report_packet MSG_TYPE_JOB_RETURN UDP_JOB_RELT_SRV_PORT_NUMBER (int k) (int J) JOB_STAT_FINISHED q) ks qs"
    by auto
  have n: "local_id (node k) = int k" "host_addr os (node k) 1 a" "k < 5" using Cons.prems by simp_all
  have i: "is_int32 (int J)" "is_int32 (local_id (node k))" using n assms(6) by (simp_all add: is_int32_def)
  from node_serves [OF Cons(1) assms(2,3) i(1) n(2) assms(5) i(2) assms(7,8), of True] obtain buf' q1 q2 where
    "deal_interactive_job_request os (Some (pk_data p)) True True junk buf (node k)
      = Inr (buf', execl_thread True comm @ [Send q1, Send q2])"
    "report_packet MSG_TYPE_JOB_RETURN UDP_JOB_RELT_SRV_PORT_NUMBER (int k) (int J) JOB_STAT_FINISHED q1"
    using n(1) by auto
  with qs show ?case by (intro exI [of _ "q1 # qs"]) (auto simp: node_runs_def)
qed
section \<open>From the submission to the last report\<close>

text \<open>The free hosts that a job for \<open>r\<close> nodes goes to.\<close>

definition chosen :: "server \<Rightarrow> nat \<Rightarrow> nat \<Rightarrow> nat list" where
  "chosen s n r = take r (free_list s n)"

lemma chosen_bounds: "k \<in> set (chosen s n r) \<Longrightarrow> n \<le> 4 \<Longrightarrow> 1 \<le> k \<and> k \<le> n \<and> k < 5"
  by (auto simp: chosen_def free_list_def dest!: in_set_takeD)

lemma free_list_length: "length (free_list s n) \<le> n"
  using length_filter_le [of _ "[1..<Suc n]"] by (simp add: free_list_def del: upt_Suc)

lemma find_first_id:
  assumes "J < length js" and "job_id (js ! J) = int J" and "\<forall>i < J. job_id (js ! i) \<noteq> int J"
  shows "find (\<lambda>j. job_id j = int J) js = Some (js ! J)"
  using assms by (auto simp: find_Some_iff)

text \<open>The first step of the pop thread: the submitted job leaves the queue, for the wait when there are hosts enough.\<close>

lemma pop_takes_job:
  assumes ok: "server_ok s" and ne: "job_head s \<noteq> job_tail s" and p: "pp_pc p = Pop_Poll" "length (pp_pcomm p) = 32"
    and j: "job_request (jobq s ! job_tail s) = (comm, req)" "printable 32 comm" "job_id (jobq s ! job_tail s) = int (job_tail s)"
  shows "\<exists>t c. pop_step os malloc now s p =
      Inr (s\<lparr>job_tail := (job_tail s + 1) mod MAX_JOB_QUEUE,
             jobq := (jobq s)[job_tail s := (jobq s ! job_tail s)\<lparr>job_stat := JOB_STAT_RUNNING\<rparr>]\<rparr>,
           p\<lparr>pp_pcomm := c, pp_pc := (if req \<le> num_hosts s then Pop_Wait t 0 else Pop_Time t False)\<rparr>, [])
    \<and> tk_slot t = job_tail s \<and> tk_job_id t = int (job_tail s) \<and> tk_nreq t = req \<and> cstrE c 0 = Inr comm"
proof -
  have c: "c_str_of (pcomm (jobq s ! job_tail s)) = comm" using j(1) by (simp add: job_request_def)
  from job_dequeue_printable [OF ok ne p(2)] j(2) c obtain t where
    t: "job_dequeue (pp_pcomm p) s =
      Inr (s\<lparr>job_tail := (job_tail s + 1) mod MAX_JOB_QUEUE,
             jobq := (jobq s)[job_tail s := (jobq s ! job_tail s)\<lparr>job_stat := JOB_STAT_RUNNING\<rparr>]\<rparr>, Some t)"
    "tk_slot t = job_tail s" "tk_job_id t = job_id (jobq s ! job_tail s)"
    "(c_str_of (tk_pcomm t), tk_nreq t) = job_request (jobq s ! job_tail s)" "NUL \<in> set (tk_pcomm t)" by auto
  have "cstrE (tk_pcomm t) 0 = Inr comm" "tk_nreq t = req" using t(4,5) j(1) by (simp_all add: cstrE_def)
  then show ?thesis using t p(1) j(3)
    by (intro exI [of _ t] exI [of _ "tk_pcomm t"]) (simp add: pop_step_def)
qed

text \<open>A submission into an empty queue and the step that takes it out again.\<close>

lemma submitted_taken:
  assumes ok: "server_ok s" "job_head s = job_tail s" and texts: "printable 32 comm" "printable 32 user"
    and ints: "is_int32 req" "is_int32 src" "is_int32 (local_id s)" and junk: "length junk = MSG_BUFF_SIZE"
    and p: "pp_pc p = Pop_Poll" "length (pp_pcomm p) = 32"
  shows "\<exists>s1 reply j s2 t c.
      handle_request os now junk j24 (submit_message src 1 comm user req @ rest) s = Inr (s1, reply, [])
    \<and> get_int reply 4 = Inr (int (job_head s))
    \<and> pop_step os malloc now s1 p = Inr (s2,
        p\<lparr>pp_pcomm := c, pp_pc := (if req \<le> num_hosts s then Pop_Wait t 0 else Pop_Time t False)\<rparr>, [])
    \<and> s2 = s\<lparr>jobq := (jobq s)[job_head s := j], job_head := (job_head s + 1) mod MAX_JOB_QUEUE,
             job_tail := (job_head s + 1) mod MAX_JOB_QUEUE\<rparr>
    \<and> server_ok s2 \<and> job_id j = int (job_head s) \<and> job_stat j = JOB_STAT_RUNNING
    \<and> tk_slot t = job_head s \<and> tk_job_id t = int (job_head s) \<and> tk_nreq t = req \<and> cstrE c 0 = Inr comm"
proof -
  let ?J = "job_head s" and ?H = "(job_head s + 1) mod MAX_JOB_QUEUE"
  have J: "?J < 32" "length (jobq s) = 32" using server_okD(1,8) [OF ok(1)] by simp_all
  have comm256: "printable 256 comm" by (rule printable_mono [OF texts(1)]) simp
  from submission_state [OF ok(1) comm256 texts(2) ints junk, of os now j24 1 rest] obtain j reply where
    sub: "handle_request os now junk j24 (submit_message src 1 comm user req @ rest) s
      = Inr (s\<lparr>jobq := (jobq s)[?J := j], job_head := ?H\<rparr>, reply, [])"
    "job_ok j" "job_request j = (comm, req)" "job_id j = int ?J" "get_int reply 4 = Inr (int ?J)" by blast
  let ?s1 = "s\<lparr>jobq := (jobq s)[?J := j], job_head := ?H\<rparr>" and ?j = "j\<lparr>job_stat := JOB_STAT_RUNNING\<rparr>"
  let ?s2 = "s\<lparr>jobq := (jobq s)[?J := ?j], job_head := ?H, job_tail := ?H\<rparr>"
  have ok1: "server_ok ?s1" by (rule server_ok_push [OF ok(1) sub(2)])
  have ne: "job_head ?s1 \<noteq> job_tail ?s1" using J ok(2) by (simp add: mod32_once split: if_splits)
  have j1: "jobq ?s1 ! job_tail ?s1 = j" "job_tail ?s1 = ?J" using J ok(2) by simp_all
  from pop_takes_job [OF ok1 ne p, of comm req os malloc now] j1 sub(3,4) texts(1) obtain t c where
    step: "pop_step os malloc now ?s1 p = Inr (?s2,
        p\<lparr>pp_pcomm := c, pp_pc := (if req \<le> num_hosts s then Pop_Wait t 0 else Pop_Time t False)\<rparr>, [])"
    "tk_slot t = ?J" "tk_job_id t = int ?J" "tk_nreq t = req" "cstrE c 0 = Inr comm" by auto
  have "job_ok ?j" using sub(2) by (simp add: job_ok_def)
  then have "server_ok ?s2" using server_ok_pop [OF ok1, of ?j ?J "?J + 1"] ok(2) by (simp add: server_ok_def)
  moreover have "job_id ?j = int ?J" "job_stat ?j = JOB_STAT_RUNNING" using sub(4) by simp_all
  ultimately show ?thesis using sub(1,5) step by blast
qed

text \<open>The query for the job in a slot is answered with its status when no slot before it has the same id.\<close>

lemma slot_query:
  assumes ok: "server_ok s" "J < 32" and ids: "job_id (jobq s ! J) = int J" "\<forall>i < J. job_id (jobq s ! i) \<noteq> int J"
    and ints: "is_int32 src" "is_int32 (local_id s)" "\<forall>j \<in> set (jobq s). is_int32 (job_stat j)"
    and junk: "length junk = MSG_BUFF_SIZE"
  shows "\<exists>answer. handle_request os now junk j24 (query_message src 1 (int J) j1 j2 @ rest) s = Inr (s, answer, [])
    \<and> get_int answer 4 = Inr (job_stat (jobq s ! J))"
proof -
  have f: "find (\<lambda>j. job_id j = int J) (jobq s) = Some (jobq s ! J)"
    using server_okD(1) [OF ok(1)] ok(2) ids by (intro find_first_id) auto
  have J: "0 \<le> int J" "is_int32 (int J)" using ok(2) by (simp_all add: is_int32_def)
  from query_answered [OF J(1) ints(1) J(2) ints(2,3) junk, of os now j24 1 j1 j2 rest] f show ?thesis by auto
qed

text \<open>The rest of the way: dispatch, execution, reports, and the answer to a query.\<close>

lemma waiting_job_finishes:
  assumes ok: "server_ok s" and n: "num_hosts s = int n" "n \<le> 4"
    and addrs: "\<forall>k. 1 \<le> k \<and> k \<le> n \<longrightarrow> host_addr os s (int k) (addr k)" and os: "sendto_ok os" "malloc_ok malloc"
    and comm: "cstrE (pp_pcomm p) 0 = Inr comm" "length comm < 1000" "no_nul comm"
    and t: "tk_job_id t = int J" "J < 32" "tk_slot t < 32" "tk_nreq t = int r" "1 \<le> r" "r \<le> length (free_list s n)"
    and ints: "is_int32 src" "is_int32 (local_id s)" "\<forall>j \<in> set (jobq s). is_int32 (job_stat j)"
    and ids: "job_id (jobq s ! J) = int J" "\<forall>i < J. job_id (jobq s ! i) \<noteq> int J"
    and junk: "length junk = MSG_BUFF_SIZE" and pc: "pp_pc p = Pop_Wait t 0"
    and nodes: "\<forall>k. 1 \<le> k \<and> k \<le> n \<longrightarrow> local_id (node k) = int k \<and> host_addr nos (node k) 1 a" "sendto_ok nos"
    and bufs: "length buf = MSG_BUFF_SIZE" "length nj = HEAD_BYTES"
  shows "\<exists>m s2 sent qs s3 answer. pop_run os malloc now m (s, p, []) = Inr (s2, p\<lparr>pp_pc := Pop_Poll\<rparr>, sent)
    \<and> length sent = r \<and> list_all2 (\<lambda>(k, pk) q. node_runs nos node nj buf comm k pk q) (zip (chosen s n r) sent) qs
    \<and> take_data now rest' qs s2 = Inr s3 \<and> (\<forall>k \<in> set (chosen s n r). pcstat s3 ! k = HOST_STAT_FREE)
    \<and> handle_request os now junk j24 (query_message src 1 (int J) j1 j2 @ rest) s3 = Inr (s3, answer, [])
    \<and> get_int answer 4 = Inr JOB_STAT_FINISHED"
proof -
  let ?ks = "chosen s n r"
  have free: "free_list s n \<noteq> []" and len: "length ?ks = r" using t(5,6) by (auto simp: chosen_def)
  have k5: "\<forall>k \<in> set ?ks. k < 5" "\<forall>k \<in> set ?ks. 1 \<le> k \<and> k \<le> n" using chosen_bounds n(2) by blast+
  from dispatch_run [OF ok n addrs os comm(1,2) t(1-5) ints(2) free pc, of now] obtain m s2 sent where
    d: "pop_run os malloc now m (s, p, []) = Inr (s2, p\<lparr>pp_pc := Pop_Poll\<rparr>, sent)"
      "list_all2 (\<lambda>k q. job_packet (addr k) (int J) comm q) ?ks sent" "server_ok s2" "jobnodes s2 = (jobnodes s)[J := int r]"
      "\<forall>i. job_stat (jobq s2 ! i) = job_stat (jobq s ! i)" "local_id s2 = local_id s"
      "\<forall>i. job_id (jobq s2 ! i) = job_id (jobq s ! i)" unfolding chosen_def by blast
  have "\<forall>k \<in> set ?ks. local_id (node k) = int k \<and> host_addr nos (node k) 1 a \<and> k < 5" using nodes(1) k5 by blast
  from nodes_run [OF d(2) comm(2,3) this nodes(2) t(2) bufs] obtain qs where
    q: "list_all2 (\<lambda>(k, p) q. node_runs nos node nj buf comm k p q) (zip ?ks sent) qs"
      "list_all2 (\<lambda>k q. report_packet MSG_TYPE_JOB_RETURN UDP_JOB_RELT_SRV_PORT_NUMBER (int k) (int J) JOB_STAT_FINISHED q) ?ks qs"
    by blast
  have jn: "jobnodes s2 ! J = int r" using d(4) server_okD(2) [OF ok] t(2) by simp
  from reports_taken [OF d(3) t(2) k5(1) jn, of now] len t(5) obtain s3 where
    s3: "take_reports now J ?ks s2 = Inr s3" "server_ok s3" "job_stat (jobq s3 ! J) = JOB_STAT_FINISHED"
      "\<forall>k \<in> set ?ks. pcstat s3 ! k = HOST_STAT_FREE" "\<forall>i. i \<noteq> J \<longrightarrow> jobq s3 ! i = jobq s2 ! i"
      "job_id (jobq s3 ! J) = job_id (jobq s2 ! J)" "local_id s3 = local_id s2" by auto
  have st: "is_int32 (job_stat (jobq s3 ! i))" if "i < 32" for i
    using ints(3) that server_okD(1) [OF ok] d(5) s3(3,5) by (cases "i = J") (auto simp: is_int32_def job_stat_defs)
  then have stats: "\<forall>j \<in> set (jobq s3). is_int32 (job_stat j)" using server_okD(1) [OF s3(2)] by (auto simp: in_set_conv_nth)
  have "job_id (jobq s3 ! J) = int J" "\<forall>i < J. job_id (jobq s3 ! i) \<noteq> int J" "is_int32 (local_id s3)"
    using ids d(6,7) s3(5-7) ints(2) by auto
  from slot_query [OF s3(2) t(2) this(1,2) ints(1) this(3) stats junk, of os now j24 j1 j2 rest] s3(3) obtain answer where
    "handle_request os now junk j24 (query_message src 1 (int J) j1 j2 @ rest) s3 = Inr (s3, answer, [])"
    "get_int answer 4 = Inr JOB_STAT_FINISHED" by auto
  moreover have "take_data now rest' qs s2 = Inr s3" using take_data_reports [OF q(2) k5(1) t(2)] s3(1) by simp
  moreover have "length sent = r" using list_all2_lengthD [OF d(2)] len by simp
  ultimately show ?thesis using d(1) q(1) s3(4) by blast
qed



section \<open>Too few hosts\<close>



end
