(* ===== verification/Job_Failures.thy ===== *)
theory Job_Failures
  imports Job_Lifecycle Server_System
begin

text \<open>
  Jobs that go wrong without the client being told (\<^verbatim>\<open>libjobq.c\<close>): jobs that no number of free hosts can start, and
  jobs that get the slot of an older job whose reports are still out. Both are followed from the submission to the
  answer the client gets when it asks for the job's status.
\<close>

section \<open>Reports leave the queue alone\<close>

lemma job_request_same:
  assumes "job_request j = job_request (js ! i)"
  shows "job_request (js[i := j] ! k) = job_request (js ! k)"
  using assms by (cases "i < length js") (auto simp: nth_list_update list_update_beyond)

lemma take_result_pending:
  assumes "take_result now b s = Inr s'"
  shows "pending s' = pending s"
  using assms
proof (cases rule: take_result_cases)
  case (finish k J)
  have "job_request ((jobq s ! nat J)\<lparr>job_stat := JOB_STAT_FINISHED, time3 := now\<rparr>) = job_request (jobq s ! nat J)"
    by (simp add: job_request_def)
  from job_request_same [OF this] show ?thesis
    unfolding finish(4) by (simp add: pending_def ring_slots_def ring_len_def)
qed (simp_all add: pending_def ring_slots_def ring_len_def)

lemma take_data_pending: "take_data now rest qs s = Inr s' \<Longrightarrow> pending s' = pending s"
  by (induction qs arbitrary: s) (auto simp: take_data_def take_result_pending elim!: bindE_InrE)

section \<open>Jobs that cannot run\<close>

text \<open>
  A job for more nodes than there are hosts is dropped after the time is noted; one for no nodes or a
  negative number of them waits for nothing, is sent to nobody, and its number is recorded.
\<close>

lemma unrunnable_dropped:
  assumes ok: "server_ok s" and n: "num_hosts s = int n" "n \<le> 4"
    and t: "tk_slot t < 32" "tk_job_id t = int (tk_slot t)" "tk_nreq t \<le> 0 \<or> int n < tk_nreq t"
    and pc: "pp_pc p = (if tk_nreq t \<le> int n then Pop_Wait t 0 else Pop_Time t False)"
  shows "\<exists>m jn. pop_run os malloc now m (s, p, out) =
      Inr (s\<lparr>jobq := (jobq s)[tk_slot t := (jobq s ! tk_slot t)\<lparr>time2 := now\<rparr>], jobnodes := jn\<rparr>, p\<lparr>pp_pc := Pop_Poll\<rparr>, out)
    \<and> length jn = 32"
proof (cases "int n < tk_nreq t")
  case True
  then have "pop_run os malloc now 1 (s, p, out) =
      Inr (s\<lparr>jobq := (jobq s)[tk_slot t := (jobq s ! tk_slot t)\<lparr>time2 := now\<rparr>], jobnodes := jobnodes s\<rparr>,
           p\<lparr>pp_pc := Pop_Poll\<rparr>, out)"
    using pc t(1) server_okD(1) [OF ok] by (simp add: pop_step_def)
  then show ?thesis using server_okD(2) [OF ok] by blast
next
  case False
  then have req: "tk_nreq t \<le> 0" and wait: "pp_pc p = Pop_Wait t 0" using t(3) pc by simp_all
  let ?p = "\<lambda>c. p\<lparr>pp_pc := c\<rparr>"
  let ?s = "s\<lparr>jobq := (jobq s)[tk_slot t := (jobq s ! tk_slot t)\<lparr>time2 := now\<rparr>]\<rparr>"
  let ?jn = "(jobnodes s)[tk_slot t := tk_nreq t]"
  have "pop_step os malloc now s p = Inr (s, ?p (Pop_Time t True), [])"
    using pop_wait_step [OF ok n wait] req by simp
  moreover have "pop_step os malloc now s (?p (Pop_Time t True)) = Inr (?s, ?p (Pop_Record t), [])"
    using t(1) req server_okD(1) [OF ok] by (simp add: pop_step_def)
  moreover have "pop_step os malloc now ?s (?p (Pop_Record t)) = Inr (?s\<lparr>jobnodes := ?jn\<rparr>, ?p Pop_Poll, [])"
    using t(1,2) server_okD(2) [OF ok] by (simp add: pop_step_def)
  ultimately have "pop_run os malloc now (Suc (Suc (Suc 0))) (s, p, out) = Inr (?s\<lparr>jobnodes := ?jn\<rparr>, ?p Pop_Poll, out)" by simp
  moreover have "length ?jn = 32" using server_okD(2) [OF ok] by simp
  ultimately show ?thesis by fastforce
qed

text \<open>
  C10. A job that cannot run is accepted all the same. One that asks for more nodes than there are hosts, or for none
  or fewer, gets its id, is taken out of the queue and marked as running; it is sent to no host and no
  host is reserved for it, the pop thread goes back to the queue, and a query answers that
  the job is running. The client is not told; for too many nodes the server prints a warning on its own terminal.
\<close>

theorem unrunnable_job_accepted:
  assumes ok: "server_ok s" "job_head s = job_tail s" and n: "num_hosts s = int n" "n \<le> 4"
    and texts: "printable 32 comm" "printable 32 user" and req: "is_int32 req" "req \<le> 0 \<or> int n < req"
    and ints: "is_int32 src" "is_int32 (local_id s)" "\<forall>j \<in> set (jobq s). is_int32 (job_stat j)"
    and ids: "\<forall>i < job_head s. job_id (jobq s ! i) \<noteq> int (job_head s)"
    and junk: "length junk = MSG_BUFF_SIZE" and p: "pp_pc p = Pop_Poll" "length (pp_pcomm p) = 32"
  shows "\<exists>s1 reply m s2 p' answer.
      handle_request os now junk j24 (submit_message src 1 comm user req @ rest) s = Inr (s1, reply, [])
    \<and> get_int reply 4 = Inr (int (job_head s))
    \<and> pop_run os malloc now m (s1, p, []) = Inr (s2, p', []) \<and> pp_pc p' = Pop_Poll
    \<and> job_head s2 = job_tail s2 \<and> pcstat s2 = pcstat s \<and> nodesstat s2 = nodesstat s
    \<and> handle_request os now junk j24 (query_message src 1 (int (job_head s)) j1 j2 @ rest) s2 = Inr (s2, answer, [])
    \<and> get_int answer 4 = Inr JOB_STAT_RUNNING"
proof -
  let ?J = "job_head s"
  have J: "?J < 32" "length (jobq s) = 32" using server_okD(1,8) [OF ok(1)] by simp_all
  from submitted_taken [OF ok texts req(1) ints(1,2) junk p, of os now j24 rest malloc] obtain s1 reply j s2 t c where
    sub: "handle_request os now junk j24 (submit_message src 1 comm user req @ rest) s = Inr (s1, reply, [])"
      "get_int reply 4 = Inr (int ?J)"
    and step: "pop_step os malloc now s1 p = Inr (s2,
        p\<lparr>pp_pcomm := c, pp_pc := (if req \<le> num_hosts s then Pop_Wait t 0 else Pop_Time t False)\<rparr>, [])"
    and s2: "s2 = s\<lparr>jobq := (jobq s)[?J := j], job_head := (?J + 1) mod MAX_JOB_QUEUE, job_tail := (?J + 1) mod MAX_JOB_QUEUE\<rparr>"
      "server_ok s2" "job_id j = int ?J" "job_stat j = JOB_STAT_RUNNING"
    and t: "tk_slot t = ?J" "tk_job_id t = int ?J" "tk_nreq t = req" by blast
  let ?p = "p\<lparr>pp_pcomm := c, pp_pc := (if req \<le> num_hosts s then Pop_Wait t 0 else Pop_Time t False)\<rparr>"
  let ?s3 = "\<lambda>jn. s2\<lparr>jobq := (jobq s2)[tk_slot t := (jobq s2 ! tk_slot t)\<lparr>time2 := now\<rparr>], jobnodes := jn\<rparr>"
  have "num_hosts s2 = int n" "tk_slot t < 32" "tk_job_id t = int (tk_slot t)" "tk_nreq t \<le> 0 \<or> int n < tk_nreq t"
    "pp_pc ?p = (if tk_nreq t \<le> int n then Pop_Wait t 0 else Pop_Time t False)" using n(1) t J req(2) s2(1) by simp_all
  from unrunnable_dropped [OF s2(2) this(1) n(2) this(2-5), of os malloc now "[]"] obtain m jn where
    run: "pop_run os malloc now m (s2, ?p, []) = Inr (?s3 jn, ?p\<lparr>pp_pc := Pop_Poll\<rparr>, [])" "length jn = 32" by blast
  have q: "jobq (?s3 jn) = (jobq s)[?J := j\<lparr>time2 := now\<rparr>]" using J t(1) s2(1) by simp
  have "job_ok (j\<lparr>time2 := now\<rparr>)" using server_ok_job [OF s2(2) J(1)] J s2(1) by (simp add: job_ok_def)
  then have "server_ok (?s3 jn)"
    using server_ok_jobq [OF s2(2), of "j\<lparr>time2 := now\<rparr>" ?J] run(2) J t(1) s2(1) by (simp add: server_ok_def)
  moreover have "job_id (jobq (?s3 jn) ! ?J) = int ?J" "\<forall>i < ?J. job_id (jobq (?s3 jn) ! i) \<noteq> int ?J"
    "job_stat (jobq (?s3 jn) ! ?J) = JOB_STAT_RUNNING" "is_int32 (local_id (?s3 jn))"
    unfolding q using J s2(1,3,4) ids ints(2) by simp_all
  moreover have "\<forall>j \<in> set (jobq (?s3 jn)). is_int32 (job_stat j)"
    unfolding q using ints(3) s2(4) by (auto simp: job_stat_defs is_int32_def dest!: set_update_subset_insert [THEN subsetD])
  ultimately obtain answer where
    "handle_request os now junk j24 (query_message src 1 (int ?J) j1 j2 @ rest) (?s3 jn) = Inr (?s3 jn, answer, [])"
    "get_int answer 4 = Inr JOB_STAT_RUNNING"
    using slot_query [OF _ J(1) _ _ ints(1) _ _ junk, of "?s3 jn" os now j24 j1 j2 rest] by auto
  moreover have "pop_run os malloc now (Suc m) (s1, p, []) = Inr (?s3 jn, ?p\<lparr>pp_pc := Pop_Poll\<rparr>, [])"
    using step run(1) by simp
  moreover have "job_head (?s3 jn) = job_tail (?s3 jn)" "pcstat (?s3 jn) = pcstat s" "nodesstat (?s3 jn) = nodesstat s"
    using s2(1) by simp_all
  moreover have "pp_pc (?p\<lparr>pp_pc := Pop_Poll\<rparr>) = Pop_Poll" by simp
  ultimately show ?thesis using sub by blast
qed

section \<open>A slot that is used again\<close>

text \<open>
  C11. The reports of a job are counted for whatever job has its slot. When a submission gets the slot of a
  job whose \<open>r\<close> reports are still out, these reports, taken in before the new job is started, mark the
  new job as finished while it is still in the queue and no host has seen it: a query with the new id is
  answered "finished".
\<close>

theorem stale_reports_finish_new_job:
  assumes ok: "server_ok s" "\<not> ring_full s" and old: "jobnodes s ! job_head s = int (length ks)" "ks \<noteq> []"
    and texts: "printable 256 comm" "printable 32 user"
    and ints: "is_int32 req" "is_int32 src" "is_int32 (local_id s)" "\<forall>j \<in> set (jobq s). is_int32 (job_stat j)"
    and ids: "\<forall>i < job_head s. job_id (jobq s ! i) \<noteq> int (job_head s)" and junk: "length junk = MSG_BUFF_SIZE"
    and late: "list_all2 (\<lambda>k q. report_packet MSG_TYPE_JOB_RETURN port (int k) (int (job_head s)) JOB_STAT_FINISHED q) ks qs"
      "\<forall>k \<in> set ks. k < 5"
  shows "\<exists>s1 reply s2 answer.
      handle_request os now junk j24 (submit_message src 1 comm user req @ rest) s = Inr (s1, reply, [])
    \<and> get_int reply 4 = Inr (int (job_head s)) \<and> job_stat (jobq s1 ! job_head s) = JOB_STAT_INQUEUE
    \<and> take_data now' rest' qs s1 = Inr s2 \<and> pending s2 = pending s @ [(comm, req)]
    \<and> handle_request os now' junk j24 (query_message src 1 (int (job_head s)) j1 j2 @ rest) s2 = Inr (s2, answer, [])
    \<and> get_int answer 4 = Inr JOB_STAT_FINISHED"
proof -
  let ?J = "job_head s"
  have J: "?J < 32" "length (jobq s) = 32" using server_okD(1,8) [OF ok(1)] by simp_all
  from submission_state [OF ok(1) texts ints(1-3) junk, of os now j24 1 rest] obtain j reply where
    sub: "handle_request os now junk j24 (submit_message src 1 comm user req @ rest) s
      = Inr (s\<lparr>jobq := (jobq s)[?J := j], job_head := (?J + 1) mod MAX_JOB_QUEUE\<rparr>, reply, [])"
    "job_ok j" "job_request j = (comm, req)" "job_id j = int ?J" "get_int reply 4 = Inr (int ?J)" "job_stat j = JOB_STAT_INQUEUE"
    by blast
  let ?s1 = "s\<lparr>jobq := (jobq s)[?J := j], job_head := (?J + 1) mod MAX_JOB_QUEUE\<rparr>"
  have ok1: "server_ok ?s1" by (rule server_ok_push [OF ok(1) sub(2)])
  have jn: "jobnodes ?s1 ! ?J = int (length ks)" using old(1) by simp
  from reports_taken [OF ok1 J(1) late(2) jn, of now'] old(2) obtain s2 where
    s2: "take_reports now' ?J ks ?s1 = Inr s2" "server_ok s2" "job_stat (jobq s2 ! ?J) = JOB_STAT_FINISHED"
      "\<forall>i. i \<noteq> ?J \<longrightarrow> jobq s2 ! i = jobq ?s1 ! i" "job_id (jobq s2 ! ?J) = job_id (jobq ?s1 ! ?J)"
      "local_id s2 = local_id ?s1" by auto
  have data: "take_data now' rest' qs ?s1 = Inr s2" using take_data_reports [OF late J(1)] s2(1) by simp
  have pend: "pending s2 = pending s @ [(comm, req)]"
    using take_data_pending [OF data] pending_push [OF ok, of j] sub(3) by simp
  have "is_int32 (job_stat (jobq s2 ! i))" if "i < 32" for i
    using ints(4) that J s2(3,4) by (cases "i = ?J") (auto simp: is_int32_def job_stat_defs)
  then have stats: "\<forall>j \<in> set (jobq s2). is_int32 (job_stat j)" using server_okD(1) [OF s2(2)] by (auto simp: in_set_conv_nth)
  have "job_id (jobq s2 ! ?J) = int ?J" "\<forall>i < ?J. job_id (jobq s2 ! i) \<noteq> int ?J" "is_int32 (local_id s2)"
    using s2(4-6) sub(4) ids ints(3) J by auto
  from slot_query [OF s2(2) J(1) this(1,2) ints(2) this(3) stats junk, of os now' j24 j1 j2 rest] s2(3) obtain answer where
    "handle_request os now' junk j24 (query_message src 1 (int ?J) j1 j2 @ rest) s2 = Inr (s2, answer, [])"
    "get_int answer 4 = Inr JOB_STAT_FINISHED" by auto
  moreover have "job_stat (jobq ?s1 ! ?J) = JOB_STAT_INQUEUE" using J sub(6) by simp
  ultimately show ?thesis using sub(1,5) data pend by blast
qed

section \<open>Examples\<close>

lemma example_submission:
  "server_ok example_server" "job_head example_server = 0" "job_tail example_server = 0" "\<not> ring_full example_server"
  "printable 32 ''date''" "printable 256 ''date''" "printable 32 ''bob''" "is_int32 (local_id example_server)"
  "\<forall>j \<in> set (jobq example_server). is_int32 (job_stat j)" "length (replicate 2000 NUL) = MSG_BUFF_SIZE"
  "length (jobnodes example_server) = 32" "pending example_server = []"
  using example_facts(1,3) server_okD(2) [OF example_facts(1)]
  by (simp_all add: example_server_def zero_server_def zero_job_def is_int32_def printable_def plain_def no_nul_def NUL_def
      ring_full_def pending_def ring_slots_def ring_len_def)

lemma unrunnable_job_accepted_witness:
  "\<exists>s1 reply m s2 p' answer.
      handle_request example_net 9 (replicate 2000 NUL) [] (submit_message 2 1 ''date'' ''bob'' 3 @ []) example_server
        = Inr (s1, reply, [])
    \<and> pop_run example_net (\<lambda>n. replicate n NUL) 9 m (s1, \<lparr>pp_pc = Pop_Poll, pp_pcomm = replicate 32 NUL\<rparr>, []) = Inr (s2, p', [])
    \<and> handle_request example_net 9 (replicate 2000 NUL) [] (query_message 2 1 (int 0) 0 0 @ []) s2 = Inr (s2, answer, [])
    \<and> get_int answer 4 = Inr JOB_STAT_RUNNING"
proof -
  let ?p = "\<lparr>pp_pc = Pop_Poll, pp_pcomm = replicate 32 NUL\<rparr>"
  note e = example_submission
  have h: "job_head example_server = job_tail example_server" "(2::nat) \<le> 4" "is_int32 3" "(3::int) \<le> 0 \<or> int 2 < 3" "is_int32 2"
    "\<forall>i < job_head example_server. job_id (jobq example_server ! i) \<noteq> int (job_head example_server)"
    "pp_pc ?p = Pop_Poll" "length (pp_pcomm ?p) = 32" using e by (simp_all add: is_int32_def)
  from unrunnable_job_accepted [OF e(1) h(1) example_facts(2) h(2) e(5,7) h(3-5) e(8,9) h(6) e(10) h(7,8), of example_net 9 "[]" "[]"
      "\<lambda>n. replicate n NUL" 0 0] e(2)
  show ?thesis by (simp only:) blast
qed

definition example_report :: packet where
  "example_report = \<lparr>pk_transport = Udp, pk_addr = ''n1'', pk_port = UDP_JOB_RELT_SRV_PORT_NUMBER,
     pk_data = header (msg_code MSG_TYPE_JOB_RETURN) 2 1 0 JOB_STAT_FINISHED 0\<rparr>"

lemma stale_reports_finish_new_job_witness:
  "\<exists>s1 reply s2 answer.
      handle_request example_net 9 (replicate 2000 NUL) [] (submit_message 2 1 ''date'' ''bob'' 1 @ [])
        (example_server\<lparr>jobnodes := (jobnodes example_server)[0 := 1]\<rparr>) = Inr (s1, reply, [])
    \<and> take_data 9 [] [example_report] s1 = Inr s2 \<and> pending s2 = [(''date'', 1)]
    \<and> handle_request example_net 9 (replicate 2000 NUL) [] (query_message 2 1 (int 0) 0 0 @ []) s2 = Inr (s2, answer, [])
    \<and> get_int answer 4 = Inr JOB_STAT_FINISHED"
proof -
  let ?s = "example_server\<lparr>jobnodes := (jobnodes example_server)[0 := 1]\<rparr>"
  note e = example_submission
  have ok: "server_ok ?s" by (rule server_ok_tables(1) [OF e(1)])
  have h: "job_head ?s = 0" "\<not> ring_full ?s" "jobnodes ?s ! job_head ?s = int (length [2::nat])" "[2::nat] \<noteq> []" "is_int32 1" "is_int32 2"
    "is_int32 (local_id ?s)" "\<forall>j \<in> set (jobq ?s). is_int32 (job_stat j)" "\<forall>k \<in> set [2]. k < (5::nat)" "pending ?s = []"
    using e by (simp_all add: is_int32_def ring_full_def pending_def ring_slots_def ring_len_def)
  have i: "\<forall>i < job_head ?s. job_id (jobq ?s ! i) \<noteq> int (job_head ?s)" using h(1) by simp
  have "report_packet MSG_TYPE_JOB_RETURN UDP_JOB_RELT_SRV_PORT_NUMBER (int 2) 0 JOB_STAT_FINISHED example_report"
    using get_header [of "msg_code MSG_TYPE_JOB_RETURN" 2 1 0 JOB_STAT_FINISHED 0 "[]"]
    by (simp add: report_packet_def example_report_def is_int32_def job_stat_defs)
  then have "list_all2 (\<lambda>k q. report_packet MSG_TYPE_JOB_RETURN UDP_JOB_RELT_SRV_PORT_NUMBER (int k) (int (job_head ?s))
      JOB_STAT_FINISHED q) [2] [example_report]" using h(1) by simp
  from stale_reports_finish_new_job [OF ok h(2-4) e(6,7) h(5-8) i e(10) this h(9), of example_net 9 "[]" "[]" 9 "[]" 0 0]
  show ?thesis unfolding h(1,10) append_Nil by blast
qed

end
