(* ===== verification/Client_Cli.thy ===== *)
theory Client_Cli
  imports Job_Monitor Host_Monitor
begin

text \<open>
  The command line client (\<^verbatim>\<open>epbscli.c\<close>, \<^verbatim>\<open>libuser.c\<close>): its arguments, the messages it builds, its
  exchange with the server, and how it reads the replies. \<^verbatim>\<open>UTransfer\<close>, which carries the
  exchange, is not in the repository: what its \<^verbatim>\<open>select\<close>, \<^verbatim>\<open>send\<close> and \<^verbatim>\<open>recv\<close> answer is a
  parameter. The host query runs on \<^verbatim>\<open>UTcpSocket\<close>.
\<close>

section \<open>The user's name\<close>

fun cut_line :: "char list \<Rightarrow> char list" where
  "cut_line [] = []"
| "cut_line (c # cs) = (if c = CHR 0x0A then NUL # cs else c # cut_line cs)"

text \<open>\<open>out\<close> is what the \<^verbatim>\<open>who\<close> pipeline prints, \<open>junk\<close> the 64 bytes as allocated.\<close>

definition whoami :: "char list \<Rightarrow> char list \<Rightarrow> char list" where
  "whoami out junk = cut_line (blit junk 0 (take 64 out))"

lemma cut_line_append: "CHR 0x0A \<notin> set n \<Longrightarrow> cut_line (n @ CHR 0x0A # r) = n @ NUL # r"
  by (induction n) auto

lemma whoami_name:
  assumes "CHR 0x0A \<notin> set n" and "no_nul n" and "length n < 64" and "length junk = 64"
  shows "cstrE (whoami (n @ CHR 0x0A # r) junk) 0 = Inr n \<and> length (whoami (n @ CHR 0x0A # r) junk) = 64"
proof -
  have t: "take 64 (n @ CHR 0x0A # r) = n @ CHR 0x0A # take (63 - length n) r"
    using assms(3) by (simp add: take_Cons')
  have w: "whoami (n @ CHR 0x0A # r) junk = n @ NUL # (take (63 - length n) r @ drop (Suc (length n + min (length r) (63 - length n))) junk)"
    unfolding whoami_def t blit_def using cut_line_append [OF assms(1)] by (simp add: min.commute)
  show ?thesis unfolding w using cstrE_append [OF assms(2), of "[]"] assms(3,4) by simp
qed

section \<open>Arguments\<close>

text \<open>The variables of \<^verbatim>\<open>main\<close>; \<^verbatim>\<open>hostfile\<close> is the global array.\<close>

record cli =
  c_commstr :: "char list"
  c_hostfile :: "char list"
  c_nn :: int
  c_qj :: int
  c_qh :: int
  c_jc :: int
  c_prog :: int

text \<open>\<^verbatim>\<open>argv[argc]\<close> is a null pointer. An argument is used as a format without arguments.\<close>

definition arg :: "string list \<Rightarrow> nat \<Rightarrow> string res" where
  "arg argv i = (if i < length argv then Inr (argv ! i) else Inl Null_Deref)"

definition sprintf_fmt :: "char list \<Rightarrow> string \<Rightarrow> char list res" where
  "sprintf_fmt dst fmt = bindE (fmt_int fmt None) (put_cstr dst)"

text \<open>One pass of the argument loop. The value of an option is looked at as an option next.\<close>

definition cli_option :: "string list \<Rightarrow> nat \<Rightarrow> cli \<Rightarrow> cli res" where
  "cli_option argv i c =
     bindE (arg argv i) (\<lambda>a.
       if a = ''-hf'' then bindE (arg argv (i + 1)) (\<lambda>v. bindE (sprintf_fmt (c_hostfile c) v) (\<lambda>h.
         Inr (c\<lparr>c_hostfile := h, c_prog := 1\<rparr>)))
       else if a = ''-cs'' then bindE (arg argv (i + 1)) (\<lambda>v. bindE (sprintf_fmt (c_commstr c) v) (\<lambda>s.
         Inr (c\<lparr>c_commstr := s\<rparr>)))
       else if a = ''-nn'' then bindE (arg argv (i + 1)) (\<lambda>v. Inr (c\<lparr>c_nn := atoi v\<rparr>))
       else if a = ''-qj'' then bindE (arg argv (i + 1)) (\<lambda>v. Inr (c\<lparr>c_qj := atoi v, c_prog := 2\<rparr>))
       else if a = ''-qh'' then bindE (arg argv (i + 1)) (\<lambda>v. Inr (c\<lparr>c_qh := atoi v, c_prog := 3\<rparr>))
       else if a = ''-jc'' then bindE (arg argv (i + 1)) (\<lambda>v. Inr (c\<lparr>c_jc := atoi v, c_prog := 4\<rparr>))
       else Inr c)"

text \<open>What the client is asked to do; the hosts file is read first.\<close>

datatype cli_action =
    Usage
  | Submit_Job string string int
  | Query_Job string int
  | Query_Host string int
  | Cancel_Job string int
  | No_Action

definition cli_start :: "char list \<Rightarrow> cli res" where
  "cli_start junk = bindE (sprintf_fmt (replicate 64 NUL) ''hosts'') (\<lambda>h.
     Inr \<lparr>c_commstr = junk, c_hostfile = h, c_nn = 1, c_qj = -1, c_qh = -1, c_jc = -1, c_prog = -1\<rparr>)"

definition cli_switch :: "cli \<Rightarrow> cli_action res" where
  "cli_switch c =
     bindE (cstrE (c_hostfile c) 0) (\<lambda>hf.
       if c_prog c = 1 then bindE (cstrE (c_commstr c) 0) (\<lambda>cs.
         Inr (if length cs = 1 \<or> length hf = 1 then Usage else Submit_Job hf cs (c_nn c)))
       else if c_prog c = 2 then Inr (Query_Job hf (c_qj c))
       else if c_prog c = 3 then Inr (Query_Host hf (c_qh c))
       else if c_prog c = 4 then Inr (Cancel_Job hf (c_jc c))
       else Inr No_Action)"

text \<open>\<open>junk\<close> is the uninitialised \<^verbatim>\<open>commstr[128]\<close>.\<close>

definition cli_main :: "string list \<Rightarrow> char list \<Rightarrow> cli_action res" where
  "cli_main argv junk =
     (if length argv < 3 then Inr Usage
      else bindE (cli_start junk) (\<lambda>c. bindE (forE [1..<length argv] (cli_option argv) c) cli_switch))"

text \<open>\<^verbatim>\<open>epbscli_init\<close>; \<open>resolves\<close> is whether the resolver knows the local host's name.\<close>

definition epbscli_init ::
  "char list option \<Rightarrow> char list \<Rightarrow> char list \<Rightarrow> string option \<Rightarrow> (string \<Rightarrow> bool) \<Rightarrow> server \<Rightarrow> server res" where
  "epbscli_init file stack fresh my_ip resolves s =
     bindE (read_host_config_file file stack fresh my_ip s) (\<lambda>s.
       if num_hosts s < 1 then Inl (Exit_Process 1)
       else if local_id s < 1 \<or> local_id s > num_hosts s then Inl (Exit_Process 1)
       else bindE (ptr_cstr (hosts s) (local_id s)) (\<lambda>name.
         if resolves name then Inr s else Inl (Exit_Process 1)))"

section \<open>Reading the arguments\<close>

definition option_names :: "string list" where
  "option_names = [''-hf'', ''-cs'', ''-nn'', ''-qj'', ''-qh'', ''-jc'']"

lemma cli_option_other: "i < length argv \<Longrightarrow> argv ! i \<notin> set option_names \<Longrightarrow> cli_option argv i c = Inr c"
  by (simp add: cli_option_def arg_def option_names_def)

lemma cli_option_last:
  "i + 1 = length argv \<Longrightarrow> argv ! i \<in> set option_names \<Longrightarrow> cli_option argv i c = Inl Null_Deref"
  by (auto simp: cli_option_def arg_def option_names_def)

lemma sprintf_fmt_plain: "plain s \<Longrightarrow> sprintf_fmt dst s = put_cstr dst s"
  by (simp add: sprintf_fmt_def fmt_int_plain)

lemma sprintf_fmt_read:
  "plain s \<Longrightarrow> no_nul s \<Longrightarrow> length s < length dst \<Longrightarrow>
     \<exists>d. sprintf_fmt dst s = Inr d \<and> length d = length dst \<and> cstrE d 0 = Inr s"
  using cstrE_append [of s "[]"] by (auto simp: sprintf_fmt_plain put_cstr_in)

lemma cli_start_ok:
  "\<exists>h. cli_start junk = Inr \<lparr>c_commstr = junk, c_hostfile = h, c_nn = 1, c_qj = -1, c_qh = -1, c_jc = -1, c_prog = -1\<rparr>
     \<and> length h = 64 \<and> cstrE h 0 = Inr ''hosts''"
  using sprintf_fmt_read [of "''hosts''" "replicate 64 NUL"] by (auto simp: cli_start_def plain_def no_nul_def NUL_def)

lemma show_int_no_option:
  assumes "is_int32 n"
  shows "show_int n \<notin> set option_names"
proof
  assume o: "show_int n \<in> set option_names"
  have "\<forall>x \<in> set option_names. atoi x = 0" by code_simp
  with o atoi_show_int [OF assms, of "[]"] have "n = 0" by simp
  moreover have "show_int 0 \<notin> set option_names" by code_simp
  ultimately show False using o by simp
qed

text \<open>The loop reads the arguments from left to right: what it does with the rest of the list.\<close>

fun cli_args :: "string list \<Rightarrow> cli \<Rightarrow> cli res" where
  "cli_args [] c = Inr c"
| "cli_args (a # r) c = bindE (cli_option (a # r) 0 c) (cli_args r)"

lemma arg_drop: "i \<le> length argv \<Longrightarrow> arg (drop i argv) j = arg argv (i + j)"
  by (auto simp: arg_def)

lemma cli_option_drop: "i < length argv \<Longrightarrow> cli_option argv i c = cli_option (drop i argv) 0 c"
  by (simp add: cli_option_def arg_drop cong: if_cong)

lemma cli_loop: "i \<le> length argv \<Longrightarrow> forE [i..<length argv] (cli_option argv) c = cli_args (drop i argv) c"
proof (induction "length argv - i" arbitrary: i c)
  case 0
  then show ?case by simp
next
  case (Suc n)
  then have i: "i < length argv" by simp
  have "drop i argv = argv ! i # drop (Suc i) argv" using i by (rule Cons_nth_drop_Suc [symmetric])
  then show ?case using i Suc.hyps(1) [of "Suc i"] Suc.hyps(2) cli_option_drop [OF i]
    by (simp add: upt_conv_Cons cong: bindE_cong)
qed

lemma cli_args_skip: "a \<notin> set option_names \<Longrightarrow> cli_args (a # r) c = cli_args r c"
  by (simp add: cli_option_other)

lemma cli_main_args:
  "3 \<le> length argv \<Longrightarrow> cli_main argv junk = bindE (cli_start junk) (\<lambda>c. bindE (cli_args (tl argv) c) cli_switch)"
  using cli_loop [of 1 argv] by (simp add: cli_main_def drop_Suc)

lemma cli_args_hf: "sprintf_fmt (c_hostfile c) f = Inr h \<Longrightarrow> f \<notin> set option_names \<Longrightarrow>
    cli_args (''-hf'' # f # r) c = cli_args r (c\<lparr>c_hostfile := h, c_prog := 1\<rparr>)"
  by (subst cli_args.simps) (simp add: cli_option_def arg_def cli_args_skip del: cli_args.simps)

lemma cli_args_cs: "sprintf_fmt (c_commstr c) f = Inr h \<Longrightarrow> f \<notin> set option_names \<Longrightarrow>
    cli_args (''-cs'' # f # r) c = cli_args r (c\<lparr>c_commstr := h\<rparr>)"
  by (subst cli_args.simps) (simp add: cli_option_def arg_def cli_args_skip del: cli_args.simps)

lemma cli_args_num: "v \<notin> set option_names \<Longrightarrow> cli_args (''-nn'' # v # r) c = cli_args r (c\<lparr>c_nn := atoi v\<rparr>)"
  "v \<notin> set option_names \<Longrightarrow> cli_args (''-qj'' # v # r) c = cli_args r (c\<lparr>c_qj := atoi v, c_prog := 2\<rparr>)"
  "v \<notin> set option_names \<Longrightarrow> cli_args (''-qh'' # v # r) c = cli_args r (c\<lparr>c_qh := atoi v, c_prog := 3\<rparr>)"
  "v \<notin> set option_names \<Longrightarrow> cli_args (''-jc'' # v # r) c = cli_args r (c\<lparr>c_jc := atoi v, c_prog := 4\<rparr>)"
  by (subst cli_args.simps, simp add: cli_option_def arg_def cli_args_skip del: cli_args.simps)+

text \<open>
  C28. A submission as the usage describes it is recognised: the hosts file, the command and the number
  of nodes reach \<^verbatim>\<open>client_submit_single_job\<close> as they were typed, when they fit their arrays, contain
  no conversion, are not option names, and neither text has just one character.
\<close>

theorem submit_arguments:
  assumes "plain f" "no_nul f" "length f < 64" "length f \<noteq> 1" "f \<notin> set option_names"
    and "plain c" "no_nul c" "length c < 128" "length c \<noteq> 1" "c \<notin> set option_names"
    and "is_int32 n" and "length junk = 128"
  shows "cli_main [prog, ''-hf'', f, ''-cs'', c, ''-nn'', show_int n] junk = Inr (Submit_Job f c n)"
proof -
  let ?argv = "[prog, ''-hf'', f, ''-cs'', c, ''-nn'', show_int n]"
  obtain h where h: "cli_start junk = Inr \<lparr>c_commstr = junk, c_hostfile = h, c_nn = 1, c_qj = -1, c_qh = -1, c_jc = -1, c_prog = -1\<rparr>"
    "length h = 64" using cli_start_ok by blast
  obtain hf where hf: "sprintf_fmt h f = Inr hf" "cstrE hf 0 = Inr f" using sprintf_fmt_read [of f h] assms h by auto
  obtain cs where cs: "sprintf_fmt junk c = Inr cs" "cstrE cs 0 = Inr c" using sprintf_fmt_read [of c junk] assms by auto
  have a: "atoi (show_int n) = n" using atoi_show_int [of n "[]"] assms by simp
  have sn: "show_int n \<notin> set option_names" using assms(11) by (rule show_int_no_option)
  show ?thesis using h hf cs a assms(4,9)
    by (simp add: cli_main_args cli_args_hf [OF _ assms(5)] cli_args_cs [OF _ assms(10)] cli_args_num(1) [OF sn]
        cli_switch_def del: cli_args.simps(2))
qed

lemma submit_arguments_witness:
  "cli_main [''epbscli'', ''-hf'', ''hosts'', ''-cs'', ''ls'', ''-nn'', show_int 2] (replicate 128 NUL)
     = Inr (Submit_Job ''hosts'' ''ls'' 2)"
  by (rule submit_arguments) (simp_all add: plain_def no_nul_def NUL_def option_names_def is_int32_def)

text \<open>
  The usage offers \<^verbatim>\<open>al\<close> for all jobs and all hosts. The argument is a number to the client: any
  text that is none queries the job with the id 0, and, since 0 stands for the table of hosts, the
  whole host table.
\<close>

lemma query_all_argument:
  shows "cli_main [prog, ''-qj'', ''al''] junk = Inr (Query_Job ''hosts'' 0)
    \<and> cli_main [prog, ''-qh'', ''al''] junk = Inr (Query_Host ''hosts'' 0)"
proof -
  obtain h where h: "cli_start junk = Inr \<lparr>c_commstr = junk, c_hostfile = h, c_nn = 1, c_qj = -1, c_qh = -1, c_jc = -1, c_prog = -1\<rparr>"
    "cstrE h 0 = Inr ''hosts''" using cli_start_ok by blast
  have v: "''al'' \<notin> set option_names" "atoi ''al'' = 0" by code_simp+
  show ?thesis using h v by (simp add: cli_main_args cli_args_num [OF v(1)] cli_switch_def del: cli_args.simps(2))
qed

text \<open>
  Whatever precedes it, an option without its value is followed through the null pointer that ends
  the argument list, unless an argument before it faults already.
\<close>

lemma missing_value_faults:
  assumes "2 \<le> length pre" and "opt \<in> set option_names"
  shows "\<exists>e. cli_main (pre @ [opt]) junk = Inl e"
proof -
  have f: "\<exists>e. cli_args (xs @ [opt]) c = Inl e" for xs c
  proof (induction xs arbitrary: c)
    case Nil
    have "cli_option [opt] 0 c = Inl Null_Deref" using assms(2) by (intro cli_option_last) simp_all
    then show ?case by simp
  next
    case (Cons x xs)
    then show ?case by (cases "cli_option (x # xs @ [opt]) 0 c") simp_all
  qed
  obtain c where "cli_start junk = Inr c" using cli_start_ok by blast
  moreover obtain e where "cli_args (tl pre @ [opt]) c = Inl e" using f by blast
  moreover have "pre \<noteq> []" using assms(1) by auto
  ultimately show ?thesis using assms(1) by (simp add: cli_main_args)
qed

lemma missing_value_faults_witness:
  "\<exists>e. cli_main ([''epbscli'', ''-nn'', ''2''] @ [''-cs'']) (replicate 128 NUL) = Inl e"
  by (rule missing_value_faults) (simp_all add: option_names_def)

text \<open>
  A command has to be given: without \<^verbatim>\<open>-cs\<close> the client submits what its stack holds. The test that
  is to prevent it rejects commands of one character instead.
\<close>

lemma submit_without_command:
  assumes "plain f" "no_nul f" "length f < 64" "length f \<noteq> 1" "f \<notin> set option_names"
    and "no_nul s"
  shows "cli_main [prog, ''-hf'', f] (s @ NUL # r) = Inr (if length s = 1 then Usage else Submit_Job f s 1)"
proof -
  obtain h where h: "cli_start (s @ NUL # r) = Inr \<lparr>c_commstr = s @ NUL # r, c_hostfile = h, c_nn = 1, c_qj = -1, c_qh = -1, c_jc = -1, c_prog = -1\<rparr>"
    "length h = 64" using cli_start_ok by blast
  obtain hf where hf: "sprintf_fmt h f = Inr hf" "cstrE hf 0 = Inr f" using sprintf_fmt_read [of f h] assms h by auto
  have "cstrE (s @ NUL # r) 0 = Inr s" using cstrE_append [of s "[]"] assms(6) by simp
  then show ?thesis using h hf assms(4)
    by (simp add: cli_main_args cli_args_hf [OF _ assms(5)] cli_switch_def del: cli_args.simps(2))
qed

lemma submit_without_command_witness:
  "cli_main [''epbscli'', ''-hf'', ''hosts''] (''rm'' @ NUL # replicate 125 NUL) = Inr (Submit_Job ''hosts'' ''rm'' 1)"
  using submit_without_command [of "''hosts''" "''rm''" "''epbscli''" "replicate 125 NUL"]
  by (simp add: plain_def no_nul_def NUL_def option_names_def)

section \<open>Messages\<close>

text \<open>\<open>comm_arr\<close> and \<open>user_arr\<close> are the arrays; \<open>junk\<close> the allocation.\<close>

definition client_submit_message ::
  "(nat \<Rightarrow> char list) \<Rightarrow> int \<Rightarrow> int \<Rightarrow> char list \<Rightarrow> char list \<Rightarrow> int \<Rightarrow> char list res" where
  "client_submit_message malloc lid rid comm_arr user_arr nreq =
     bindE (cstrE user_arr 0) (\<lambda>un. bindE (cstrE comm_arr 0) (\<lambda>cs.
       let ulen = length un + 1; clen = length cs + 1; job_msg_len = clen + ulen + HEAD_BYTES in
       bindE (put_ints [(0, msg_code MSG_TYPE_JOB_SUBMIT), (1, lid), (2, rid), (3, int clen), (4, nreq), (5, int ulen)]
         (malloc job_msg_len)) (\<lambda>b.
       bindE (storeE b HEAD_BYTES (take clen comm_arr)) (\<lambda>b.
       bindE (storeE b (HEAD_BYTES + clen) (take ulen user_arr)) (\<lambda>b.
         updE b (int (HEAD_BYTES + clen) - 1) NUL)))))"

definition client_query_message :: "char list \<Rightarrow> int \<Rightarrow> int \<Rightarrow> char list res" where
  "client_query_message junk lid jid = put_ints [(0, msg_code MSG_TYPE_JOB_QUERY), (1, lid), (2, 1), (3, jid)] junk"

text \<open>The cancellation is sent as a whole buffer: the header, then the stack as it was.\<close>

definition client_cancel_message :: "char list \<Rightarrow> char list \<Rightarrow> int \<Rightarrow> int \<Rightarrow> char list res" where
  "client_cancel_message junk stack lid jid =
     bindE (put_ints [(0, msg_code MSG_TYPE_JOB_CANCEL), (1, lid), (2, 1), (3, jid)] junk) (\<lambda>h.
       storeE stack 0 (take HEAD_BYTES h))"

definition client_host_message :: "char list \<Rightarrow> int \<Rightarrow> int \<Rightarrow> char list res" where
  "client_host_message junk lid machine_id =
     put_ints [(0, msg_code MSG_TYPE_HOST), (1, lid), (2, machine_id), (3, machine_id)] junk"

section \<open>What the messages hold\<close>

text \<open>
  The submission the client sends is the message the server reads: a header with the lengths of both texts,
  terminators included, and the two texts one behind the other, whatever the buffers held before.
\<close>

lemma submission_built:
  assumes "cstrE user_arr 0 = Inr user" and "cstrE comm_arr 0 = Inr comm"
    and "\<And>n. length (malloc n) = n"
  shows "client_submit_message malloc lid rid comm_arr user_arr nreq = Inr (submit_message lid rid comm user nreq)"
proof -
  let ?c = "comm @ [NUL]" and ?u = "user @ [NUL]"
  let ?n = "length ?c + length ?u + 24"
  let ?h = "header (msg_code MSG_TYPE_JOB_SUBMIT) lid rid (int (length comm) + 1) nreq (int (length user) + 1)"
  define r where "r = drop 24 (malloc ?n)"
  have r: "length r = length ?c + length ?u" using assms(3) [of ?n] by (simp add: r_def)
  have t: "take (length comm + 1) comm_arr = ?c" "take (length user + 1) user_arr = ?u"
    using take_cstr assms(1,2) by auto
  have h: "put_ints [(0, msg_code MSG_TYPE_JOB_SUBMIT), (1, lid), (2, rid), (3, int (length comm) + 1), (4, nreq),
      (5, int (length user) + 1)] (malloc ?n) = Inr (?h @ r)"
    unfolding r_def using assms(3) [of ?n] by (intro put_ints_6) simp
  have s1: "storeE (?h @ r) 24 ?c = Inr ((?h @ ?c) @ drop (length ?c) r)"
    using blit_at_prefix [of ?h r ?c] r by (simp add: storeE_def)
  have s2: "storeE ((?h @ ?c) @ drop (length ?c) r) (24 + length ?c) ?u = Inr ((?h @ ?c) @ ?u)"
    using blit_at_prefix [of "?h @ ?c" "drop (length ?c) r" ?u] r by (simp add: storeE_def add.commute)
  have s3: "updE ((?h @ ?c) @ ?u) (int (24 + length ?c) - 1) NUL = Inr ((?h @ ?c) @ ?u)"
    by (simp add: updE_def in_range_def nat_add_distrib nth_append list_update_append)
  show ?thesis using h s1 s2 s3 t assms(1,2)
    by (simp add: client_submit_message_def Let_def submit_message_def add.commute add.left_commute)
qed

lemma client_query_message_ok:
  "length junk = 24 \<Longrightarrow>
     client_query_message junk lid jid = Inr (enc32 7 @ enc32 lid @ enc32 1 @ enc32 jid @ drop 16 junk)"
  by (simp add: client_query_message_def put_ints_4 [unfolded One_nat_def])

lemma client_host_message_ok:
  "length junk = 24 \<Longrightarrow>
     client_host_message junk lid k = Inr (enc32 2 @ enc32 lid @ enc32 k @ enc32 k @ drop 16 junk)"
  by (simp add: client_host_message_def put_ints_4 [unfolded One_nat_def])

lemma client_cancel_message_ok:
  assumes "length junk = 24" and "24 \<le> length stack"
  shows "client_cancel_message junk stack lid jid
    = Inr (enc32 5 @ enc32 lid @ enc32 1 @ enc32 jid @ drop 16 junk @ drop 24 stack)"
  using assms by (simp add: client_cancel_message_def put_ints_4 [unfolded One_nat_def] storeE_def blit_def)

end
