(* ===== verification/Client_Exchange.thy ===== *)
theory Client_Exchange
  imports Client_Cli
begin

text \<open>
  The client's conversations with the server (\<^verbatim>\<open>epbscli.c\<close>): the two poll loops of a submission, a
  query and a cancellation over \<^verbatim>\<open>UTransfer\<close>, and the host query over \<^verbatim>\<open>UTcpSocket\<close>, each with what
  the client makes of the reply. \<^verbatim>\<open>UTransfer\<close> is not in the repository: what its \<^verbatim>\<open>select\<close>,
  \<^verbatim>\<open>send\<close> and \<^verbatim>\<open>recv\<close> answer in each pass is an argument.
\<close>

section \<open>One conversation\<close>

text \<open>
  One pass of a loop: \<open>ua_select\<close> is \<^const>\<open>None\<close> when \<^verbatim>\<open>select\<close> reports nothing, otherwise the flags of
  the first entry; \<open>ua_send\<close> the count \<^verbatim>\<open>send\<close> returns, \<open>ua_recv\<close> what \<^verbatim>\<open>recv\<close> delivers.
\<close>

record poll_flags =
  error_t :: bool
  write_t :: bool
  read_t :: bool

record ut_answer =
  ua_select :: "poll_flags option"
  ua_send :: int
  ua_recv :: recv_answer

datatype interest = Want_Write | Want_Read

text \<open>What a query prints.\<close>

datatype job_view =
    Wrong_Job int int
  | One_Job int int
  | All_Jobs "int list"
  | Job_Table "(int \<times> int \<times> int \<times> string \<times> char list) list"
  | No_View

text \<open>What a host query prints.\<close>

datatype host_view =
    Host_States "int list"
  | Host_Table "(int \<times> int \<times> string) list"

datatype outcome =
    No_Socket
  | Refused
  | Conn_Error
  | Conn_Closed
  | Submitted int
  | Shown job_view
  | Shown_Hosts host_view
  | Cancelled

datatype phase = Connecting | Exchanging interest | Ended outcome

text \<open>\<open>x_wire\<close> is a trace of the bytes handed to the connection, \<open>x_buf\<close> is \<^verbatim>\<open>recv_buffer\<close>.\<close>

record exchange =
  x_phase :: phase
  x_peer :: "char list \<times> int"
  x_wire :: "char list"
  x_buf :: "char list"

text \<open>
  \<^verbatim>\<open>string host_ip = get_host_ip(dist)\<close> from a null pointer ends the process. \<open>created\<close> tells whether
  \<^verbatim>\<open>create_socket\<close> returns 0; when it does not, the function ends silently.
\<close>

definition client_open :: "server \<Rightarrow> int \<Rightarrow> int \<Rightarrow> bool \<Rightarrow> char list \<Rightarrow> exchange res" where
  "client_open s dist port created junk =
     bindE (get_host_ip s dist) (\<lambda>p. case p of
       None \<Rightarrow> Inl Null_Deref
     | Some a \<Rightarrow> bindE (cstrE a 0) (\<lambda>h. Inr \<lparr>x_phase = (if created then Connecting else Ended No_Socket),
         x_peer = (h, port), x_wire = [], x_buf = junk\<rparr>))"

text \<open>The first loop, the same in all three: wait for the connection.\<close>

definition connect_step :: "poll_flags \<Rightarrow> exchange \<Rightarrow> exchange" where
  "connect_step f x =
     (if error_t f then x\<lparr>x_phase := Ended Refused\<rparr>
      else if write_t f then x\<lparr>x_phase := Exchanging Want_Write\<rparr>
      else x)"

text \<open>\<^verbatim>\<open>recv\<close> into the buffer, at most \<^const>\<open>MSG_BUFF_SIZE\<close> bytes; the count, -1 for an error.\<close>

definition client_recv :: "recv_answer \<Rightarrow> char list \<Rightarrow> (int \<times> char list) res" where
  "client_recv r buf = (case r of
     Recv_Failed e \<Rightarrow> Inr (-1, buf)
   | Received d \<Rightarrow> let got = take MSG_BUFF_SIZE d in bindE (storeE buf 0 got) (\<lambda>b. Inr (int (length got), b)))"

section \<open>Submitting\<close>

text \<open>The second loop. Any readiness to read ends it, whatever \<^verbatim>\<open>recv\<close> returns.\<close>

definition submit_step :: "char list \<Rightarrow> poll_flags \<Rightarrow> ut_answer \<Rightarrow> exchange \<Rightarrow> exchange res" where
  "submit_step msg f a x =
     (if error_t f then Inr (x\<lparr>x_phase := Ended Conn_Error\<rparr>)
      else if write_t f then
        (if ua_send a \<le> 0 then Inr (x\<lparr>x_phase := Ended Conn_Closed\<rparr>)
         else let x = x\<lparr>x_wire := x_wire x @ take (nat (ua_send a)) msg\<rparr> in
              Inr (if ua_send a = int (length msg) then x\<lparr>x_phase := Exchanging Want_Read\<rparr> else x))
      else if read_t f then
        bindE (client_recv (ua_recv a) (x_buf x)) (\<lambda>(_, b).
        bindE (get_int b 4) (\<lambda>new_job_id. Inr (x\<lparr>x_buf := b, x_phase := Ended (Submitted new_job_id)\<rparr>)))
      else Inr x)"

text \<open>A pass of whichever loop the client is in; \<open>step\<close> is the body of the second one.\<close>

definition client_pass ::
  "(poll_flags \<Rightarrow> ut_answer \<Rightarrow> exchange \<Rightarrow> exchange res) \<Rightarrow> ut_answer \<Rightarrow> exchange \<Rightarrow> exchange res" where
  "client_pass step a x = (case ua_select a of
     None \<Rightarrow> Inr x
   | Some f \<Rightarrow> (case x_phase x of
       Connecting \<Rightarrow> Inr (connect_step f x)
     | Exchanging _ \<Rightarrow> step f a x
     | Ended _ \<Rightarrow> Inr x))"

definition client_submit_single_job ::
  "server \<Rightarrow> (nat \<Rightarrow> char list) \<Rightarrow> int \<Rightarrow> char list \<Rightarrow> char list \<Rightarrow> int \<Rightarrow> bool \<Rightarrow> ut_answer list \<Rightarrow> exchange res" where
  "client_submit_single_job s malloc rid comm_arr user_arr nreq created answers =
     bindE (client_submit_message malloc (local_id s) rid comm_arr user_arr nreq) (\<lambda>msg.
     bindE (client_open s rid UDP_JOB_MONITOR_SRV_PORT_NUMBER created (malloc MSG_BUFF_SIZE))
       (forE answers (client_pass (submit_step msg))))"

section \<open>Queries\<close>

text \<open>A record of the table as the client reads it: id, state, nodes, the user's name and the
  32 bytes of its four times.\<close>

definition read_job :: "char list \<Rightarrow> nat \<Rightarrow> (int \<times> int \<times> int \<times> string \<times> char list) res" where
  "read_job b i =
     bindE (get_int b (MSG_HEAD_SIZE + 86 * i + 83)) (\<lambda>jid.
     bindE (get_int b (MSG_HEAD_SIZE + 86 * i + 82)) (\<lambda>stat.
     bindE (cstrE b (HEAD_BYTES + SIZEOF_JOB * i + 256)) (\<lambda>name.
     bindE (sprintf_fmt (replicate 32 NUL) name) (\<lambda>u.
     bindE (cstrE u 0) (\<lambda>user.
     bindE (loadE b (HEAD_BYTES + SIZEOF_JOB * i + 296) 32) (\<lambda>times.
     bindE (get_int b (MSG_HEAD_SIZE + 86 * i + 72)) (\<lambda>nodes. Inr (jid, stat, nodes, user, times))))))))"

text \<open>What follows a receipt: up to three tests of the id that was asked for.\<close>

definition show_job_reply :: "int \<Rightarrow> char list \<Rightarrow> job_view res" where
  "show_job_reply jid b =
     (if jid > -1 then
        bindE (get_int b 3) (\<lambda>got.
          if got \<noteq> jid then Inr (Wrong_Job got jid)
          else bindE (get_int b 4) (\<lambda>stat. Inr (One_Job got stat)))
      else if jid = -1 then
        bindE (forE [0..<MAX_JOB_QUEUE] (\<lambda>i l. bindE (get_int b (MSG_HEAD_SIZE + i)) (\<lambda>st. Inr (l @ [st]))) [])
          (\<lambda>l. Inr (All_Jobs l))
      else if jid = -2 then
        bindE (forE [0..<MAX_JOB_QUEUE] (\<lambda>i l. bindE (read_job b i) (\<lambda>j. Inr (l @ [j]))) []) (\<lambda>l. Inr (Job_Table l))
      else Inr No_View)"

definition query_step :: "char list \<Rightarrow> int \<Rightarrow> poll_flags \<Rightarrow> ut_answer \<Rightarrow> exchange \<Rightarrow> exchange res" where
  "query_step msg jid f a x =
     (if error_t f then Inr (x\<lparr>x_phase := Ended Conn_Error\<rparr>)
      else if write_t f then
        (if ua_send a \<le> 0 then Inr (x\<lparr>x_phase := Ended Conn_Closed\<rparr>)
         else let x = x\<lparr>x_wire := x_wire x @ take (nat (ua_send a)) msg\<rparr> in
              Inr (if ua_send a = int (length msg) then x\<lparr>x_phase := Exchanging Want_Read\<rparr> else x))
      else if read_t f then
        bindE (client_recv (ua_recv a) (x_buf x)) (\<lambda>(n, b).
          if n \<le> 0 then Inr (x\<lparr>x_buf := b, x_phase := Ended Conn_Closed\<rparr>)
          else bindE (show_job_reply jid b) (\<lambda>v. Inr (x\<lparr>x_buf := b, x_phase := Ended (Shown v)\<rparr>)))
      else Inr x)"

text \<open>The receive buffer has four times the bytes that are asked for.\<close>

definition client_query_job_status ::
  "server \<Rightarrow> (nat \<Rightarrow> char list) \<Rightarrow> int \<Rightarrow> bool \<Rightarrow> ut_answer list \<Rightarrow> exchange res" where
  "client_query_job_status s malloc jid created answers =
     bindE (client_query_message (malloc HEAD_BYTES) (local_id s) jid) (\<lambda>msg.
     bindE (client_open s 1 UDP_JOB_MONITOR_SRV_PORT_NUMBER created (malloc (4 * MSG_BUFF_SIZE)))
       (forE answers (client_pass (query_step msg jid))))"

section \<open>Cancelling\<close>

text \<open>One write ends the conversation; the reply is not waited for.\<close>

definition cancel_step :: "char list \<Rightarrow> poll_flags \<Rightarrow> ut_answer \<Rightarrow> exchange \<Rightarrow> exchange res" where
  "cancel_step msg f a x =
     (if error_t f then Inr (x\<lparr>x_phase := Ended Conn_Error\<rparr>)
      else if write_t f then
        Inr (if ua_send a \<le> 0 then x\<lparr>x_phase := Ended Conn_Closed\<rparr>
             else x\<lparr>x_wire := x_wire x @ take (nat (ua_send a)) msg, x_phase := Ended Cancelled\<rparr>)
      else Inr x)"

definition client_cancel_job ::
  "server \<Rightarrow> char list \<Rightarrow> char list \<Rightarrow> int \<Rightarrow> bool \<Rightarrow> ut_answer list \<Rightarrow> exchange res" where
  "client_cancel_job s junk stack jid created answers =
     bindE (client_cancel_message junk stack (local_id s) jid) (\<lambda>msg.
     bindE (client_open s 1 UDP_JOB_MONITOR_SRV_PORT_NUMBER created [])
       (forE answers (client_pass (cancel_step msg))))"


section \<open>What the replies to host queries hold\<close>

text \<open>\<^verbatim>\<open>display_host_info\<close> prints the address as a string: it has to end within its 32 bytes.\<close>

definition read_host :: "char list \<Rightarrow> nat \<Rightarrow> (int \<times> int \<times> string) res" where
  "read_host b i =
     bindE (get_int b (MSG_HEAD_SIZE + 16 * i)) (\<lambda>hid.
     bindE (get_int b (MSG_HEAD_SIZE + 16 * i + 1)) (\<lambda>stat.
     bindE (loadE b (HEAD_BYTES + SIZEOF_HOST * i + 32) 32) (\<lambda>a.
     bindE (cstrE (strncpy_bytes a 32) 0) (\<lambda>ip. Inr (hid, stat, ip)))))"

definition show_host_reply :: "int \<Rightarrow> int \<Rightarrow> char list \<Rightarrow> host_view res" where
  "show_host_reply n machine_id b =
     (if machine_id \<ge> 1 then
        bindE (forE [0..n - 1] (\<lambda>i l. bindE (get_int b (MSG_HEAD_SIZE + nat i)) (\<lambda>st. Inr (l @ [st]))) [])
          (\<lambda>l. Inr (Host_States l))
      else
        bindE (forE [0..n - 1] (\<lambda>i l. bindE (read_host b (nat i)) (\<lambda>h. Inr (l @ [h]))) [])
          (\<lambda>l. Inr (Host_Table l)))"

section \<open>The older host query\<close>

text \<open>
  \<^verbatim>\<open>client_query_host_status\<close>, which runs on \<^verbatim>\<open>UTransfer\<close>: a failed write does not end the loop, any
  readiness to read does, and the reply is read for all \<^const>\<open>MAX_NUM_HOSTS\<close> entries of which the first
  \<open>n\<close> are displayed.
\<close>

definition host_step :: "char list \<Rightarrow> int \<Rightarrow> int \<Rightarrow> poll_flags \<Rightarrow> ut_answer \<Rightarrow> exchange \<Rightarrow> exchange res" where
  "host_step msg n machine_id f a x =
     (if error_t f then Inr (x\<lparr>x_phase := Ended Conn_Error\<rparr>)
      else if write_t f then
        let x = x\<lparr>x_wire := x_wire x @ take (nat (ua_send a)) msg\<rparr> in
        Inr (if ua_send a = int (length msg) then x\<lparr>x_phase := Exchanging Want_Read\<rparr> else x)
      else if read_t f then
        bindE (client_recv (ua_recv a) (x_buf x)) (\<lambda>(_, b).
        bindE (show_host_reply (if machine_id \<ge> 1 then int MAX_NUM_HOSTS else n) machine_id b) (\<lambda>v.
          Inr (x\<lparr>x_buf := b, x_phase := Ended (Shown_Hosts v)\<rparr>)))
      else Inr x)"

text \<open>\<^const>\<open>None\<close> is the result -1 for an id that is not valid or a server without an address.\<close>

definition client_query_host_status ::
  "server \<Rightarrow> (nat \<Rightarrow> char list) \<Rightarrow> int \<Rightarrow> bool \<Rightarrow> ut_answer list \<Rightarrow> exchange option res" where
  "client_query_host_status s malloc machine_id created answers =
     (if machine_id < 0 \<or> machine_id > num_hosts s then Inr None
      else bindE (client_host_message (malloc HEAD_BYTES) (local_id s) machine_id) (\<lambda>msg.
           bindE (get_host_ip s 1) (\<lambda>p.
             if p = None then Inr None
             else bindE (client_open s 1 UDP_HOST_MONITOR_SRV_PORT_NUMBER created (malloc MSG_BUFF_SIZE)) (\<lambda>x.
                  bindE (forE answers (client_pass (host_step msg (num_hosts s) machine_id)) x) (\<lambda>x. Inr (Some x))))))"

section \<open>The host query\<close>

text \<open>
  What the system answers: the socket calls, whether the connection can be written to, and for each
  pass of the receive loop whether it can be read and what \<^verbatim>\<open>recv\<close> returns.
\<close>

record host_os =
  ho_connect :: connect_os
  ho_util :: sock_util
  ho_writable :: "int \<Rightarrow> bool"
  ho_send :: "int \<Rightarrow> char list \<Rightarrow> send_answer"
  ho_readable :: "nat \<Rightarrow> int \<Rightarrow> bool"
  ho_recv :: "nat \<Rightarrow> int \<Rightarrow> nat \<Rightarrow> recv_answer"

text \<open>
  The receive loop: it runs until as many bytes as the buffer has were counted, each \<^verbatim>\<open>recv\<close> writing
  at the start of the buffer again, and it counts errors as -1. It may never end: \<^const>\<open>None\<close>. \<open>k\<close>
  counts the passes.
\<close>

partial_function (option) host_recv_loop ::
  "host_os \<Rightarrow> nat \<Rightarrow> int \<Rightarrow> char list \<Rightarrow> usocket \<Rightarrow> char list res option" where
  "host_recv_loop os k remain_size buf u =
     (if remain_size \<le> 0 then Some (Inr buf)
      else (case tcp_can_read (ho_readable os k) u of
        Inl e \<Rightarrow> Some (Inl e)
      | Inr w \<Rightarrow>
          if w then (case tcp_recv (ho_util os) (ho_recv os k) buf 0 MSG_BUFF_SIZE u of
            Inl e \<Rightarrow> Some (Inl e)
          | Inr r \<Rightarrow> host_recv_loop os (Suc k) (remain_size - snd (snd r)) (fst (snd r)) (fst r))
          else host_recv_loop os (Suc k) remain_size buf u))"

datatype host_outcome = Invalid_Id | Not_Connected int | Host_Shown host_view

text \<open>
  The whole query. The reply is shown whether or not it was waited for. \<open>sock\<close> is the new socket
  object, initialised with the server's address.
\<close>

definition client_query_host_status_0 ::
  "host_os \<Rightarrow> resolver \<Rightarrow> (nat \<Rightarrow> char list) \<Rightarrow> int \<Rightarrow> server \<Rightarrow> int \<Rightarrow> host_outcome res option" where
  "client_query_host_status_0 os rs malloc reason s machine_id =
     (if machine_id < 0 \<or> machine_id > num_hosts s then Some (Inr Invalid_Id)
      else case bindE (get_host_ip s 1) (\<lambda>p. case p of None \<Rightarrow> Inl Null_Deref | Some a \<Rightarrow> cstrE a 0) of
        Inl e \<Rightarrow> Some (Inl e)
      | Inr h \<Rightarrow>
        let u = fst (tcp_init (sa_of_host rs h (word_of_int UDP_HOST_MONITOR_SRV_PORT_NUMBER)) (new_UTcpSocket reason)) in
        case tcp_connect (ho_connect os) u of (u, re, _) \<Rightarrow>
        if re \<noteq> 0 then Some (Inr (Not_Connected (m_reason u)))
        else case bindE (client_host_message (malloc HEAD_BYTES) (local_id s) machine_id) (\<lambda>msg.
               bindE (tcp_can_write (ho_writable os) u) (\<lambda>w.
                 if w then bindE (tcp_send (ho_util os) (ho_send os) msg 0 HEAD_BYTES u) (\<lambda>(u, _, n). Inr (u, n))
                 else Inr (u, 0))) of
          Inl e \<Rightarrow> Some (Inl e)
        | Inr (u, n) \<Rightarrow>
          (case (if n = int HEAD_BYTES
                 then host_recv_loop os 0 (int MSG_BUFF_SIZE) (malloc MSG_BUFF_SIZE) u
                 else Some (Inr (malloc MSG_BUFF_SIZE))) of
             None \<Rightarrow> None
           | Some r \<Rightarrow> Some (bindE r (\<lambda>b. bindE (show_host_reply (num_hosts s) machine_id b) (\<lambda>v. Inr (Host_Shown v))))))"

section \<open>Runs of a conversation\<close>

definition ready_write :: "ut_answer \<Rightarrow> bool" where
  "ready_write a \<longleftrightarrow> (\<exists>f. ua_select a = Some f \<and> \<not> error_t f \<and> write_t f)"

definition ready_read :: "ut_answer \<Rightarrow> bool" where
  "ready_read a \<longleftrightarrow> (\<exists>f. ua_select a = Some f \<and> \<not> error_t f \<and> \<not> write_t f \<and> read_t f)"

definition reports :: "ut_answer list \<Rightarrow> ut_answer list" where
  "reports answers = filter (\<lambda>a. ua_select a \<noteq> None) answers"

text \<open>Passes in which \<^verbatim>\<open>select\<close> reports nothing change nothing.\<close>

lemma run_reports: "forE answers (client_pass step) x = forE (reports answers) (client_pass step) x"
  by (induction answers arbitrary: x) (auto simp: reports_def client_pass_def cong: bindE_cong)

lemma run_ended: "x_phase x = Ended out \<Longrightarrow> forE answers (client_pass step) x = Inr x"
  by (induction answers) (auto simp: client_pass_def split: option.splits)

lemma run_silent: "reports answers = [] \<Longrightarrow> forE answers (client_pass step) x = Inr x"
  by (subst run_reports) simp

lemma pass_connected: "ready_write a \<Longrightarrow> x_phase x = Connecting \<Longrightarrow>
    client_pass step a x = Inr (x\<lparr>x_phase := Exchanging Want_Write\<rparr>)"
  by (auto simp: ready_write_def client_pass_def connect_step_def)

text \<open>The message goes out whole in one write.\<close>

definition sends_all :: "(poll_flags \<Rightarrow> ut_answer \<Rightarrow> exchange \<Rightarrow> exchange res) \<Rightarrow> char list \<Rightarrow> bool" where
  "sends_all step msg \<longleftrightarrow> (\<forall>f a x. \<not> error_t f \<and> write_t f \<and> ua_send a = int (length msg) \<longrightarrow>
     step f a x = Inr (x\<lparr>x_wire := x_wire x @ msg, x_phase := Exchanging Want_Read\<rparr>))"

lemma submit_sends_all: "msg \<noteq> [] \<Longrightarrow> sends_all (submit_step msg) msg"
  by (simp add: sends_all_def submit_step_def)

lemma query_sends_all: "msg \<noteq> [] \<Longrightarrow> sends_all (query_step msg jid) msg"
  by (simp add: sends_all_def query_step_def)

lemma run_exchange:
  assumes "reports answers = w1 # w2 # rest" and "ready_write w1" and "ready_write w2" and "ua_send w2 = int (length msg)"
    and "sends_all step msg" and "x_phase x = Connecting"
  shows "forE answers (client_pass step) x
    = forE rest (client_pass step) (x\<lparr>x_wire := x_wire x @ msg, x_phase := Exchanging Want_Read\<rparr>)"
proof -
  let ?x1 = "x\<lparr>x_phase := Exchanging Want_Write\<rparr>"
  have "client_pass step w1 x = Inr ?x1" using assms(2,6) by (rule pass_connected)
  moreover have "client_pass step w2 ?x1 = Inr (x\<lparr>x_wire := x_wire x @ msg, x_phase := Exchanging Want_Read\<rparr>)"
    using assms(3,4,5) by (auto simp: client_pass_def ready_write_def sends_all_def)
  ultimately show ?thesis by (subst run_reports) (simp add: assms(1))
qed

text \<open>The connection the client is given: to the address of host 1.\<close>

lemma client_open_ok:
  assumes "get_host_ip s d = Inr (Some a)" and "cstrE a 0 = Inr h"
  shows "client_open s d UDP_JOB_MONITOR_SRV_PORT_NUMBER True junk = Inr \<lparr>x_phase = Connecting, x_peer = (h, UDP_JOB_MONITOR_SRV_PORT_NUMBER), x_wire = [], x_buf = junk\<rparr>"
  using assms by (simp add: client_open_def)

lemma client_recv_received:
  "length buf \<ge> length d \<Longrightarrow> length d \<le> MSG_BUFF_SIZE \<Longrightarrow>
     client_recv (Received d) buf = Inr (int (length d), d @ drop (length d) buf)"
  by (simp add: client_recv_def storeE_def blit_def)

text \<open>
  A conversation that goes well: the connection comes up, the first write takes the whole message,
  the reply is read in one piece. Passes without an event in between do not matter.
\<close>

definition conversation :: "nat \<Rightarrow> char list \<Rightarrow> ut_answer list \<Rightarrow> bool" where
  "conversation n reply answers \<longleftrightarrow> (\<exists>w1 w2 r rest. reports answers = w1 # w2 # r # rest \<and> ready_write w1
     \<and> ready_write w2 \<and> ua_send w2 = int n \<and> ready_read r \<and> ua_recv r = Received reply)"

lemma run_conversation:
  assumes c: "conversation (length msg) reply answers" and s: "sends_all step msg" and x: "x_phase x = Connecting"
    and r: "\<And>f r. \<not> error_t f \<Longrightarrow> \<not> write_t f \<Longrightarrow> read_t f \<Longrightarrow> ua_recv r = Received reply \<Longrightarrow>
       step f r (x\<lparr>x_wire := x_wire x @ msg, x_phase := Exchanging Want_Read\<rparr>) = Inr x'" "x_phase x' = Ended out"
  shows "forE answers (client_pass step) x = Inr x'"
proof -
  from c obtain w1 w2 r rest where
    rep: "reports answers = w1 # w2 # r # rest" "ready_write w1" "ready_write w2" "ua_send w2 = int (length msg)"
      "ready_read r" "ua_recv r = Received reply" unfolding conversation_def by blast
  let ?x1 = "x\<lparr>x_wire := x_wire x @ msg, x_phase := Exchanging Want_Read\<rparr>"
  from rep(5) obtain f where f: "ua_select r = Some f" "\<not> error_t f" "\<not> write_t f" "read_t f"
    unfolding ready_read_def by blast
  have "client_pass step r ?x1 = Inr x'" using r(1) [OF f(2-4) rep(6)] f(1) by (simp add: client_pass_def)
  then have "forE (r # rest) (client_pass step) ?x1 = Inr x'" using r(2) by (simp add: run_ended)
  then show ?thesis using run_exchange [OF rep(1-4) s x] by simp
qed

definition opened :: "char list \<Rightarrow> char list \<Rightarrow> exchange" where
  "opened h junk = \<lparr>x_phase = Connecting, x_peer = (h, UDP_JOB_MONITOR_SRV_PORT_NUMBER), x_wire = [], x_buf = junk\<rparr>"

lemma submit_conversation:
  assumes host: "get_host_ip s rid = Inr (Some a)" "cstrE a 0 = Inr h"
    and msg: "client_submit_message malloc (local_id s) rid comm_arr user_arr nreq = Inr msg" "msg \<noteq> []"
    and c: "conversation (length msg) reply answers"
    and reply: "20 \<le> length reply" "length reply \<le> MSG_BUFF_SIZE" "get_int reply 4 = Inr jid"
    and mem: "\<And>n. length (malloc n) = n"
  shows "client_submit_single_job s malloc rid comm_arr user_arr nreq True answers = Inr
    \<lparr>x_phase = Ended (Submitted jid), x_peer = (h, UDP_JOB_MONITOR_SRV_PORT_NUMBER), x_wire = msg,
     x_buf = reply @ drop (length reply) (malloc MSG_BUFF_SIZE)\<rparr>"
proof -
  let ?b = "reply @ drop (length reply) (malloc 2000)"
  have g: "client_recv (Received reply) (malloc 2000) = Inr (int (length reply), ?b)" "get_int ?b 4 = Inr jid"
    using reply mem [of 2000] client_recv_received [of reply "malloc 2000"] get_int_prefix [of 4 reply] by simp_all
  have "forE answers (client_pass (submit_step msg)) (opened h (malloc 2000))
    = Inr \<lparr>x_phase = Ended (Submitted jid), x_peer = (h, UDP_JOB_MONITOR_SRV_PORT_NUMBER), x_wire = msg, x_buf = ?b\<rparr>"
    by (rule run_conversation [OF c submit_sends_all [OF msg(2)]]) (use g in \<open>simp_all add: opened_def submit_step_def\<close>)
  then show ?thesis using msg(1) client_open_ok [OF host] by (simp add: client_submit_single_job_def opened_def)
qed

lemma query_conversation:
  assumes host: "get_host_ip s 1 = Inr (Some a)" "cstrE a 0 = Inr h"
    and msg: "client_query_message (malloc HEAD_BYTES) (local_id s) jid = Inr msg" "msg \<noteq> []"
    and c: "conversation (length msg) reply answers" and reply: "length reply = MSG_BUFF_SIZE"
    and show_reply: "show_job_reply jid (reply @ drop MSG_BUFF_SIZE (malloc (4 * MSG_BUFF_SIZE))) = Inr v"
    and mem: "\<And>n. length (malloc n) = n"
  shows "client_query_job_status s malloc jid True answers = Inr
    \<lparr>x_phase = Ended (Shown v), x_peer = (h, UDP_JOB_MONITOR_SRV_PORT_NUMBER), x_wire = msg,
     x_buf = reply @ drop MSG_BUFF_SIZE (malloc (4 * MSG_BUFF_SIZE))\<rparr>"
proof -
  let ?b = "reply @ drop 2000 (malloc 8000)"
  have g: "client_recv (Received reply) (malloc 8000) = Inr (2000, ?b)"
    using reply mem [of 8000] client_recv_received [of reply "malloc 8000"] by simp
  have "forE answers (client_pass (query_step msg jid)) (opened h (malloc 8000))
    = Inr \<lparr>x_phase = Ended (Shown v), x_peer = (h, UDP_JOB_MONITOR_SRV_PORT_NUMBER), x_wire = msg, x_buf = ?b\<rparr>"
    by (rule run_conversation [OF c query_sends_all [OF msg(2)]])
       (use g show_reply in \<open>simp_all add: opened_def query_step_def\<close>)
  then show ?thesis using msg(1) client_open_ok [OF host] by (simp add: client_query_job_status_def opened_def)
qed

section \<open>Client and server\<close>

lemma query_message_of_client:
  assumes "length junk = 24"
  shows "client_query_message junk lid jid
    = Inr (query_message lid 1 jid (dec32 (take 4 (drop 16 junk))) (dec32 (drop 4 (drop 16 junk))))"
  using client_query_message_ok [OF assms] header_of_bytes [of "drop 16 junk" 7 lid 1 jid] assms
  by (simp add: query_message_def)

lemma show_one:
  assumes "0 \<le> jid" and "20 \<le> length b" and "get_int b 3 = Inr jid" and "get_int b 4 = Inr st"
  shows "show_job_reply jid (b @ r) = Inr (One_Job jid st)"
  using assms get_int_prefix [of 3 b r] get_int_prefix [of 4 b r] by (simp add: show_job_reply_def)

lemma show_all:
  assumes "length js = 32" and "152 \<le> length b" and "\<forall>i < 32. get_int b (6 + i) = Inr (js ! i)"
  shows "show_job_reply (-1) (b @ r) = Inr (All_Jobs js)"
proof -
  have "forE [0..<n] (\<lambda>i l. bindE (get_int (b @ r) (6 + i)) (\<lambda>st. Inr (l @ [st]))) [] = Inr (take n js)" if "n \<le> 32" for n
    using that
  proof (induction n)
    case 0
    then show ?case by simp
  next
    case (Suc n)
    then have "get_int (b @ r) (6 + n) = Inr (js ! n)" using assms(2,3) get_int_prefix [of "6 + n" b r] by simp
    with Suc assms(1) show ?case by (simp add: forE_append take_Suc_conv_app_nth)
  qed
  from this [of 32] assms(1) show ?thesis by (simp add: show_job_reply_def)
qed

text \<open>
  C15. A query on its way: the client's message for one job or for all of them, handed to the job monitor's
  handler, leaves the server's state alone, and the client, given the reply, shows the status that the table
  has for the job ("unknown" for an id that is not in it), or those of all 32 slots in order.
\<close>

theorem query_session:
  assumes host: "get_host_ip c 1 = Inr (Some a)" "cstrE a 0 = Inr h"
    and jid: "-1 \<le> jid" "is_int32 jid" and ok: "server_ok s"
    and ints: "is_int32 (local_id c)" "is_int32 (local_id s)" "\<forall>j \<in> set (jobq s). is_int32 (job_stat j)"
    and junk: "length junk = MSG_BUFF_SIZE" and mem: "\<And>n. length (malloc n) = n"
  shows "\<exists>msg reply. handle_request os now junk j24 (msg @ rest) s = Inr (s, reply, [])
    \<and> (\<forall>answers. conversation (length msg) reply answers \<longrightarrow>
        (\<exists>x. client_query_job_status c malloc jid True answers = Inr x \<and> x_wire x = msg
           \<and> x_phase x = Ended (Shown (if jid = -1 then All_Jobs (map job_stat (jobq s))
               else One_Job jid (case find (\<lambda>j. job_id j = jid) (jobq s) of
                 None \<Rightarrow> JOB_STAT_UNKNOW | Some j \<Rightarrow> job_stat j)))))"
proof -
  let ?v = "if jid = -1 then All_Jobs (map job_stat (jobq s))
     else One_Job jid (case find (\<lambda>j. job_id j = jid) (jobq s) of None \<Rightarrow> JOB_STAT_UNKNOW | Some j \<Rightarrow> job_stat j)"
  have "\<exists>j1 j2. client_query_message (malloc 24) (local_id c) jid = Inr (query_message (local_id c) 1 jid j1 j2)"
    using query_message_of_client [of "malloc 24"] mem by blast
  then obtain j1 j2 where m: "client_query_message (malloc HEAD_BYTES) (local_id c) jid
      = Inr (query_message (local_id c) 1 jid j1 j2)" by auto
  let ?msg = "query_message (local_id c) 1 jid j1 j2"
  have ne: "?msg \<noteq> []" by (simp add: query_message_def header_def enc32_def)
  have "\<exists>reply. handle_request os now junk j24 (?msg @ rest) s = Inr (s, reply, []) \<and> length reply = MSG_BUFF_SIZE
      \<and> (\<forall>r. show_job_reply jid (reply @ r) = Inr ?v)"
  proof (cases "jid = -1")
    case True
    from all_answered [OF ok ints junk, of os now j24 1 j1 j2 rest] obtain reply where
      "handle_request os now junk j24 (?msg @ rest) s = Inr (s, reply, [])" "length reply = MSG_BUFF_SIZE"
      "\<forall>i < MAX_JOB_QUEUE. get_int reply (MSG_HEAD_SIZE + i) = Inr (job_stat (jobq s ! i))" unfolding True by blast
    with show_all [of "map job_stat (jobq s)" reply] server_okD(1) [OF ok] True show ?thesis by simp
  next
    case False
    then have j: "0 \<le> jid" using jid(1) by simp
    from query_answered [OF j ints(1) jid(2) ints(2,3) junk, of os now j24 1 j1 j2 rest] obtain reply where
      "handle_request os now junk j24 (?msg @ rest) s = Inr (s, reply, [])" "length reply = MSG_BUFF_SIZE"
      "get_int reply 3 = Inr jid" "get_int reply 4 = Inr (case find (\<lambda>j. job_id j = jid) (jobq s) of
          None \<Rightarrow> JOB_STAT_UNKNOW | Some j \<Rightarrow> job_stat j)" by blast
    with show_one [OF j, of reply] False show ?thesis by simp
  qed
  then obtain reply where
    r: "handle_request os now junk j24 (?msg @ rest) s = Inr (s, reply, [])" "length reply = MSG_BUFF_SIZE"
      "\<And>r. show_job_reply jid (reply @ r) = Inr ?v" by blast
  show ?thesis
    using r(1) query_conversation [OF host m ne _ r(2,3) mem] by (intro exI [of _ ?msg] exI [of _ reply]) auto
qed

text \<open>
  The client cannot show the table either: whatever bytes arrive, reading the records of \<^verbatim>\<open>-qj -2\<close>
  leaves its buffer of 8000 bytes at the 24th record at the latest.
\<close>

lemma job_table_out_of_bounds:
  assumes "length b = 4 * MSG_BUFF_SIZE"
  shows "\<exists>e. show_job_reply (-2) b = Inl e"
proof -
  have "read_job b 23 = Inl Out_Of_Bounds" using assms by (simp add: read_job_def get_int_out)
  then have "\<exists>e. forE [0..<MAX_JOB_QUEUE] (\<lambda>i l. bindE (read_job b i) (\<lambda>j. Inr (l @ [j]))) [] = Inl e"
    by (intro forE_fault [where I = "\<lambda>_. True" and k = 23]) auto
  then show ?thesis by (auto simp: show_job_reply_def)
qed

section \<open>Conversations that do not go well\<close>

text \<open>
  C27. A write that takes only part of the message is repeated from the beginning of the message: the
  server gets the part, then the whole message behind it.
\<close>

theorem partial_write_repeats:
  assumes rep: "reports answers = [w1, w2, w3]" "ready_write w1" "ready_write w2" "ready_write w3"
    and sizes: "0 < ua_send w2" "ua_send w2 < int (length msg)" "ua_send w3 = int (length msg)"
    and x: "x_phase x = Connecting"
  shows "forE answers (client_pass (submit_step msg)) x
    = Inr (x\<lparr>x_wire := x_wire x @ take (nat (ua_send w2)) msg @ msg, x_phase := Exchanging Want_Read\<rparr>)"
proof -
  have "client_pass (submit_step msg) w1 x = Inr (x\<lparr>x_phase := Exchanging Want_Write\<rparr>)" using rep(2) x by (rule pass_connected)
  with rep(3,4) sizes show ?thesis
    by (subst run_reports) (auto simp: rep(1) client_pass_def ready_write_def submit_step_def)
qed

text \<open>
  A submission whose reply cannot be read is reported as submitted all the same, with an id that
  the buffer happened to hold; a query tells that the connection was closed.
\<close>

lemma submit_recv_failed:
  assumes "ready_read r" and "ua_recv r = Recv_Failed e" and "x_phase x = Exchanging Want_Read"
    and "get_int (x_buf x) 4 = Inr garbage"
  shows "client_pass (submit_step msg) r x = Inr (x\<lparr>x_phase := Ended (Submitted garbage)\<rparr>)"
  using assms by (auto simp: client_pass_def ready_read_def submit_step_def client_recv_def)

lemma query_recv_failed:
  assumes "ready_read r" and "ua_recv r = Recv_Failed e" and "x_phase x = Exchanging Want_Read"
  shows "client_pass (query_step msg jid) r x = Inr (x\<lparr>x_phase := Ended Conn_Closed\<rparr>)"
  using assms by (auto simp: client_pass_def ready_read_def query_step_def client_recv_def)

text \<open>There is no time limit: as long as \<^verbatim>\<open>select\<close> reports nothing the client stays in its loop.\<close>

lemma client_waits_forever:
  "reports answers = [] \<Longrightarrow> forE answers (client_pass step) (opened h junk) = Inr (opened h junk)"
  by (rule run_silent)

text \<open>A server that is not there ends every conversation with nothing sent.\<close>

lemma client_refused:
  assumes "reports answers = a # rest" and "ua_select a = Some f" and "error_t f"
  shows "forE answers (client_pass step) (opened h junk) = Inr ((opened h junk)\<lparr>x_phase := Ended Refused\<rparr>)"
  using assms by (subst run_reports) (simp add: client_pass_def connect_step_def opened_def run_ended)
section \<open>The receive loop of the host query\<close>

text \<open>The connection is there, can be written to, and takes the whole request.\<close>

definition host_connected :: "host_os \<Rightarrow> int \<Rightarrow> bool" where
  "host_connected os fd \<longleftrightarrow> co_socket (ho_connect os) = fd \<and> 0 \<le> fd \<and> fd < FD_SETSIZE \<and> co_nonblock (ho_connect os) = 0
     \<and> (co_connect (ho_connect os) = 0
         \<or> co_connect (ho_connect os) < 0 \<and> co_err (ho_connect os) \<in> {EINPROGRESS, EWOULDBLOCK})
     \<and> ho_writable os fd \<and> (\<forall>b. ho_send os fd b = Sent (length b))
     \<and> ut_send_cap (ho_util os) HEAD_BYTES = HEAD_BYTES \<and> ut_recv_cap (ho_util os) MSG_BUFF_SIZE = MSG_BUFF_SIZE"

lemma host_recv_loop_done: "remain \<le> 0 \<Longrightarrow> host_recv_loop os k remain buf u = Some (Inr buf)"
  by (subst host_recv_loop.simps) simp

lemma tcp_can_read_in: "0 \<le> m_sock u \<Longrightarrow> m_sock u < FD_SETSIZE \<Longrightarrow> tcp_can_read ready u = Inr (ready (m_sock u))"
  by (simp add: tcp_can_read_def FD_SET_def)

text \<open>The reply comes in one piece, after any number of passes in which there is nothing to read.\<close>

definition one_piece :: "host_os \<Rightarrow> int \<Rightarrow> nat \<Rightarrow> char list \<Rightarrow> bool" where
  "one_piece os fd n reply \<longleftrightarrow> (\<forall>k < n. \<not> ho_readable os k fd) \<and> ho_readable os n fd
     \<and> ho_recv os n fd MSG_BUFF_SIZE = Received reply"

lemma host_recv_one_piece:
  assumes "one_piece os fd n reply" and "m_sock u = fd" "0 \<le> fd" "fd < FD_SETSIZE" "m_status u \<noteq> SOCK_ERROR"
    and "ut_recv_cap (ho_util os) MSG_BUFF_SIZE = MSG_BUFF_SIZE" and "length reply = MSG_BUFF_SIZE" and "length buf = MSG_BUFF_SIZE"
    and "k \<le> n"
  shows "host_recv_loop os k (int MSG_BUFF_SIZE) buf u = Some (Inr reply)"
  using assms(9)
proof (induction "n - k" arbitrary: k)
  case 0
  then have k: "k = n" by simp
  have "tcp_recv (ho_util os) (ho_recv os n) buf 0 MSG_BUFF_SIZE u = Inr (u, reply, 2000)"
    using assms by (auto simp: tcp_recv_def one_piece_def storeE_def blit_def Let_def)
  then show ?case using assms unfolding k
    by (subst host_recv_loop.simps) (simp add: tcp_can_read_in one_piece_def host_recv_loop_done)
next
  case (Suc d)
  then have "host_recv_loop os (Suc k) (int MSG_BUFF_SIZE) buf u = Some (Inr reply)" by simp
  moreover have "\<not> ho_readable os k fd" using assms(1) Suc.hyps(2) by (simp add: one_piece_def)
  ultimately show ?case using assms(2-4) by (subst host_recv_loop.simps) (simp add: tcp_can_read_in)
qed

text \<open>Nothing but ends of the connection and errors: the loop counts nothing down.\<close>

definition no_more_data :: "host_os \<Rightarrow> int \<Rightarrow> bool" where
  "no_more_data os fd \<longleftrightarrow> (\<forall>k n. ho_recv os k fd n = Received [] \<or> (\<exists>e. ho_recv os k fd n = Recv_Failed e))"

lemma no_data_recv:
  assumes "no_more_data os (m_sock u)"
  shows "\<exists>u' n. tcp_recv ut (ho_recv os k) buf 0 len u = Inr (u', buf, n) \<and> n \<le> 0 \<and> m_sock u' = m_sock u"
proof -
  have "ho_recv os k (m_sock u) (ut_recv_cap ut len) = Received []
      \<or> (\<exists>e. ho_recv os k (m_sock u) (ut_recv_cap ut len) = Recv_Failed e)"
    using assms by (simp add: no_more_data_def)
  then show ?thesis by (auto simp: tcp_recv_def storeE_def blit_def Let_def)
qed

lemma host_recv_never_ends:
  assumes "no_more_data os (m_sock u)" and "0 \<le> m_sock u" and "m_sock u < FD_SETSIZE" and "0 < remain"
  shows "host_recv_loop os k remain buf u = None"
proof -
  let ?stuck = "\<lambda>os (remain::int) u. no_more_data os (m_sock u) \<and> 0 \<le> m_sock u \<and> m_sock u < FD_SETSIZE \<and> 0 < remain"
  have "\<not> ?stuck os remain u" if ret: "host_recv_loop os k remain buf u = Some r" for r
  proof (rule host_recv_loop.raw_induct [where P = "\<lambda>os k remain buf u r. \<not> ?stuck os remain u", OF _ ret])
    fix loop os k and remain :: int and buf u r
    assume IH: "\<And>os k remain buf u r. loop os k remain buf u = Some r \<Longrightarrow> \<not> ?stuck os remain u"
      and body: "(if remain \<le> 0 then Some (Inr buf)
        else case tcp_can_read (ho_readable os k) u of Inl e \<Rightarrow> Some (Inl e)
          | Inr w \<Rightarrow> if w then case tcp_recv (ho_util os) (ho_recv os k) buf 0 MSG_BUFF_SIZE u of
                Inl e \<Rightarrow> Some (Inl e)
              | Inr r \<Rightarrow> loop os (Suc k) (remain - snd (snd r)) (fst (snd r)) (fst r)
            else loop os (Suc k) remain buf u) = Some r"
    show "\<not> ?stuck os remain u"
    proof
      assume a: "?stuck os remain u"
      show False
      proof (cases "ho_readable os k (m_sock u)")
        case False
        with body a have "loop os (Suc k) remain buf u = Some r" by (simp add: tcp_can_read_in)
        with IH a show False by blast
      next
        case True
        obtain u' n where r: "tcp_recv (ho_util os) (ho_recv os k) buf 0 MSG_BUFF_SIZE u = Inr (u', buf, n)"
          "n \<le> 0" "m_sock u' = m_sock u" using no_data_recv a by blast
        with body a True have l: "loop os (Suc k) (remain - n) buf u' = Some r" by (simp add: tcp_can_read_in)
        have "0 < remain - n" using a r(2) by linarith
        then show False using IH [OF l] a r(3) by simp
      qed
    qed
  qed
  with assms show ?thesis by (cases "host_recv_loop os k remain buf u") auto
qed

lemma host_query_connected:
  assumes c: "host_connected os fd" and id: "0 \<le> qh" "qh \<le> num_hosts s"
    and host: "get_host_ip s 1 = Inr (Some a)" "cstrE a 0 = Inr h"
    and msg: "client_host_message (malloc HEAD_BYTES) (local_id s) qh = Inr msg" "length msg = HEAD_BYTES"
  shows "\<exists>u. m_sock u = fd \<and> m_status u \<noteq> SOCK_ERROR \<and> client_query_host_status_0 os rs malloc reason s qh
    = (case host_recv_loop os 0 (int MSG_BUFF_SIZE) (malloc MSG_BUFF_SIZE) u of
         None \<Rightarrow> None
       | Some r \<Rightarrow> Some (bindE r (\<lambda>b. bindE (show_host_reply (num_hosts s) qh b) (\<lambda>v. Inr (Host_Shown v)))))"
proof -
  let ?u0 = "fst (tcp_init (sa_of_host rs h (word_of_int UDP_HOST_MONITOR_SRV_PORT_NUMBER)) (new_UTcpSocket reason))"
  obtain u where u: "tcp_connect (ho_connect os) ?u0 = (u, 0, [])" "m_sock u = fd" "m_status u \<noteq> SOCK_ERROR"
    using c by (auto simp: host_connected_def tcp_connect_def tcp_init_def new_UTcpSocket_def Let_def)
  have w: "tcp_can_write (ho_writable os) u = Inr True" using c u(2) by (simp add: tcp_can_write_def FD_SET_def host_connected_def)
  have s: "tcp_send (ho_util os) (ho_send os) msg 0 HEAD_BYTES u = Inr (u, msg, int HEAD_BYTES)"
    using c u(2,3) msg(2) by (simp add: tcp_send_def loadE_def host_connected_def Let_def)
  show ?thesis
    by (rule exI [of _ u]) (use u w s id host msg in \<open>simp add: client_query_host_status_0_def Let_def\<close>)
qed

lemma c_str_of_strncpy: "length (c_str_of a) < n \<Longrightarrow> cstrE (strncpy_bytes (strncpy_bytes a n) n) 0 = Inr (c_str_of a)"
proof -
  assume l: "length (c_str_of a) < n"
  then obtain m where m: "n - length (c_str_of a) = Suc m" by (cases "n - length (c_str_of a)") auto
  have b: "strncpy_bytes a n = c_str_of a @ NUL # replicate m NUL" using l m by (simp add: strncpy_bytes_def)
  then have "c_str_of (strncpy_bytes a n) = c_str_of a" by (simp add: c_str_of_append)
  then have "strncpy_bytes (strncpy_bytes a n) n = c_str_of a @ NUL # replicate m NUL" using l m by (simp add: strncpy_bytes_def)
  then show ?thesis using cstrE_append [of "c_str_of a" "[]"] by simp
qed

lemma forE_collect:
  assumes "\<And>i. i < n \<Longrightarrow> f i = Inr (g i)"
  shows "forE [0..int n - 1] (\<lambda>i l. bindE (f (nat i)) (\<lambda>v. Inr (l @ [v]))) [] = Inr (map g [0..<n])"
proof -
  have "\<exists>t. forE [0..int n - 1] (\<lambda>i l. bindE (f (nat i)) (\<lambda>v. Inr (l @ [v]))) [] = Inr t \<and> t = map g [0..<n]"
    by (rule forE_count0 [where P = "\<lambda>m t. t = map g [0..<m]"]) (use assms in simp_all)
  then show ?thesis by simp
qed

lemma show_host_table:
  assumes "\<And>i. i < n \<Longrightarrow> get_int b (6 + 16 * i) = Inr (int i + 1) \<and> get_int b (7 + 16 * i) = Inr (host_stat (q ! i))
      \<and> loadE b (56 + 64 * i) 32 = Inr (strncpy_bytes (ip (q ! i)) 32) \<and> length (c_str_of (ip (q ! i))) < 32"
  shows "show_host_reply (int n) 0 b
    = Inr (Host_Table (map (\<lambda>i. (int i + 1, host_stat (q ! i), c_str_of (ip (q ! i)))) [0..<n]))"
proof -
  have "read_host b i = Inr (int i + 1, host_stat (q ! i), c_str_of (ip (q ! i)))" if "i < n" for i
    using assms [OF that] c_str_of_strncpy [of "ip (q ! i)" 32] by (simp add: read_host_def SIZEOF_HOST_def)
  from forE_collect [of n "read_host b", OF this] show ?thesis by (simp add: show_host_reply_def)
qed

lemma show_host_states:
  assumes "\<And>i. i < n \<Longrightarrow> get_int b (6 + i) = Inr (p ! i)" and "1 \<le> qh"
  shows "show_host_reply (int n) qh b = Inr (Host_States (map (\<lambda>i. p ! i) [0..<n]))"
  using forE_collect [of n "\<lambda>i. get_int b (6 + i)", OF assms(1)] assms(2) by (simp add: show_host_reply_def)

lemma host_message_header:
  assumes "length junk = 24"
  shows "client_host_message junk lid k
    = Inr (header (msg_code MSG_TYPE_HOST) lid k k (dec32 (take 4 (drop 16 junk))) (dec32 (drop 4 (drop 16 junk))))"
  using client_host_message_ok [OF assms] header_of_bytes [of "drop 16 junk" 2 lid k k] assms by simp

text \<open>The view a host query ends with, and that the monitor's reply shows it.\<close>

definition host_view_of :: "server \<Rightarrow> nat \<Rightarrow> int \<Rightarrow> host_view" where
  "host_view_of s n qh = (if qh = 0
     then Host_Table (map (\<lambda>i. (int i + 1, host_stat (hostq s ! i), c_str_of (ip (hostq s ! i)))) [0..<n])
     else Host_States (map (\<lambda>i. pcstat s ! i) [0..<n]))"

lemma host_reply_shown:
  assumes id: "0 \<le> qh" "num_hosts s = int n" "n \<le> 5"
    and ints: "is_int32 src" "is_int32 (local_id s)" "is_int32 qh"
    and tables: "length (hostq s) = 6" "\<forall>h \<in> set (hostq s). is_int32 (host_stat h) \<and> length (c_str_of (ip h)) < 32"
      "length (pcstat s) = 5" "\<forall>x \<in> set (pcstat s). is_int32 x"
    and junk: "length junk = MSG_BUFF_SIZE"
  shows "\<exists>reply. host_reply (header (msg_code MSG_TYPE_HOST) src qh qh j1 j2 @ rest) junk s = Inr reply
    \<and> length reply = MSG_BUFF_SIZE \<and> show_host_reply (int n) qh reply = Inr (host_view_of s n qh)"
proof (cases "qh = 0")
  case True
  have n6: "n \<le> 6" and st: "\<forall>h \<in> set (hostq s). is_int32 (host_stat h)" using id(3) tables(2) by simp_all
  from table_answered [OF is_int32_msg_code ints(1,2) id(2) n6 tables(1) st junk, of MSG_TYPE_HOST qh j1 j2 rest] obtain b where
    b: "host_reply (header (msg_code MSG_TYPE_HOST) src qh qh j1 j2 @ rest) junk s = Inr b" "reply_head (msg_code MSG_TYPE_HOST) (local_id s) src 0 b"
    "\<forall>i < n. get_int b (6 + 16 * i) = Inr (int i + 1) \<and> get_int b (7 + 16 * i) = Inr (host_stat (hostq s ! i))
       \<and> loadE b (56 + 64 * i) 32 = Inr (strncpy_bytes (ip (hostq s ! i)) 32)" unfolding True by blast
  have "show_host_reply (int n) 0 b = Inr (host_view_of s n qh)" unfolding True
    by (simp only: host_view_of_def if_True refl) (rule show_host_table, use b(3) tables(1,2) id(3) in auto)
  with b(1,2) True show ?thesis by (auto simp: reply_head_def)
next
  case False
  then have q1: "1 \<le> qh" using id(1) by simp
  from states_answered [OF is_int32_msg_code ints(1,3,2) id(2,3) q1 tables(3,4) junk, of MSG_TYPE_HOST qh j1 j2 rest] obtain b where
    b: "host_reply (header (msg_code MSG_TYPE_HOST) src qh qh j1 j2 @ rest) junk s = Inr b" "reply_head (msg_code MSG_TYPE_HOST) (local_id s) src qh b"
    "\<forall>i < n. get_int b (6 + i) = Inr (pcstat s ! i)" by blast
  have "show_host_reply (int n) qh b = Inr (host_view_of s n qh)" using show_host_states [of n b "pcstat s" qh] b(3) q1 False by (simp add: host_view_of_def)
  with b(1,2) show ?thesis by (auto simp: reply_head_def)
qed

text \<open>
  C16. The host query on its way: the client's message, handed to the host monitor, is answered, and the
  client, which gets the reply in one piece, shows it: for id 0 the table, in which line \<open>i\<close> has the number
  \<open>i + 1\<close> and the state and address that \<^verbatim>\<open>hostq_init\<close> and the status reports keep for host \<open>i\<close>
  (so every host appears under its successor's number, and the last one not at all); for the id of a host
  the states of all hosts, shifted the same way.
\<close>

theorem host_session:
  assumes host: "get_host_ip c 1 = Inr (Some a)" "cstrE a 0 = Inr h"
    and id: "0 \<le> qh" "qh \<le> int n" "num_hosts c = int n" "num_hosts s = int n" "n \<le> 5"
    and ints: "is_int32 (local_id c)" "is_int32 (local_id s)"
    and tables: "length (hostq s) = 6" "\<forall>h \<in> set (hostq s). is_int32 (host_stat h) \<and> length (c_str_of (ip h)) < 32"
      "length (pcstat s) = 5" "\<forall>x \<in> set (pcstat s). is_int32 x"
    and junk: "length junk = MSG_BUFF_SIZE" and mem: "\<And>n. length (malloc n) = n"
  shows "\<exists>msg reply. client_host_message (malloc HEAD_BYTES) (local_id c) qh = Inr msg
    \<and> host_reply (msg @ rest) junk s = Inr reply
    \<and> (\<forall>os fd k. host_connected os fd \<and> one_piece os fd k reply \<longrightarrow> client_query_host_status_0 os rs malloc reason c qh
         = Some (Inr (Host_Shown (if qh = 0
             then Host_Table (map (\<lambda>i. (int i + 1, host_stat (hostq s ! i), c_str_of (ip (hostq s ! i)))) [0..<n])
             else Host_States (map (\<lambda>i. pcstat s ! i) [0..<n])))))"
proof -
  let ?v = "if qh = 0
     then Host_Table (map (\<lambda>i. (int i + 1, host_stat (hostq s ! i), c_str_of (ip (hostq s ! i)))) [0..<n])
     else Host_States (map (\<lambda>i. pcstat s ! i) [0..<n])"
  obtain j1 j2 where m: "client_host_message (malloc HEAD_BYTES) (local_id c) qh
      = Inr (header (msg_code MSG_TYPE_HOST) (local_id c) qh qh j1 j2)"
    using host_message_header [of "malloc 24"] mem [of 24] by simp
  let ?msg = "header (msg_code MSG_TYPE_HOST) (local_id c) qh qh j1 j2"
  have q: "is_int32 qh" using id by (simp add: is_int32_def)
  from host_reply_shown [OF id(1,4,5) ints q tables junk, of j1 j2 rest] obtain reply where r: "host_reply (?msg @ rest) junk s = Inr reply" "length reply = MSG_BUFF_SIZE"
    "show_host_reply (int n) qh reply = Inr ?v" unfolding host_view_of_def by blast
  have l: "length ?msg = HEAD_BYTES" and qn: "qh \<le> num_hosts c" using id by simp_all
  have "client_query_host_status_0 os rs malloc reason c qh = Some (Inr (Host_Shown ?v))"
    if conn: "host_connected os fd" and piece: "one_piece os fd k reply" for os fd k
  proof -
    from host_query_connected [where malloc = malloc and rs = rs and reason = reason, OF conn id(1) qn host m l] obtain u where
      u: "m_sock u = fd" "m_status u \<noteq> SOCK_ERROR" "client_query_host_status_0 os rs malloc reason c qh
      = (case host_recv_loop os 0 (int MSG_BUFF_SIZE) (malloc MSG_BUFF_SIZE) u of
           None \<Rightarrow> None
         | Some r \<Rightarrow> Some (bindE r (\<lambda>b. bindE (show_host_reply (num_hosts c) qh b) (\<lambda>v. Inr (Host_Shown v)))))" by blast
    have "host_recv_loop os 0 (int MSG_BUFF_SIZE) (malloc MSG_BUFF_SIZE) u = Some (Inr reply)"
      using piece u(1,2) conn r(2) mem by (intro host_recv_one_piece) (auto simp: host_connected_def)
    then show ?thesis using u(3) r(3) id(3) by simp
  qed
  with m r(1) show ?thesis by blast
qed

section \<open>Examples\<close>

definition example_client :: server where
  "example_client = zero_server\<lparr>num_hosts := 2, local_id := 2, ips := None # replicate 5 (Some (''h'' @ [NUL]))\<rparr>"

definition example_answers :: "nat \<Rightarrow> char list \<Rightarrow> ut_answer list" where
  "example_answers n reply =
     [\<lparr>ua_select = None, ua_send = 0, ua_recv = Received []\<rparr>,
      \<lparr>ua_select = Some \<lparr>error_t = False, write_t = True, read_t = False\<rparr>, ua_send = 0, ua_recv = Received []\<rparr>,
      \<lparr>ua_select = Some \<lparr>error_t = False, write_t = True, read_t = False\<rparr>, ua_send = int n, ua_recv = Received []\<rparr>,
      \<lparr>ua_select = None, ua_send = 0, ua_recv = Received []\<rparr>,
      \<lparr>ua_select = Some \<lparr>error_t = False, write_t = False, read_t = True\<rparr>, ua_send = 0, ua_recv = Received reply\<rparr>]"

lemma example_conversation: "conversation n reply (example_answers n reply)"
  by (simp add: conversation_def example_answers_def reports_def ready_write_def ready_read_def)

lemma example_client_facts:
  "get_host_ip example_client 1 = Inr (Some (''h'' @ [NUL]))" "cstrE (''h'' @ [NUL]) 0 = Inr ''h''"
  "is_int32 (local_id example_client)" "local_id example_client = 2" "num_hosts example_client = 2"
  by (simp_all add: get_host_ip_def example_client_def nthE_def in_range_def cstrE_def c_str_of_def NUL_def is_int32_def)

lemma zero_server_facts:
  "is_int32 (local_id zero_server)" "\<not> ring_full zero_server" "\<forall>j \<in> set (jobq zero_server). is_int32 (job_stat j)"
  "job_head zero_server = 0" "pending zero_server = []"
  by (auto simp: zero_server_def zero_job_def is_int32_def ring_full_def pending_def ring_slots_def ring_len_def)


lemma query_session_witness:
  "\<exists>msg reply x. handle_request (ms_net example_mon_os) 7 (replicate 2000 NUL) [] (msg @ []) zero_server = Inr (zero_server, reply, [])
    \<and> client_query_job_status example_client (\<lambda>n. replicate n NUL) 5 True (example_answers (length msg) reply) = Inr x
    \<and> x_wire x = msg \<and> x_phase x = Ended (Shown (One_Job 5 JOB_STAT_UNKNOW))"
proof -
  have t: "-1 \<le> (5::int)" "is_int32 5" "length (replicate 2000 NUL) = MSG_BUFF_SIZE" "\<And>n. length (replicate n NUL) = n"
    by (simp_all add: is_int32_def)
  have f: "find (\<lambda>j. job_id j = 5) (jobq zero_server) = None"
    by (auto simp: find_None_iff zero_server_def zero_job_def)
  from query_session [OF example_client_facts(1,2) t(1,2) server_ok_zero example_client_facts(3) zero_server_facts(1,3) t(3,4),
      of "ms_net example_mon_os" 7 "[]" "[]"] example_conversation f
  show ?thesis by fastforce
qed

lemma job_table_out_of_bounds_witness: "\<exists>e. show_job_reply (-2) (replicate 8000 NUL) = Inl e"
  by (rule job_table_out_of_bounds) simp

lemma partial_write_repeats_witness:
  "forE [\<lparr>ua_select = Some \<lparr>error_t = False, write_t = True, read_t = False\<rparr>, ua_send = 0, ua_recv = Received []\<rparr>,
      \<lparr>ua_select = Some \<lparr>error_t = False, write_t = True, read_t = False\<rparr>, ua_send = 2, ua_recv = Received []\<rparr>,
      \<lparr>ua_select = Some \<lparr>error_t = False, write_t = True, read_t = False\<rparr>, ua_send = 5, ua_recv = Received []\<rparr>]
     (client_pass (submit_step ''hello'')) (opened ''h'' []) =
   Inr ((opened ''h'' [])\<lparr>x_wire := ''hehello'', x_phase := Exchanging Want_Read\<rparr>)"
  by (subst partial_write_repeats) (auto simp: reports_def ready_write_def opened_def)

definition example_host_os :: "(nat \<Rightarrow> recv_answer) \<Rightarrow> host_os" where
  "example_host_os answer = \<lparr>ho_connect = \<lparr>co_socket = 5, co_nonblock = 0, co_connect = -1, co_err = EINPROGRESS\<rparr>,
     ho_util = \<lparr>ut_recv_cap = (\<lambda>n. n), ut_send_cap = (\<lambda>n. n)\<rparr>, ho_writable = (\<lambda>_. True),
     ho_send = (\<lambda>_ b. Sent (length b)), ho_readable = (\<lambda>k _. 3 \<le> k), ho_recv = (\<lambda>k _ _. answer k)\<rparr>"

lemma example_host_connected: "host_connected (example_host_os answer) 5"
  by (simp add: host_connected_def example_host_os_def FD_SETSIZE_def)

lemma example_one_piece: "answer 3 = Received reply \<Longrightarrow> one_piece (example_host_os answer) 5 3 reply"
  by (simp add: one_piece_def example_host_os_def)

lemma host_session_witness:
  "\<exists>msg reply. client_host_message (replicate 24 NUL) 2 0 = Inr msg
    \<and> host_reply (msg @ []) (replicate 2000 NUL) (zero_server\<lparr>num_hosts := 2\<rparr>) = Inr reply
    \<and> client_query_host_status_0 (example_host_os (\<lambda>_. Received reply)) example_resolver (\<lambda>n. replicate n NUL) 0 example_client 0
        = Some (Inr (Host_Shown (Host_Table [(1, 0, ''''), (2, 0, '''')])))"
proof -
  let ?s = "zero_server\<lparr>num_hosts := 2\<rparr>"
  have i: "0 \<le> (0::int)" "0 \<le> int 2" "num_hosts example_client = int 2" "num_hosts ?s = int 2" "2 \<le> (5::nat)"
    "is_int32 (local_id ?s)" "length (replicate 2000 NUL) = MSG_BUFF_SIZE" "\<And>n. length (replicate n NUL) = n"
    by (simp_all add: example_client_facts zero_server_def is_int32_def)
  have t: "length (hostq ?s) = 6" "\<forall>h \<in> set (hostq ?s). is_int32 (host_stat h) \<and> length (c_str_of (ip h)) < 32"
    "length (pcstat ?s) = 5" "\<forall>x \<in> set (pcstat ?s). is_int32 x"
    by (auto simp: zero_server_def zero_host_def is_int32_def c_str_of_def)
  have "hostq ?s ! 0 = zero_host" "hostq ?s ! 1 = zero_host" by (simp_all add: zero_server_def)
  then have v: "map (\<lambda>i. (int i + 1, host_stat (hostq ?s ! i), c_str_of (ip (hostq ?s ! i)))) [0..<2] = [(1, 0, ''''), (2, 0, '''')]"
    by (simp add: upt_rec zero_host_def c_str_of_def)
  from host_session [OF example_client_facts(1,2) i(1-5) example_client_facts(3) i(6) t i(7,8), of "[]" example_resolver 0]
    example_host_connected example_one_piece example_client_facts(4) v show ?thesis by fastforce
qed


section \<open>The older host query on a broken connection\<close>

text \<open>Writes that fail leave it in its loop, for as long as the connection is reported writable.\<close>

lemma older_query_spins:
  assumes "\<forall>a \<in> set answers. ready_write a \<and> ua_send a \<le> 0" and "msg \<noteq> []" and "x_phase x = Exchanging w"
  shows "forE answers (client_pass (host_step msg n qh)) x = Inr x"
  using assms(1)
proof (induction answers)
  case Nil
  then show ?case by simp
next
  case (Cons a rest)
  have "0 < length msg" using assms(2) by simp
  then have "client_pass (host_step msg n qh) a x = Inr x"
    using Cons.prems assms(3) by (auto simp: client_pass_def ready_write_def host_step_def Let_def)
  with Cons show ?case by simp
qed

end
