(* ===== verification/Job_Cancel.thy ===== *)
theory Job_Cancel
  imports Job_Lifecycle Client_Exchange
begin

text \<open>
  The way of a cancellation through the components: \<^verbatim>\<open>client_cancel_job\<close> (\<^verbatim>\<open>epbscli.c\<close>) writes it, the job
  monitor passes it on (\<^verbatim>\<open>server_single_job_cancel\<close>, \<^verbatim>\<open>libjobq.c\<close>), \<^verbatim>\<open>cancel_job_request\<close> serves it on a node.
\<close>

section \<open>A cancellation on its way\<close>

text \<open>The client writes the message once and does not wait for an answer.\<close>

lemma cancel_conversation:
  assumes host: "get_host_ip c 1 = Inr (Some a)" "cstrE a 0 = Inr h"
    and msg: "client_cancel_message junk stack (local_id c) jid = Inr msg" "msg \<noteq> []"
    and ev: "reports answers = w1 # w2 # rest" "ready_write w1" "ready_write w2" "ua_send w2 = int (length msg)"
  shows "client_cancel_job c junk stack jid True answers = Inr
    \<lparr>x_phase = Ended Cancelled, x_peer = (h, UDP_JOB_MONITOR_SRV_PORT_NUMBER), x_wire = msg, x_buf = []\<rparr>"
proof -
  let ?step = "client_pass (cancel_step msg)"
  let ?x = "\<lparr>x_phase = Ended Cancelled, x_peer = (h, UDP_JOB_MONITOR_SRV_PORT_NUMBER), x_wire = msg, x_buf = []\<rparr>"
  have "?step w1 (opened h []) = Inr ((opened h [])\<lparr>x_phase := Exchanging Want_Write\<rparr>)"
    by (rule pass_connected [OF ev(2)]) (simp add: opened_def)
  moreover have "?step w2 ((opened h [])\<lparr>x_phase := Exchanging Want_Write\<rparr>) = Inr ?x"
    using ev(3,4) msg(2) by (auto simp: client_pass_def ready_write_def cancel_step_def opened_def)
  ultimately have "forE (reports answers) ?step (opened h []) = Inr ?x" by (simp add: ev(1) run_ended)
  then have "forE answers ?step (opened h []) = Inr ?x" by (subst run_reports)
  then show ?thesis using msg(1) client_open_ok [OF host] by (simp add: client_cancel_job_def opened_def)
qed

text \<open>A node cancels the thread of its latest job, whichever job the message names.\<close>

lemma node_cancels:
  assumes "cancel_packet addr jid p" and "length buf = MSG_BUFF_SIZE"
  shows "\<exists>buf'. cancel_job_request (Some (pk_data p)) buf = Inr (buf', [Cancel_Thread])"
proof -
  let ?b = "blit buf 0 (pk_data p)"
  have l: "length (pk_data p) = 24" and g: "get_int (pk_data p) 3 = Inr jid" using assms(1) by (simp_all add: cancel_packet_def)
  have "pk_data p \<noteq> []" using l by auto
  then have "udp_recv True True (Some (pk_data p)) buf 2000 = Inr (24, ?b)"
    using udp_recv_datagram [of "pk_data p" 2000 buf] l assms(2) by auto
  moreover have "get_int ?b 3 = Inr jid" using g l get_int_prefix [of 3 "pk_data p" "drop 24 buf"] by (simp add: blit_def)
  ultimately show ?thesis by (simp add: cancel_job_request_def)
qed

lemma cancel_message_built:
  assumes "length junk = 24" and "24 \<le> length stack"
  shows "client_cancel_message junk stack lid jid = Inr (cancel_message lid 1 jid
    (dec32 (take 4 (drop 16 junk))) (dec32 (drop 4 (drop 16 junk))) (drop 24 stack))"
  using client_cancel_message_ok [OF assms] header_of_bytes [of "drop 16 junk" 5 lid 1 jid] assms(1)
  by (simp add: cancel_message_def)

text \<open>
  C20. A cancellation from the client to the nodes: the client's message, once written, is taken for a success; handed
  to the job monitor's handler it becomes one datagram for each host that \<^verbatim>\<open>nodesstat\<close> assigns to the job, in
  the order of their numbers; and each of these nodes cancels the thread of its latest job, whatever job that
  is. The server's tables do not change: nothing records that the job was cancelled.
\<close>

theorem cancel_session:
  assumes host: "get_host_ip c 1 = Inr (Some a)" "cstrE a 0 = Inr h"
    and bufs: "length cj = HEAD_BYTES" "length stack = MSG_BUFF_SIZE" "length j24 = HEAD_BYTES" "length buf = MSG_BUFF_SIZE"
    and ok: "server_ok s" and n: "num_hosts s = int n" "n \<le> 4"
    and ints: "is_int32 jid" "is_int32 (local_id c)" "is_int32 (local_id s)"
    and addrs: "\<forall>k. 1 \<le> k \<and> k \<le> n \<longrightarrow> node_addr os s (int k) (addr k)" and sendto: "\<forall>p. os_sendto os p \<noteq> -1"
  shows "\<exists>msg ps. length msg = MSG_BUFF_SIZE
    \<and> (\<forall>answers w1 w2 rest. reports answers = w1 # w2 # rest \<and> ready_write w1 \<and> ready_write w2 \<and> ua_send w2 = int MSG_BUFF_SIZE
        \<longrightarrow> (\<exists>x. client_cancel_job c cj stack jid True answers = Inr x \<and> x_wire x = msg \<and> x_phase x = Ended Cancelled))
    \<and> handle_request os now junk j24 msg s = Inr (s, junk, ps)
    \<and> list_all2 (\<lambda>k p. pk_addr p = addr k \<and> pk_port p = UDP_CANCEL_JOB_SRV_PORT_NUMBER
        \<and> (\<exists>buf'. cancel_job_request (Some (pk_data p)) buf = Inr (buf', [Cancel_Thread])))
        (filter (\<lambda>k. nodesstat s ! k = jid) [1..<Suc n]) ps"
proof -
  obtain j1 j2 where m: "client_cancel_message cj stack (local_id c) jid = Inr (cancel_message (local_id c) 1 jid j1 j2 (drop 24 stack))"
    using cancel_message_built [of cj stack] bufs(1,2) by simp
  let ?msg = "cancel_message (local_id c) 1 jid j1 j2 (drop 24 stack)"
  have l: "length ?msg = MSG_BUFF_SIZE" using bufs(2) by (simp add: cancel_message_def)
  then have ne: "?msg \<noteq> []" by auto
  from cancel_request_forwarded [OF ok n ints(2,1,3) addrs sendto bufs(3), of now junk 1 j1 j2 "drop 24 stack"] obtain ps where
    ps: "handle_request os now junk j24 ?msg s = Inr (s, junk, ps)"
      "list_all2 (\<lambda>k p. cancel_packet (addr k) jid p) (filter (\<lambda>k. nodesstat s ! k = jid) [1..<Suc n]) ps" by blast
  have "pk_addr p = addr k \<and> pk_port p = UDP_CANCEL_JOB_SRV_PORT_NUMBER
      \<and> (\<exists>buf'. cancel_job_request (Some (pk_data p)) buf = Inr (buf', [Cancel_Thread]))" if "cancel_packet (addr k) jid p" for k p
    using that node_cancels [OF that bufs(4)] by (simp add: cancel_packet_def)
  with ps(2) have "list_all2 (\<lambda>k p. pk_addr p = addr k \<and> pk_port p = UDP_CANCEL_JOB_SRV_PORT_NUMBER
      \<and> (\<exists>buf'. cancel_job_request (Some (pk_data p)) buf = Inr (buf', [Cancel_Thread])))
      (filter (\<lambda>k. nodesstat s ! k = jid) [1..<Suc n]) ps" by (rule list_all2_mono) blast
  moreover have "\<exists>x. client_cancel_job c cj stack jid True answers = Inr x \<and> x_wire x = ?msg \<and> x_phase x = Ended Cancelled"
    if "reports answers = w1 # w2 # rest \<and> ready_write w1 \<and> ready_write w2 \<and> ua_send w2 = int MSG_BUFF_SIZE" for answers w1 w2 rest
    using cancel_conversation [OF host m ne, of answers w1 w2 rest] that l by auto
  ultimately show ?thesis using l ps(1) by blast
qed

section \<open>Example\<close>

definition example_cancel_server :: server where
  "example_cancel_server = example_server\<lparr>nodesstat := [-1, -1, 7, -1, -1]\<rparr>"

lemma cancel_session_witness:
  "\<exists>msg p x buf'. client_cancel_job example_client (replicate 24 NUL) (replicate 2000 NUL) 7 True
        [\<lparr>ua_select = Some \<lparr>error_t = False, write_t = True, read_t = False\<rparr>, ua_send = 0, ua_recv = Received []\<rparr>,
         \<lparr>ua_select = Some \<lparr>error_t = False, write_t = True, read_t = False\<rparr>, ua_send = 2000, ua_recv = Received []\<rparr>] = Inr x
    \<and> x_wire x = msg \<and> x_phase x = Ended Cancelled
    \<and> handle_request example_net 9 [] (replicate 24 NUL) msg example_cancel_server = Inr (example_cancel_server, [], [p])
    \<and> pk_addr p = ''n2'' \<and> cancel_job_request (Some (pk_data p)) (replicate 2000 NUL) = Inr (buf', [Cancel_Thread])"
proof -
  let ?w = "\<lambda>n. \<lparr>ua_select = Some \<lparr>error_t = False, write_t = True, read_t = False\<rparr>, ua_send = n, ua_recv = Received []\<rparr>"
  let ?s = example_cancel_server
  have b: "length (replicate 24 NUL) = HEAD_BYTES" "length (replicate 2000 NUL) = MSG_BUFF_SIZE" by simp_all
  have ok: "server_ok ?s" using example_facts(1) by (simp add: server_ok_def example_cancel_server_def)
  have n: "num_hosts ?s = int 2" "(2::nat) \<le> 4" "is_int32 7" "is_int32 (local_id ?s)" "\<forall>p. os_sendto example_net p \<noteq> -1"
    using example_facts(2,3) by (simp_all add: example_cancel_server_def is_int32_def example_net_def)
  have a: "\<forall>k. 1 \<le> k \<and> k \<le> 2 \<longrightarrow> node_addr example_net ?s (int k) (example_names k)"
    using example_facts(4) by (simp add: node_addr_def host_addr_def example_cancel_server_def)
  have f: "filter (\<lambda>k. nodesstat ?s ! k = 7) [1..<Suc 2] = [2]" by (simp add: upt_rec example_cancel_server_def)
  have w: "reports [?w 0, ?w 2000] = ?w 0 # ?w 2000 # [] \<and> ready_write (?w 0) \<and> ready_write (?w 2000)
      \<and> ua_send (?w 2000) = int MSG_BUFF_SIZE" by (simp add: reports_def ready_write_def)
  from cancel_session [OF example_client_facts(1,2) b b ok n(1-3) example_client_facts(3) n(4) a n(5), of 9 "[]"]
  obtain msg ps where r: "\<forall>answers w1 w2 rest. reports answers = w1 # w2 # rest \<and> ready_write w1 \<and> ready_write w2
        \<and> ua_send w2 = int MSG_BUFF_SIZE \<longrightarrow> (\<exists>x. client_cancel_job example_client (replicate 24 NUL) (replicate 2000 NUL) 7 True answers
          = Inr x \<and> x_wire x = msg \<and> x_phase x = Ended Cancelled)"
    "handle_request example_net 9 [] (replicate 24 NUL) msg ?s = Inr (?s, [], ps)"
    "list_all2 (\<lambda>k p. pk_addr p = example_names k \<and> pk_port p = UDP_CANCEL_JOB_SRV_PORT_NUMBER
        \<and> (\<exists>buf'. cancel_job_request (Some (pk_data p)) (replicate 2000 NUL) = Inr (buf', [Cancel_Thread]))) [2] ps"
    unfolding f by blast
  from r(1) w obtain x where "client_cancel_job example_client (replicate 24 NUL) (replicate 2000 NUL) 7 True [?w 0, ?w 2000] = Inr x"
    "x_wire x = msg" "x_phase x = Ended Cancelled" by blast
  moreover from r(3) obtain p buf' where "ps = [p]" "pk_addr p = ''n2''"
    "cancel_job_request (Some (pk_data p)) (replicate 2000 NUL) = Inr (buf', [Cancel_Thread])"
    by (auto simp: list_all2_Cons1 example_names_def)
  ultimately show ?thesis using r(2) by blast
qed

end
