(* ===== verification/Job_Node.thy ===== *)
theory Job_Node
  imports Job_Cancel
begin

text \<open>
  A node while a job runs (\<^verbatim>\<open>libjobq.c\<close>): the thread of \<^verbatim>\<open>deal_interactive_job_request\<close>, the thread of
  \<^verbatim>\<open>cancel_job_request\<close> and the thread \<^verbatim>\<open>execl_thread\<close> that the first creates for each job and waits
  for, as one machine whose steps interleave. They share \<^verbatim>\<open>job_thread_id\<close>, without a lock.
\<close>

section \<open>The two threads and the thread they share\<close>

text \<open>
  Where \<^verbatim>\<open>execl_thread\<close> stands, and where the thread that started it: waiting for a datagram, between the
  creation of the thread for a job and the assignment of its id to \<^verbatim>\<open>job_thread_id\<close>, or in \<^verbatim>\<open>pthread_join\<close>.
\<close>

datatype exec_pc =
    Exec_Begin string
  | Exec_Sleeping string
  | Exec_Fork string
  | Exec_Printing
  | Exec_Ended

datatype node_pc =
    Node_Recv
  | Node_Created int
  | Node_Joining int

text \<open>
  Threads are numbered in the order of their creation: \<open>nd_tid\<close> is the latest one, \<open>nd_pending\<close> whether
  its cancellation was asked for. \<open>nd_taken\<close> and \<open>nd_reported\<close> are history: the jobs
  for which a thread was created, and those reported.
\<close>

record node =
  nd_pc :: node_pc
  nd_buf :: "char list"
  nd_exec :: exec_pc
  nd_tid :: nat
  nd_job_thread_id :: nat
  nd_pending :: bool
  nd_cancel_buf :: "char list"
  nd_actions :: "node_action list"
  nd_taken :: "int list"
  nd_reported :: "int list"

text \<open>
  A cancellation takes effect in a call that is a cancellation point: the output of the thread may be one, \<^verbatim>\<open>sleep\<close>
  is, \<^verbatim>\<open>fork\<close> is none. What \<^verbatim>\<open>pthread_cancel\<close> does with the id of a thread that was joined, or with the initial
  value of \<^verbatim>\<open>job_thread_id\<close>, is undefined in C; here it has no effect on the latest thread. \<^verbatim>\<open>msg_init\<close> is left
  out, as in \<^verbatim>\<open>execl_thread\<close>, and the pass ends the process when \<^verbatim>\<open>pthread_create\<close> fails, which is no step.
\<close>

inductive node_step :: "net_os \<Rightarrow> server \<Rightarrow> node \<Rightarrow> node \<Rightarrow> bool" for os s where
  request_ignored:
    "nd_pc n = Node_Recv \<Longrightarrow> read_request dgram (nd_buf n) = Inr (rb, None) \<Longrightarrow> node_step os s n (n\<lparr>nd_buf := rb\<rparr>)"
| request_taken:
    "nd_pc n = Node_Recv \<Longrightarrow> read_request dgram (nd_buf n) = Inr (rb, Some (jid, comm)) \<Longrightarrow>
     node_step os s n (n\<lparr>nd_buf := rb, nd_pc := Node_Created jid, nd_exec := Exec_Begin comm, nd_tid := nd_tid n + 1,
       nd_pending := False, nd_taken := nd_taken n @ [jid]\<rparr>)"
| thread_published:
    "nd_pc n = Node_Created jid \<Longrightarrow> node_step os s n (n\<lparr>nd_pc := Node_Joining jid, nd_job_thread_id := nd_tid n\<rparr>)"
| thread_begins:
    "nd_exec n = Exec_Begin comm \<Longrightarrow>
     node_step os s n (n\<lparr>nd_exec := (if comm = ''sleep'' then Exec_Sleeping comm else Exec_Fork comm)\<rparr>)"
| thread_wakes:
    "nd_exec n = Exec_Sleeping comm \<Longrightarrow> \<not> nd_pending n \<Longrightarrow>
     node_step os s n (n\<lparr>nd_exec := Exec_Fork comm, nd_actions := nd_actions n @ [Sleep_Builtin]\<rparr>)"
| thread_forks:
    "nd_exec n = Exec_Fork comm \<Longrightarrow>
     node_step os s n (n\<lparr>nd_exec := Exec_Printing, nd_actions := nd_actions n @ (if forked then [Fork_Exec comm] else [])\<rparr>)"
| thread_ends:
    "nd_exec n = Exec_Printing \<Longrightarrow> node_step os s n (n\<lparr>nd_exec := Exec_Ended\<rparr>)"
| thread_cancelled:
    "nd_pending n \<Longrightarrow> \<forall>comm. nd_exec n \<noteq> Exec_Fork comm \<Longrightarrow> node_step os s n (n\<lparr>nd_exec := Exec_Ended\<rparr>)"
| cancel_arrives:
    "cancel_job_request dgram (nd_cancel_buf n) = Inr (cb, acts) \<Longrightarrow>
     node_step os s n (n\<lparr>nd_cancel_buf := cb, nd_actions := nd_actions n @ acts,
       nd_pending := nd_pending n \<or> (nd_job_thread_id n = nd_tid n \<and> nd_exec n \<noteq> Exec_Ended)\<rparr>)"
| job_reported:
    "nd_pc n = Node_Joining jid \<Longrightarrow> nd_exec n = Exec_Ended \<Longrightarrow> node_reports os s junk jid = Inr ps \<Longrightarrow>
     node_step os s n (n\<lparr>nd_pc := Node_Recv, nd_actions := nd_actions n @ map Send ps, nd_reported := nd_reported n @ [jid]\<rparr>)"

definition node_start :: "node \<Rightarrow> bool" where
  "node_start n \<longleftrightarrow> nd_pc n = Node_Recv \<and> nd_exec n = Exec_Ended \<and> nd_tid n = 0 \<and> nd_job_thread_id n = 0 \<and> \<not> nd_pending n
     \<and> nd_actions n = [] \<and> nd_taken n = [] \<and> nd_reported n = []"

section \<open>The undisturbed node\<close>

text \<open>The thread alone, from its start to its end.\<close>

lemma thread_runs:
  assumes "nd_exec n = Exec_Begin comm" and "\<not> nd_pending n"
  shows "(node_step os s)\<^sup>*\<^sup>* n (n\<lparr>nd_exec := Exec_Ended, nd_actions := nd_actions n @ execl_thread forked comm\<rparr>)"
proof -
  let ?R = "node_step os s"
  let ?b = "n\<lparr>nd_exec := (if comm = ''sleep'' then Exec_Sleeping comm else Exec_Fork comm)\<rparr>"
  let ?f = "n\<lparr>nd_exec := Exec_Fork comm, nd_actions := nd_actions n @ (if comm = ''sleep'' then [Sleep_Builtin] else [])\<rparr>"
  let ?p = "?f\<lparr>nd_exec := Exec_Printing, nd_actions := nd_actions ?f @ (if forked then [Fork_Exec comm] else [])\<rparr>"
  have "?R\<^sup>*\<^sup>* ?b ?f"
  proof (cases "comm = ''sleep''")
    case True
    have "?R ?b (?b\<lparr>nd_exec := Exec_Fork comm, nd_actions := nd_actions ?b @ [Sleep_Builtin]\<rparr>)"
      by (rule thread_wakes) (simp_all add: True assms(2))
    with True show ?thesis by auto
  qed auto
  moreover have "?R n ?b" by (rule thread_begins [OF assms(1)])
  moreover have "?R ?f ?p" by (rule thread_forks) simp
  moreover have "?R ?p (?p\<lparr>nd_exec := Exec_Ended\<rparr>)" by (rule thread_ends) simp
  ultimately have "?R\<^sup>*\<^sup>* n (?p\<lparr>nd_exec := Exec_Ended\<rparr>)"
    by (meson converse_rtranclp_into_rtranclp rtranclp.rtrancl_into_rtrancl)
  moreover have "?p\<lparr>nd_exec := Exec_Ended\<rparr> = n\<lparr>nd_exec := Exec_Ended, nd_actions := nd_actions n @ execl_thread forked comm\<rparr>"
    by (simp add: execl_thread_def)
  ultimately show ?thesis by (simp only:)
qed

text \<open>A pass without a cancellation is a run of the machine, with the actions of the pass.\<close>

lemma undisturbed_pass:
  assumes "nd_pc n = Node_Recv" and "deal_interactive_job_request os dgram True forked junk (nd_buf n) s = Inr (rb, acts)"
  shows "\<exists>n'. (node_step os s)\<^sup>*\<^sup>* n n' \<and> nd_pc n' = Node_Recv \<and> nd_buf n' = rb \<and> nd_actions n' = nd_actions n @ acts"
proof -
  from assms(2) obtain r where r: "read_request dgram (nd_buf n) = Inr (rb, r)"
    and rest: "(case r of None \<Rightarrow> Inr (rb, []) | Some (jid, comm) \<Rightarrow>
      bindE (node_reports os s junk jid) (\<lambda>ps. Inr (rb, execl_thread forked comm @ map Send ps))) = Inr (rb, acts)"
    by (auto simp: deal_interactive_job_request_def bindE_Inr_iff split: option.splits)
  show ?thesis
  proof (cases r)
    case None
    then have "node_step os s n (n\<lparr>nd_buf := rb\<rparr>)" using assms(1) r by (auto intro: request_ignored)
    with None rest assms(1) show ?thesis by (intro exI [of _ "n\<lparr>nd_buf := rb\<rparr>"]) auto
  next
    case (Some p)
    obtain jid comm where p: "p = (jid, comm)" by (cases p)
    with Some rest obtain ps where ps: "node_reports os s junk jid = Inr ps" "acts = execl_thread forked comm @ map Send ps"
      by (auto simp: bindE_Inr_iff)
    let ?R = "node_step os s"
    let ?t = "n\<lparr>nd_buf := rb, nd_pc := Node_Created jid, nd_exec := Exec_Begin comm, nd_tid := nd_tid n + 1,
       nd_pending := False, nd_taken := nd_taken n @ [jid]\<rparr>"
    let ?j = "?t\<lparr>nd_pc := Node_Joining jid, nd_job_thread_id := nd_tid ?t\<rparr>"
    let ?e = "?j\<lparr>nd_exec := Exec_Ended, nd_actions := nd_actions ?j @ execl_thread forked comm\<rparr>"
    let ?n = "?e\<lparr>nd_pc := Node_Recv, nd_actions := nd_actions ?e @ map Send ps, nd_reported := nd_reported n @ [jid]\<rparr>"
    have "?R n ?t" using assms(1) r Some p by (intro request_taken) auto
    moreover have "?R ?t ?j" by (rule thread_published) simp
    moreover have "?R\<^sup>*\<^sup>* ?j ?e" by (rule thread_runs) simp_all
    moreover have "?R ?e ?n" using job_reported [of ?e jid os s junk ps] ps(1) by simp
    ultimately have "?R\<^sup>*\<^sup>* n ?n" by (meson converse_rtranclp_into_rtranclp rtranclp.rtrancl_into_rtrancl)
    with ps(2) show ?thesis by (intro exI [of _ ?n]) simp
  qed
qed

section \<open>Every job is reported\<close>

text \<open>The job that is taken and not reported, and the programs started.\<close>

definition current_job :: "node \<Rightarrow> int list" where
  "current_job n = (case nd_pc n of Node_Recv \<Rightarrow> [] | Node_Created jid \<Rightarrow> [jid] | Node_Joining jid \<Rightarrow> [jid])"

definition is_fork :: "node_action \<Rightarrow> bool" where
  "is_fork a \<longleftrightarrow> (\<exists>comm. a = Fork_Exec comm)"

definition programs :: "node \<Rightarrow> nat" where
  "programs n = length (filter is_fork (nd_actions n))"

definition before_fork :: "exec_pc \<Rightarrow> bool" where
  "before_fork e \<longleftrightarrow> e \<noteq> Exec_Printing \<and> e \<noteq> Exec_Ended"

definition node_inv :: "node \<Rightarrow> bool" where
  "node_inv n \<longleftrightarrow> nd_taken n = nd_reported n @ current_job n \<and> nd_tid n = length (nd_taken n) \<and> nd_job_thread_id n \<le> nd_tid n
     \<and> (nd_pc n = Node_Recv \<longrightarrow> nd_exec n = Exec_Ended)
     \<and> (\<forall>jid. nd_pc n = Node_Created jid \<longrightarrow> nd_job_thread_id n < nd_tid n \<and> \<not> nd_pending n)
     \<and> programs n + (if before_fork (nd_exec n) then 1 else 0) \<le> length (nd_taken n)"

lemma cancel_actions: "cancel_job_request dgram b = Inr (cb, acts) \<Longrightarrow> acts = [Cancel_Thread]"
  by (auto simp: cancel_job_request_def bindE_Inr_iff split: if_splits)

lemma programs_more:
  "programs (n\<lparr>nd_actions := nd_actions n @ [Cancel_Thread]\<rparr>) = programs n"
  "programs (n\<lparr>nd_actions := nd_actions n @ map Send ps\<rparr>) = programs n"
  by (induction ps) (simp_all add: programs_def is_fork_def)

lemma node_inv_step:
  assumes inv: "node_inv n" and step: "node_step os s n n'"
  shows "node_inv n'"
  using step
proof cases
  case (cancel_arrives dgram cb acts)
  then have "acts = [Cancel_Thread]" by (blast dest: cancel_actions)
  with inv cancel_arrives show ?thesis by (auto simp: node_inv_def current_job_def programs_def is_fork_def)
next
  case (job_reported jid junk ps)
  have "filter is_fork (map Send ps) = []" by (induction ps) (simp_all add: is_fork_def)
  with inv job_reported show ?thesis by (auto simp: node_inv_def current_job_def programs_def before_fork_def)
qed (use inv in \<open>auto simp: node_inv_def current_job_def programs_def before_fork_def is_fork_def split: node_pc.splits\<close>)

lemma node_inv_start: "node_start n \<Longrightarrow> node_inv n"
  by (simp add: node_start_def node_inv_def current_job_def programs_def before_fork_def)

interpretation node_machine: invariant_system node_start "node_step os s" node_inv
  by unfold_locales (erule node_inv_start, erule (1) node_inv_step)

text \<open>A node on which nothing has run, and the packet of a job \<^verbatim>\<open>sleep\<close> with the id 7.\<close>

definition idle_node :: node where
  "idle_node = \<lparr>nd_pc = Node_Recv, nd_buf = replicate 2000 NUL, nd_exec = Exec_Ended, nd_tid = 0, nd_job_thread_id = 0,
     nd_pending = False, nd_cancel_buf = replicate 2000 NUL, nd_actions = [], nd_taken = [], nd_reported = []\<rparr>"

definition sleep_packet :: packet where
  "sleep_packet = \<lparr>pk_transport = Udp, pk_addr = ''n1'', pk_port = UDP_INTER_JOB_SRV_PORT_NUMBER,
     pk_data = header 4 1 1 7 6 0 @ ''sleep'' @ [NUL]\<rparr>"

lemma sleep_packet_ok: "job_packet ''n1'' 7 ''sleep'' sleep_packet"
  using get_header [of 4 1 1 7 6 0 "[]"]
  by (auto simp: job_packet_def sleep_packet_def is_int32_def intro!: exI [of _ "header 4 1 1 7 6 0"])

lemma sleep_taken:
  "\<exists>n. reach node_start (node_step os s) n \<and> nd_taken n = [7] \<and> nd_pc n = Node_Joining 7 \<and> nd_exec n = Exec_Sleeping ''sleep''
    \<and> nd_job_thread_id n = nd_tid n \<and> nd_cancel_buf n = replicate 2000 NUL \<and> nd_actions n = [] \<and> nd_reported n = []"
proof -
  have "length ''sleep'' < 1000" "no_nul ''sleep''" "length (replicate 2000 NUL) = MSG_BUFF_SIZE" by (simp_all add: no_nul_def NUL_def)
  from read_request_ok [OF sleep_packet_ok this] obtain rb where
    rb: "read_request (Some (pk_data sleep_packet)) (replicate 2000 NUL) = Inr (rb, Some (7, ''sleep''))" by blast
  let ?R = "reach node_start (node_step os s)"
  let ?n1 = "idle_node\<lparr>nd_buf := rb, nd_pc := Node_Created 7, nd_exec := Exec_Begin ''sleep'', nd_tid := nd_tid idle_node + 1,
    nd_pending := False, nd_taken := nd_taken idle_node @ [7]\<rparr>"
  let ?n2 = "?n1\<lparr>nd_exec := (if ''sleep'' = ''sleep'' then Exec_Sleeping ''sleep'' else Exec_Fork ''sleep'')\<rparr>"
  let ?n3 = "?n2\<lparr>nd_pc := Node_Joining 7, nd_job_thread_id := nd_tid ?n2\<rparr>"
  have "?R idle_node" by (rule reach_init) (simp add: idle_node_def node_start_def)
  moreover have "node_step os s idle_node ?n1" using rb by (intro request_taken) (simp_all add: idle_node_def)
  ultimately have "?R ?n1" by (rule reach_step)
  moreover have "node_step os s ?n1 ?n2" by (rule thread_begins) simp
  ultimately have "?R ?n2" by (rule reach_step)
  moreover have "node_step os s ?n2 ?n3" by (rule thread_published) simp
  ultimately have "?R ?n3" by (rule reach_step)
  then show ?thesis by (intro exI [of _ ?n3]) (simp add: idle_node_def)
qed



section \<open>A job cancelled while it sleeps\<close>

text \<open>The thread is in \<^verbatim>\<open>sleep\<close> with its cancellation asked for, or has ended; or the next job has been taken.\<close>

definition sleeper_inv :: "node \<Rightarrow> node \<Rightarrow> bool" where
  "sleeper_inv n n' \<longleftrightarrow> length (nd_taken n) < length (nd_taken n')
     \<or> nd_taken n' = nd_taken n \<and> programs n' = programs n
       \<and> (nd_exec n' = Exec_Ended \<or> nd_pending n' \<and> (\<exists>comm. nd_exec n' = Exec_Sleeping comm))"

lemma sleeper_inv_step:
  assumes inv: "sleeper_inv n m" and step: "node_step os s m m'"
  shows "sleeper_inv n m'"
  using step
proof cases
  case (cancel_arrives dgram cb acts)
  then have "acts = [Cancel_Thread]" by (blast dest: cancel_actions)
  with inv cancel_arrives show ?thesis by (auto simp: sleeper_inv_def programs_def is_fork_def)
next
  case (job_reported jid junk ps)
  have "filter is_fork (map Send ps) = []" by (induction ps) (simp_all add: is_fork_def)
  with inv job_reported show ?thesis by (auto simp: sleeper_inv_def programs_def)
qed (use inv in \<open>auto simp: sleeper_inv_def programs_def\<close>)

lemma sleeper_inv_steps: "(node_step os s)\<^sup>*\<^sup>* m m' \<Longrightarrow> sleeper_inv n m \<Longrightarrow> sleeper_inv n m'"
  by (induction rule: rtranclp_induct) (blast dest: sleeper_inv_step)+

text \<open>
  C22. Cancelling a sleeping job: once a cancellation has arrived, whatever job it names, the program of the job is
  not started any more, in any interleaving; the node still reports the job, as finished and not as cancelled, then
  itself as free, and takes requests again.
\<close>

theorem cancelled_job_reported:
  assumes n: "nd_pc n = Node_Joining jid" "nd_exec n = Exec_Sleeping comm" "nd_job_thread_id n = nd_tid n"
    and cancel: "cancel_packet addr other p" "length (nd_cancel_buf n) = MSG_BUFF_SIZE"
    and node: "host_addr os s 1 a" "sendto_ok os" "is_int32 (local_id s)" and jid: "is_int32 jid"
  shows "\<exists>cb n1. cancel_job_request (Some (pk_data p)) (nd_cancel_buf n) = Inr (cb, [Cancel_Thread])
    \<and> n1 = n\<lparr>nd_cancel_buf := cb, nd_actions := nd_actions n @ [Cancel_Thread], nd_pending := True\<rparr> \<and> node_step os s n n1
    \<and> (\<forall>n'. (node_step os s)\<^sup>*\<^sup>* n1 n' \<and> nd_taken n' = nd_taken n \<longrightarrow> programs n' = programs n)
    \<and> (\<exists>n' q1 q2. (node_step os s)\<^sup>*\<^sup>* n1 n' \<and> nd_pc n' = Node_Recv \<and> nd_taken n' = nd_taken n
        \<and> nd_reported n' = nd_reported n @ [jid] \<and> nd_actions n' = nd_actions n @ [Cancel_Thread, Send q1, Send q2]
        \<and> report_packet MSG_TYPE_JOB_RETURN UDP_JOB_RELT_SRV_PORT_NUMBER (local_id s) jid JOB_STAT_FINISHED q1
        \<and> report_packet MSG_TYPE_HOST UDP_HOST_STAT_SRV_PORT_NUMBER (local_id s) (local_id s) HOST_STAT_FREE q2)"
proof -
  from node_cancels [OF cancel] obtain cb where
    cb: "cancel_job_request (Some (pk_data p)) (nd_cancel_buf n) = Inr (cb, [Cancel_Thread])" by blast
  let ?n1 = "n\<lparr>nd_cancel_buf := cb, nd_actions := nd_actions n @ [Cancel_Thread], nd_pending := True\<rparr>"
  have s1: "node_step os s n ?n1" using cancel_arrives [OF cb, of os s] n by simp
  have prog: "programs ?n1 = programs n" by (simp add: programs_def is_fork_def)
  then have "sleeper_inv ?n1 ?n1" using n by (simp add: sleeper_inv_def)
  then have safe: "\<forall>n'. (node_step os s)\<^sup>*\<^sup>* ?n1 n' \<and> nd_taken n' = nd_taken n \<longrightarrow> programs n' = programs n"
    using prog by (auto dest!: sleeper_inv_steps simp: sleeper_inv_def)
  obtain q1 q2 where q: "node_reports os s (replicate HEAD_BYTES NUL) jid = Inr [q1, q2]"
    "report_packet MSG_TYPE_JOB_RETURN UDP_JOB_RELT_SRV_PORT_NUMBER (local_id s) jid JOB_STAT_FINISHED q1"
    "report_packet MSG_TYPE_HOST UDP_HOST_STAT_SRV_PORT_NUMBER (local_id s) (local_id s) HOST_STAT_FREE q2"
    using node_reports_ok [OF node jid, of "replicate HEAD_BYTES NUL"] by auto
  let ?n2 = "?n1\<lparr>nd_exec := Exec_Ended\<rparr>"
  let ?n3 = "?n2\<lparr>nd_pc := Node_Recv, nd_actions := nd_actions ?n2 @ map Send [q1, q2], nd_reported := nd_reported ?n2 @ [jid]\<rparr>"
  have "node_step os s ?n1 ?n2" using n by (intro thread_cancelled) simp_all
  moreover have "node_step os s ?n2 ?n3" using n by (intro job_reported [OF _ _ q(1)]) simp_all
  ultimately have "(node_step os s)\<^sup>*\<^sup>* ?n1 ?n3" by (meson rtranclp.rtrancl_into_rtrancl r_into_rtranclp)
  then have "\<exists>n' q1 q2. (node_step os s)\<^sup>*\<^sup>* ?n1 n' \<and> nd_pc n' = Node_Recv \<and> nd_taken n' = nd_taken n
        \<and> nd_reported n' = nd_reported n @ [jid] \<and> nd_actions n' = nd_actions n @ [Cancel_Thread, Send q1, Send q2]
        \<and> report_packet MSG_TYPE_JOB_RETURN UDP_JOB_RELT_SRV_PORT_NUMBER (local_id s) jid JOB_STAT_FINISHED q1
        \<and> report_packet MSG_TYPE_HOST UDP_HOST_STAT_SRV_PORT_NUMBER (local_id s) (local_id s) HOST_STAT_FREE q2"
    using q(2,3) by (intro exI [of _ ?n3] exI [of _ q1] exI [of _ q2]) simp
  then show ?thesis using cb s1 safe by blast
qed

lemma cancelled_job_reported_witness:
  "\<exists>n n' q1 q2. reach node_start (node_step example_net example_server) n \<and> nd_exec n = Exec_Sleeping ''sleep''
    \<and> (node_step example_net example_server)\<^sup>*\<^sup>* n n' \<and> nd_reported n' = [7] \<and> nd_actions n' = [Cancel_Thread, Send q1, Send q2]
    \<and> get_int (pk_data q1) 4 = Inr JOB_STAT_FINISHED"
proof -
  let ?p = "\<lparr>pk_transport = Udp, pk_addr = ''n1'', pk_port = UDP_CANCEL_JOB_SRV_PORT_NUMBER, pk_data = header 5 1 1 9 0 0\<rparr>"
  obtain n where n: "reach node_start (node_step example_net example_server) n" "nd_pc n = Node_Joining 7"
    "nd_exec n = Exec_Sleeping ''sleep''" "nd_job_thread_id n = nd_tid n" "nd_cancel_buf n = replicate 2000 NUL"
    "nd_actions n = []" "nd_reported n = []" using sleep_taken [of example_net example_server] by blast
  have p: "cancel_packet ''n1'' 9 ?p" "length (nd_cancel_buf n) = MSG_BUFF_SIZE"
    using get_header [of 5 1 1 9 0 0 "[]"] n(5) by (simp_all add: cancel_packet_def is_int32_def)
  have a: "host_addr example_net example_server 1 ''n1''" "is_int32 7"
    using example_facts(4) [rule_format, of 1] by (simp_all add: example_names_def is_int32_def)
  from cancelled_job_reported [OF n(2-4) p a(1) example_facts(5,3) a(2)] obtain n1 n' q1 q2 where
    "node_step example_net example_server n n1" "(node_step example_net example_server)\<^sup>*\<^sup>* n1 n'" "nd_reported n' = [7]"
    "nd_actions n' = [Cancel_Thread, Send q1, Send q2]"
    "report_packet MSG_TYPE_JOB_RETURN UDP_JOB_RELT_SRV_PORT_NUMBER (local_id example_server) 7 JOB_STAT_FINISHED q1"
    using n(6,7) by auto
  with n(1,3) show ?thesis by (auto simp: report_packet_def intro: converse_rtranclp_into_rtranclp)
qed

end
