(* ===== verification/Report_Race.thy ===== *)
theory Report_Race
  imports Job_Dispatch
begin

text \<open>
  Reports that overtake the dispatch. \<^verbatim>\<open>job_queue_pop\<close> writes \<^verbatim>\<open>jobnodes[job_id]\<close> after it has sent
  the job to its nodes, without a lock, while \<^verbatim>\<open>job_queue_result_1\<close> counts the reports down in the same entry
  (\<^verbatim>\<open>libjobq.c\<close>). The two threads are run step by step in every order.
\<close>

section \<open>The two threads interleaved\<close>

text \<open>A step of the pop thread, or the report that job \<open>J\<close> is finished on host \<open>k\<close>.\<close>

datatype race_event = Pop_Moves | Report_From nat

fun race_step ::
  "net_os \<Rightarrow> (nat \<Rightarrow> char list) \<Rightarrow> int \<Rightarrow> nat \<Rightarrow> race_event \<Rightarrow> server \<times> popper \<Rightarrow> (server \<times> popper) res" where
  "race_step os malloc now J Pop_Moves (s, p) =
     bindE (pop_step os malloc now s p) (\<lambda>(s, p, sent). Inr (s, p))"
| "race_step os malloc now J (Report_From k) (s, p) =
     bindE (take_result now (finished_message J k []) s) (\<lambda>s. Inr (s, p))"

definition race_run ::
  "net_os \<Rightarrow> (nat \<Rightarrow> char list) \<Rightarrow> int \<Rightarrow> nat \<Rightarrow> race_event list \<Rightarrow> server \<times> popper \<Rightarrow> (server \<times> popper) res" where
  "race_run os malloc now J evs = forE evs (race_step os malloc now J)"

lemma race_run_simps [simp]:
  "race_run os malloc now J [] x = Inr x"
  "race_run os malloc now J (e # evs) x = bindE (race_step os malloc now J e x) (race_run os malloc now J evs)"
  by (simp_all add: race_run_def)

lemma race_run_append: "race_run os malloc now J (es @ fs) x = bindE (race_run os malloc now J es x) (race_run os malloc now J fs)"
  by (induction es arbitrary: x) (auto simp: bindE_def split: sum.splits)

lemma race_run_reports:
  "race_run os malloc now J (map Report_From ks) (s, p) = bindE (take_reports now J ks s) (\<lambda>s. Inr (s, p))"
  by (induction ks arbitrary: s) (simp_all add: take_reports_def bindE_assoc)

text \<open>The steps of the pop thread and the hosts that report.\<close>

fun moves :: "race_event list \<Rightarrow> nat" where
  "moves [] = 0"
| "moves (Pop_Moves # evs) = Suc (moves evs)"
| "moves (Report_From k # evs) = moves evs"

fun reporters :: "race_event list \<Rightarrow> nat list" where
  "reporters [] = []"
| "reporters (Pop_Moves # evs) = reporters evs"
| "reporters (Report_From k # evs) = k # reporters evs"

text \<open>What both threads need of the shared state: tables in shape and hosts that resolve.\<close>

definition hosts_known :: "net_os \<Rightarrow> nat \<Rightarrow> (nat \<Rightarrow> string) \<Rightarrow> server \<Rightarrow> bool" where
  "hosts_known os n addr s \<longleftrightarrow> server_ok s \<and> num_hosts s = int n \<and> n \<le> 4 \<and> is_int32 (local_id s)
     \<and> (\<forall>k. 1 \<le> k \<and> k \<le> n \<longrightarrow> host_addr os s (int k) (addr k))"

section \<open>Before the number of nodes is recorded\<close>

lemma assign_step:
  assumes hosts: "hosts_known os n addr s" and os: "sendto_ok os" "malloc_ok malloc"
    and comm: "cstrE command 0 = Inr comm" "length comm < 1000" and J: "J < 32"
  shows "\<exists>s' sent. assign_node os malloc command (int J) s = Inr (s', sent) \<and> hosts_known os n addr s'
    \<and> jobnodes s' = jobnodes s \<and> jobq s' = jobq s"
proof -
  have h: "server_ok s" "num_hosts s = int n" "n \<le> 4" "is_int32 (local_id s)"
    "\<forall>k. 1 \<le> k \<and> k \<le> n \<longrightarrow> host_addr os s (int k) (addr k)" using hosts by (simp_all add: hosts_known_def)
  have i: "is_int32 (int J)" using J by (simp add: is_int32_def)
  note a = assign_node_ok [OF h(1-3,5) os comm i h(4)]
  show ?thesis
  proof (cases "free_list s n")
    case Nil
    then show ?thesis using a hosts by simp
  next
    case (Cons k ks)
    let ?s = "s\<lparr>nodesstat := (nodesstat s)[k := int J], pcstat := (pcstat s)[k := HOST_STAT_BUSY]\<rparr>"
    obtain q where "assign_node os malloc command (int J) s = Inr (?s, [q])" using a Cons by auto
    moreover have "hosts_known os n addr ?s" using h by (simp add: hosts_known_def server_ok_def host_addr_def)
    ultimately show ?thesis by (intro exI [of _ ?s] exI [of _ "[q]"]) simp
  qed
qed

text \<open>A report that is counted before anything was recorded finishes nothing.\<close>

lemma early_report:
  assumes hosts: "hosts_known os n addr s" and J: "J < 32" and k: "k < 5" and jn: "jobnodes s ! J \<le> 0"
  shows "\<exists>s'. take_result now (finished_message J k []) s = Inr s' \<and> hosts_known os n addr s'
    \<and> jobnodes s' ! J = jobnodes s ! J - 1 \<and> jobq s' = jobq s"
proof -
  have ok: "server_ok s" using hosts by (simp add: hosts_known_def)
  let ?s = "s\<lparr>pcstat := (pcstat s)[k := HOST_STAT_FREE], jobnodes := (jobnodes s)[J := jobnodes s ! J - 1]\<rparr>"
  have "take_result now (finished_message J k []) s = Inr ?s" using take_result_finished [OF ok J k, of now "[]"] jn by simp
  moreover have "hosts_known os n addr ?s" using hosts by (simp add: hosts_known_def server_ok_def host_addr_def)
  moreover have "jobnodes ?s ! J = jobnodes s ! J - 1" using server_okD(2) [OF ok] J by simp
  ultimately show ?thesis by (intro exI [of _ ?s]) simp
qed

text \<open>Where the pop thread stands when \<open>d\<close> nodes are still to be chosen.\<close>

definition nodes_left :: "taken_job \<Rightarrow> nat \<Rightarrow> popper \<Rightarrow> bool" where
  "nodes_left t d p \<longleftrightarrow> pp_pc p = (case d of 0 \<Rightarrow> Pop_Record t | Suc e \<Rightarrow> Pop_Assign t (tk_nreq t - int e))"

lemma nodes_left_step:
  assumes "nodes_left t (Suc d) p" and "hosts_known os n addr s" and "sendto_ok os" "malloc_ok malloc"
    and "cstrE (pp_pcomm p) 0 = Inr comm" "length comm < 1000" and "J < 32" and "tk_job_id t = int J"
  shows "\<exists>s' p'. race_step os malloc now J Pop_Moves (s, p) = Inr (s', p') \<and> hosts_known os n addr s' \<and> jobnodes s' = jobnodes s
    \<and> jobq s' = jobq s \<and> nodes_left t d p' \<and> pp_pcomm p' = pp_pcomm p \<and> p'\<lparr>pp_pc := c\<rparr> = p\<lparr>pp_pc := c\<rparr>"
proof -
  from assign_step [OF assms(2-7)] obtain s' sent where
    a: "assign_node os malloc (pp_pcomm p) (int J) s = Inr (s', sent)" "hosts_known os n addr s'" "jobnodes s' = jobnodes s"
      "jobq s' = jobq s" by blast
  let ?i = "tk_nreq t - int d"
  let ?p = "p\<lparr>pp_pc := (if ?i < tk_nreq t then Pop_Assign t (?i + 1) else Pop_Record t)\<rparr>"
  have "race_step os malloc now J Pop_Moves (s, p) = Inr (s', ?p)"
    using assms(1,8) a(1) by (simp add: pop_step_def nodes_left_def)
  moreover have "nodes_left t d ?p" by (cases d) (simp_all add: nodes_left_def)
  ultimately show ?thesis using a(2-4) by (intro exI [of _ s'] exI [of _ ?p]) simp
qed

lemma before_the_record:
  assumes "nodes_left t (moves evs) p" and "hosts_known os n addr s" and os: "sendto_ok os" "malloc_ok malloc"
    and "cstrE (pp_pcomm p) 0 = Inr comm" and len: "length comm < 1000" and J: "J < 32" "tk_job_id t = int J"
    and "\<forall>k \<in> set (reporters evs). k < 5" and "jobnodes s ! J \<le> 0"
  shows "\<exists>s'. race_run os malloc now J evs (s, p) = Inr (s', p\<lparr>pp_pc := Pop_Record t\<rparr>) \<and> hosts_known os n addr s'
    \<and> jobnodes s' ! J = jobnodes s ! J - int (length (reporters evs)) \<and> jobq s' = jobq s"
  using assms(1,2,5,9,10)
proof (induction evs arbitrary: s p)
  case Nil
  then show ?case by (simp add: nodes_left_def)
next
  case (Cons e evs)
  show ?case
  proof (cases e)
    case Pop_Moves
    with Cons.prems have l: "nodes_left t (Suc (moves evs)) p" by simp
    from nodes_left_step [OF l Cons.prems(2) os Cons.prems(3) len J, of now "Pop_Record t"] obtain s1 p1 where
      s1: "race_step os malloc now J Pop_Moves (s, p) = Inr (s1, p1)" "hosts_known os n addr s1" "jobnodes s1 = jobnodes s"
        "jobq s1 = jobq s" "nodes_left t (moves evs) p1" "pp_pcomm p1 = pp_pcomm p"
        "p1\<lparr>pp_pc := Pop_Record t\<rparr> = p\<lparr>pp_pc := Pop_Record t\<rparr>" by blast
    from Cons.IH [OF s1(5,2)] s1 Cons.prems Pop_Moves show ?thesis by auto
  next
    case (Report_From k)
    with Cons.prems have k: "k < 5" by simp
    from early_report [OF Cons.prems(2) J(1) k Cons.prems(5), of now] obtain s1 where
      s1: "take_result now (finished_message J k []) s = Inr s1" "hosts_known os n addr s1"
        "jobnodes s1 ! J = jobnodes s ! J - 1" "jobq s1 = jobq s" by blast
    from Cons.IH [of p s1] s1 Cons.prems Report_From show ?thesis by (auto simp: diff_diff_eq)
  qed
qed

section \<open>The lost reports\<close>

text \<open>C7.
  A report that overtakes the dispatch is lost. The pop thread stands before the first of the \<open>r\<close> nodes of a
  job for which nothing is recorded, and from there on the two threads run in any order, until each node's report
  is in: no step faults, and the job ends as finished exactly when not one report came before the pop thread
  wrote \<^verbatim>\<open>jobnodes[job_id]\<close>. Otherwise its state is what it was, running, and the entry keeps waiting for as
  many reports as came early.
\<close>

theorem early_reports_lost:
  assumes hosts: "hosts_known os n addr s" and os: "sendto_ok os" "malloc_ok malloc"
    and comm: "cstrE (pp_pcomm p) 0 = Inr comm" "length comm < 1000"
    and t: "pp_pc p = Pop_Assign t 1" "tk_job_id t = int J" "J < 32" "tk_nreq t = int r" "1 \<le> r"
    and none: "jobnodes s ! J = 0" and early: "moves early = r" and hs: "\<forall>k \<in> set (reporters early @ late). k < 5"
    and all: "length (reporters early) + length late = r"
  shows "\<exists>s'. race_run os malloc now J (early @ [Pop_Moves] @ map Report_From late) (s, p) = Inr (s', p\<lparr>pp_pc := Pop_Poll\<rparr>)
    \<and> job_stat (jobq s' ! J) = (if reporters early = [] then JOB_STAT_FINISHED else job_stat (jobq s ! J))
    \<and> jobnodes s' ! J = int (length (reporters early))"
proof -
  obtain d where d: "r = Suc d" using t(5) by (cases r) auto
  have l: "nodes_left t (moves early) p" using early d t(1,4) by (simp add: nodes_left_def)
  have e5: "\<forall>k \<in> set (reporters early). k < 5" and l5: "\<forall>k \<in> set late. k < 5" using hs by auto
  from before_the_record [OF l hosts os comm t(3,2) e5, of now] none obtain s1 where
    s1: "race_run os malloc now J early (s, p) = Inr (s1, p\<lparr>pp_pc := Pop_Record t\<rparr>)" "hosts_known os n addr s1" "jobq s1 = jobq s"
    by auto
  let ?s2 = "s1\<lparr>jobnodes := (jobnodes s1)[J := int r]\<rparr>"
  have ok: "server_ok s1" using s1(2) by (simp add: hosts_known_def)
  have ok2: "server_ok ?s2" by (rule server_ok_tables(1) [OF ok])
  have rec: "race_step os malloc now J Pop_Moves (s1, p\<lparr>pp_pc := Pop_Record t\<rparr>) = Inr (?s2, p\<lparr>pp_pc := Pop_Poll\<rparr>)"
    using server_okD(2) [OF ok] t(2-4) by (simp add: pop_step_def)
  have jn: "jobnodes ?s2 ! J = int r" using server_okD(2) [OF ok] t(3) by simp
  have le: "length late \<le> r" using all by simp
  from reports_taken [OF ok2 t(3) l5 jn le, of now] obtain s3 where
    s3: "take_reports now J late ?s2 = Inr s3" "jobnodes s3 ! J = int (r - length late)"
      "job_stat (jobq s3 ! J) = (if length late = r \<and> 0 < r then JOB_STAT_FINISHED else job_stat (jobq ?s2 ! J))" by blast
  have "race_run os malloc now J (early @ [Pop_Moves] @ map Report_From late) (s, p) = Inr (s3, p\<lparr>pp_pc := Pop_Poll\<rparr>)"
    by (simp add: race_run_append s1(1) rec race_run_reports s3(1) del: race_step.simps)
  moreover have "(length late = r) = (reporters early = [])" "r - length late = length (reporters early)" using all by auto
  ultimately show ?thesis using s3(2,3) s1(3) t(5) by (intro exI [of _ s3]) simp
qed

lemma early_reports_lost_witness:
  "\<exists>s'. race_run example_net (\<lambda>n. replicate n NUL) 9 3 ([Pop_Moves, Report_From 1, Pop_Moves] @ [Pop_Moves] @ map Report_From [2])
      (example_server, \<lparr>pp_pc = Pop_Assign \<lparr>tk_slot = 3, tk_job_id = 3, tk_pcomm = [], tk_nreq = 2\<rparr> 1,
                        pp_pcomm = ''date'' @ replicate 28 NUL\<rparr>) =
        Inr (s', \<lparr>pp_pc = Pop_Poll, pp_pcomm = ''date'' @ replicate 28 NUL\<rparr>)
    \<and> job_stat (jobq s' ! 3) = job_stat (jobq example_server ! 3) \<and> jobnodes s' ! 3 = 1"
proof -
  let ?t = "\<lparr>tk_slot = 3, tk_job_id = 3, tk_pcomm = [], tk_nreq = 2\<rparr>"
  let ?p = "\<lparr>pp_pc = Pop_Assign ?t 1, pp_pcomm = ''date'' @ replicate 28 NUL\<rparr>"
  let ?early = "[Pop_Moves, Report_From 1, Pop_Moves]"
  have k: "hosts_known example_net 2 example_names example_server"
    unfolding hosts_known_def using example_facts(1-4) by simp
  have h: "cstrE (pp_pcomm ?p) 0 = Inr ''date''" "length ''date'' < 1000" "pp_pc ?p = Pop_Assign ?t 1" "tk_job_id ?t = int 3"
    "(3::nat) < 32" "tk_nreq ?t = int 2" "(1::nat) \<le> 2" "jobnodes example_server ! 3 = 0" "moves ?early = 2"
    "\<forall>k \<in> set (reporters ?early @ [2]). k < 5" "length (reporters ?early) + length [2::nat] = 2"
    using example_command by (simp_all add: example_server_def zero_server_def)
  from early_reports_lost [OF k example_facts(5,6) h, of 9] show ?thesis by simp
qed

text \<open>
  A host that reports before the next node is chosen is free again and is chosen again: two of the job's
  processes run on it, and another free host gets none.
\<close>

lemma same_host_twice:
  assumes hosts: "hosts_known os n addr s" and os: "sendto_ok os" "malloc_ok malloc"
    and comm: "cstrE command 0 = Inr comm" "length comm < 1000" and J: "J < 32"
    and free: "free_list s n = k # ks" and jn: "jobnodes s ! J \<le> 0"
  shows "\<exists>s1 q1 s2 s3 q2. assign_node os malloc command (int J) s = Inr (s1, [q1]) \<and> job_packet (addr k) (int J) comm q1
    \<and> take_result now (finished_message J k []) s1 = Inr s2
    \<and> assign_node os malloc command (int J) s2 = Inr (s3, [q2]) \<and> job_packet (addr k) (int J) comm q2"
proof -
  have h: "server_ok s" "num_hosts s = int n" "n \<le> 4" "is_int32 (local_id s)"
    "\<forall>k. 1 \<le> k \<and> k \<le> n \<longrightarrow> host_addr os s (int k) (addr k)" using hosts by (simp_all add: hosts_known_def)
  have i: "is_int32 (int J)" using J by (simp add: is_int32_def)
  have k: "k < 5" "pcstat s ! k = HOST_STAT_FREE" "length (pcstat s) = 5"
  proof -
    have "k \<in> set (free_list s n)" using free by simp
    then show "k < 5" "pcstat s ! k = HOST_STAT_FREE" using h(3) by (auto simp: free_list_def)
    show "length (pcstat s) = 5" using server_okD(4) [OF h(1)] by simp
  qed
  let ?s1 = "s\<lparr>nodesstat := (nodesstat s)[k := int J], pcstat := (pcstat s)[k := HOST_STAT_BUSY]\<rparr>"
  from assign_node_ok [OF h(1-3,5) os comm i h(4)] free obtain q1 where
    q1: "assign_node os malloc command (int J) s = Inr (?s1, [q1])" "job_packet (addr k) (int J) comm q1" by auto
  let ?s2 = "?s1\<lparr>pcstat := (pcstat ?s1)[k := HOST_STAT_FREE], jobnodes := (jobnodes ?s1)[J := jobnodes ?s1 ! J - 1]\<rparr>"
  have ok1: "server_ok ?s1" using h(1) by (simp add: server_ok_def)
  have r: "take_result now (finished_message J k []) ?s1 = Inr ?s2"
    using take_result_finished [OF ok1 J k(1), of now "[]"] jn by simp
  have pc: "pcstat ?s2 = pcstat s" using k by (simp add: list_update_same_conv)
  have free2: "free_list ?s2 n = k # ks" using free_list_cong [OF pc] free by simp
  have h2: "server_ok ?s2" "num_hosts ?s2 = int n" "is_int32 (local_id ?s2)"
    "\<forall>k. 1 \<le> k \<and> k \<le> n \<longrightarrow> host_addr os ?s2 (int k) (addr k)" using h by (simp_all add: server_ok_def host_addr_def)
  from assign_node_ok [OF h2(1,2) h(3) h2(4) os comm i h2(3)] free2 obtain s3 q2 where
    "assign_node os malloc command (int J) ?s2 = Inr (s3, [q2])" "job_packet (addr k) (int J) comm q2" by auto
  with q1 r show ?thesis by blast
qed

end
