(* ===== verification/Msg_Service.thy ===== *)
theory Msg_Service
  imports Client_Exchange
begin

text \<open>
  The message service: its start (\<^verbatim>\<open>libmsg.c\<close>), \<^verbatim>\<open>deal_msg_request\<close> (\<^verbatim>\<open>epbssrv.c\<close>), which accepts connections and moves what they
  send into the pipe that \<^verbatim>\<open>msg_recv\<close> reads, and the two senders of \<^verbatim>\<open>libmsg.c\<close> that run on \<^verbatim>\<open>UTransfer\<close>.
\<close>

section \<open>Start of the service\<close>

text \<open>
  \<^verbatim>\<open>msg_configure\<close>: \<open>host_configure\<close>, which fills the tables from the named file, is not in the repository. The
  result is the port and the state.
\<close>

definition NUM_HOSTS :: int where
  "NUM_HOSTS = 2"

definition msg_configure :: "(string \<Rightarrow> server \<Rightarrow> server res) \<Rightarrow> server \<Rightarrow> (int \<times> server) res" where
  "msg_configure host_configure s =
     bindE (host_configure ''hosts'' (s\<lparr>num_hosts := NUM_HOSTS\<rparr>)) (\<lambda>s. Inr (MSG_PORT_NUMBER, s))"

definition msg_init :: "(string \<Rightarrow> server \<Rightarrow> server res) \<Rightarrow> (string \<Rightarrow> string option) \<Rightarrow> server \<Rightarrow> (int \<times> server) res" where
  "msg_init host_configure resolve s =
     bindE (msg_configure host_configure s) (\<lambda>(port, s).
     bindE (if num_hosts s < 1 \<or> local_id s < 1 \<or> local_id s > num_hosts s then Inr False
            else bindE (ptr_cstr (hosts s) (local_id s)) (\<lambda>name. Inr (resolve name \<noteq> None))) (\<lambda>found.
     bindE (msg_check_configure (num_hosts s) (local_id s) found) (\<lambda>_. Inr (port, s))))"

text \<open>A service that starts knows its own machine, and the machine's name resolves.\<close>

lemma msg_init_ready:
  assumes "msg_init host_configure resolve s = Inr (port, s')"
  shows "port = MSG_PORT_NUMBER \<and> 1 \<le> local_id s' \<and> local_id s' \<le> num_hosts s'
    \<and> (\<exists>name a. ptr_cstr (hosts s') (local_id s') = Inr name \<and> resolve name = Some a)"
  using assms by (auto simp: msg_init_def msg_configure_def msg_check_configure_def elim!: bindE_InrE split: if_splits)

section \<open>\<^verbatim>\<open>deal_msg_request\<close>\<close>

text \<open>
  What the system does: whether the socket, \<^verbatim>\<open>bind\<close> and \<^verbatim>\<open>listen\<close> succeed; and for each connection the
  descriptor and what one \<^verbatim>\<open>read\<close> delivers, \<^const>\<open>None\<close> for an error. The list ends with the run that is
  looked at, or with an \<^verbatim>\<open>accept\<close> that fails.
\<close>

record msg_os =
  mg_socket :: bool
  mg_bind :: bool
  mg_listen :: bool
  mg_accept :: "(int \<times> char list option) option list"

text \<open>The connections that are open and what went into the pipe. No connection is closed.\<close>

record msg_service =
  mv_open :: "int list"
  mv_pipe :: "char list"

text \<open>One connection; a failed \<^verbatim>\<open>read\<close> makes the \<^verbatim>\<open>write\<close> fail too.\<close>

definition msg_connection :: "(int \<times> char list option) option \<Rightarrow> msg_service \<Rightarrow> msg_service res" where
  "msg_connection c v = (case c of
     None \<Rightarrow> Inl (Exit_Process (-1))
   | Some (fd, conn) \<Rightarrow> Inr (v\<lparr>mv_open := mv_open v @ [fd],
       mv_pipe := (case conn of None \<Rightarrow> mv_pipe v | Some d \<Rightarrow> deal_msg_request_iter d (mv_pipe v))\<rparr>))"

definition deal_msg_request :: "msg_os \<Rightarrow> msg_service res" where
  "deal_msg_request os =
     (if \<not> mg_socket os then Inl (Exit_Process (-1))
      else if \<not> mg_bind os then Inl (Exit_Process (-1))
      else if \<not> mg_listen os then Inl (Exit_Process (-1))
      else forE (mg_accept os) msg_connection \<lparr>mv_open = [], mv_pipe = []\<rparr>)"

text \<open>
  Every connection puts the first 2000 bytes it can be read at once into the pipe, in the order of acceptance,
  and stays open.
\<close>

lemma deal_msg_request_run:
  assumes "mg_socket os" "mg_bind os" "mg_listen os" and "mg_accept os = map (\<lambda>(fd, d). Some (fd, Some d)) cs"
  shows "deal_msg_request os = Inr \<lparr>mv_open = map fst cs, mv_pipe = concat (map (\<lambda>c. take MSG_BUFF_SIZE (snd c)) cs)\<rparr>"
proof -
  have "forE (map (\<lambda>(fd, d). Some (fd, Some d)) cs) msg_connection \<lparr>mv_open = fs, mv_pipe = b\<rparr>
      = Inr \<lparr>mv_open = fs @ map fst cs, mv_pipe = b @ concat (map (\<lambda>c. take MSG_BUFF_SIZE (snd c)) cs)\<rparr>" for fs b
    by (induction cs arbitrary: fs b) (auto simp: msg_connection_def deal_msg_request_iter_def)
  with assms show ?thesis by (simp add: deal_msg_request_def)
qed

text \<open>Several messages sent one after the other are read back in order, each with its own \<^verbatim>\<open>msg_recv\<close>.\<close>

fun recv_all :: "(nat \<Rightarrow> char list) \<Rightarrow> int \<Rightarrow> nat list \<Rightarrow> char list \<Rightarrow> (char list list \<times> char list) res" where
  "recv_all malloc me [] pipe = Inr ([], pipe)"
| "recv_all malloc me (n # ns) pipe =
     bindE (msg_recv (malloc (n + HEAD_BYTES)) me me (replicate n NUL) n pipe) (\<lambda>(_, b, rest).
     bindE (recv_all malloc me ns rest) (\<lambda>(bs, r). Inr (b # bs, r)))"

lemma msg_recv_front:
  assumes "msg_send junk src me buf n = Inr m" and "length junk = n + 24" and "n \<le> length buf" and "n + 24 \<le> MSG_BUFF_SIZE"
    and "is_int32 src" "is_int32 me" and "length junk' = n + 24"
  shows "msg_recv junk' me me (replicate n NUL) n (m @ rest) = Inr (int (n + 24), take n buf, rest)"
proof -
  from msg_send_Inr [OF assms(2,3), of src me] assms(1) have len: "length m = n + 24" and body: "drop 24 m = take n buf" by auto
  have i: "is_int32 (int n)" using assms(4) by (simp add: is_int32_def)
  have t: "take (n + 24) (m @ rest) = m" "drop (n + 24) (m @ rest) = rest" using len by simp_all
  have s: "storeE junk' 0 m = Inr m" using len assms(7) by (simp add: storeE_def blit_def)
  have b: "blit (replicate n NUL) 0 (take n buf) = take n buf" using assms(3) by (simp add: blit_def)
  show ?thesis
    unfolding msg_recv_def Let_def msg_sizes t s
    using len body b assms(3) msg_send_header [OF assms(1,2,3,5,6) i] by (simp add: loadE_def storeE_def)
qed


section \<open>The senders of \<^verbatim>\<open>libmsg.c\<close>\<close>

text \<open>
  \<^verbatim>\<open>tcp_send\<close>, after the connection: whatever comes in is read into \<^verbatim>\<open>char data[1024]\<close> and dropped. The
  buffer that was to be sent is not used. (The second loop asks for readability only, whatever interest
  \<^const>\<open>connect_step\<close> recorded.)
\<close>

definition drain_step :: "poll_flags \<Rightarrow> ut_answer \<Rightarrow> exchange \<Rightarrow> exchange res" where
  "drain_step f a x =
     (if error_t f then Inr (x\<lparr>x_phase := Ended Conn_Error\<rparr>)
      else if read_t f then
        (case ua_recv a of
           Recv_Failed e \<Rightarrow> Inr (x\<lparr>x_phase := Ended Conn_Closed\<rparr>)
         | Received d \<Rightarrow>
             if d = [] then Inr (x\<lparr>x_phase := Ended Conn_Closed\<rparr>)
             else bindE (storeE (x_buf x) 0 (take 1024 d)) (\<lambda>b. Inr (x\<lparr>x_buf := b\<rparr>)))
      else Inr x)"

definition tcp_send_to ::
  "string \<Rightarrow> int \<Rightarrow> char list \<Rightarrow> nat \<Rightarrow> bool \<Rightarrow> char list \<Rightarrow> ut_answer list \<Rightarrow> exchange res" where
  "tcp_send_to srv_ip port buffer len created stack answers =
     forE answers (client_pass drain_step)
       \<lparr>x_phase = (if created then Connecting else Ended No_Socket), x_peer = (srv_ip, port), x_wire = [], x_buf = stack\<rparr>"

text \<open>
  \<^verbatim>\<open>tcp_send1\<close> accepts connections for ever: of each event, whether it is the listener's, whether it is
  readable, and the socket \<^verbatim>\<open>accept\<close> returns. The map from sockets to what they wait for is all it keeps.
\<close>

definition tcp_send1_pass ::
  "(bool \<times> bool \<times> nat option) list \<Rightarrow> (nat \<times> interest) list \<Rightarrow> (nat \<times> interest) list" where
  "tcp_send1_pass evs m = foldl (\<lambda>m (listener, readable, sc).
     if listener \<and> readable then (case sc of None \<Rightarrow> m | Some r \<Rightarrow> omap_put r Want_Write m) else m) m evs"

lemma drain_step_wire: "drain_step f a x = Inr x' \<Longrightarrow> x_wire x' = x_wire x"
  by (auto simp: drain_step_def elim!: bindE_InrE split: if_splits recv_answer.splits)

lemma drain_pass_wire: "client_pass drain_step a x = Inr x' \<Longrightarrow> x_wire x' = x_wire x"
  by (auto simp: client_pass_def connect_step_def dest: drain_step_wire split: option.splits phase.splits if_splits)

text \<open>\<^verbatim>\<open>tcp_send\<close> sends nothing.\<close>

lemma tcp_send_silent:
  "tcp_send_to srv_ip port buffer len created stack answers = Inr x \<Longrightarrow> x_wire x = []"
  unfolding tcp_send_to_def
  by (drule forE_Inr_invariant [where I = "\<lambda>x. x_wire x = []"]) (auto dest: drain_pass_wire)

text \<open>\<^verbatim>\<open>tcp_send1\<close> never lets a connection go.\<close>

lemma tcp_send1_grows: "fst ` set m \<subseteq> fst ` set (tcp_send1_pass evs m)"
  unfolding tcp_send1_pass_def
proof (induction evs arbitrary: m)
  case Nil
  then show ?case by simp
next
  case (Cons e evs)
  obtain l r sc where e: "e = (l, r, sc)" by (cases e)
  let ?m = "if l \<and> r then (case sc of None \<Rightarrow> m | Some k \<Rightarrow> omap_put k Want_Write m) else m"
  have "fst ` set m \<subseteq> fst ` set ?m" by (auto simp: set_keys_put split: option.splits)
  also have "\<dots> \<subseteq> fst ` set (foldl (\<lambda>m (listener, readable, sc).
     if listener \<and> readable then (case sc of None \<Rightarrow> m | Some r \<Rightarrow> omap_put r Want_Write m) else m) ?m evs)"
    by (rule Cons.IH)
  finally show ?case by (simp add: e)
qed

end
