(* ===== verification/Sock_Tcp.thy ===== *)
theory Sock_Tcp
  imports Tcp_Socket
begin

text \<open>
  The blocking sockets of \<^verbatim>\<open>etransfer/SockBase.cpp\<close>, \<^verbatim>\<open>SockTcp.cpp\<close> and \<^verbatim>\<open>SockTcpListenner.h\<close>: a
  descriptor with its connection, the calls on it and the loops that receive and send a whole
  buffer. The answers of the system are arguments; those of a loop depend on the number of the call.
\<close>

section \<open>State\<close>

record csock =
  sockFD :: int
  sk_port :: "16 word"
  bConnected :: bool
  destIP :: int
  destPort :: "16 word"

text \<open>The constructors leave the port and the destination as the allocation had them.\<close>

definition new_CSockTcp :: "16 word \<Rightarrow> int \<Rightarrow> 16 word \<Rightarrow> csock" where
  "new_CSockTcp p0 d0 q0 = \<lparr>sockFD = -1, sk_port = p0, bConnected = False, destIP = d0, destPort = q0\<rparr>"

section \<open>Opening and closing\<close>

text \<open>\<^verbatim>\<open>_Close\<close>; the closed descriptors are returned.\<close>

definition sk_close :: "csock \<Rightarrow> csock \<times> fds" where
  "sk_close c = (c\<lparr>sockFD := -1\<rparr>, if sockFD c \<noteq> -1 then [sockFD c] else [])"

record open_os =
  oo_socket :: int
  oo_reuse :: int
  oo_nodelay :: int
  oo_keepalive :: int
  oo_bind :: int

definition sk_Init :: "open_os \<Rightarrow> csock \<Rightarrow> csock \<times> bool" where
  "sk_Init os c =
     (let c = c\<lparr>sockFD := oo_socket os\<rparr>
      in (c, \<not> (oo_socket os = -1 \<or> oo_reuse os < 0 \<or> oo_nodelay os < 0 \<or> oo_bind os < 0)))"

definition sk_Bind :: "open_os \<Rightarrow> 16 word \<Rightarrow> csock \<Rightarrow> csock \<times> bool \<times> fds" where
  "sk_Bind os nPort c =
     (if sockFD c \<noteq> -1 then (c, False, [])
      else let c = c\<lparr>sockFD := oo_socket os\<rparr> in
        if oo_socket os = -1 then (c, False, [])
        else if oo_reuse os < 0 \<or> oo_nodelay os < 0 \<or> oo_keepalive os < 0 \<or> oo_bind os = -1
        then (case sk_close c of (c, f) \<Rightarrow> (c, False, f))
        else (c\<lparr>sk_port := nPort\<rparr>, True, []))"

text \<open>\<^verbatim>\<open>Connect\<close> by name: only the address 0 is refused; \<open>aton\<close> is \<^verbatim>\<open>inet_addr\<close>, \<open>conn\<close> what
  \<^verbatim>\<open>connect\<close> returns for an address and a port in network order.\<close>

definition sk_Connect_name :: "(string \<Rightarrow> 32 word) \<Rightarrow> (32 word \<Rightarrow> 16 word \<Rightarrow> int) \<Rightarrow> string \<Rightarrow> 16 word \<Rightarrow> csock \<Rightarrow> csock \<times> bool" where
  "sk_Connect_name aton conn sHostName nPort c =
     (if bConnected c then (c, False)
      else if sockFD c < 0 then (c, False)
      else let l_ip = aton sHostName in
        if l_ip = 0 then (c, False)
        else if conn l_ip (htons nPort) = -1 then (c, False)
        else (c\<lparr>bConnected := True, destIP := uint l_ip, destPort := nPort\<rparr>, True))"

text \<open>\<^verbatim>\<open>Connect\<close> by address, in the host's byte order and as wide as \<^verbatim>\<open>unsigned long\<close>.\<close>

definition sk_Connect :: "(32 word \<Rightarrow> 16 word \<Rightarrow> int) \<Rightarrow> int \<Rightarrow> 16 word \<Rightarrow> csock \<Rightarrow> csock \<times> bool" where
  "sk_Connect conn l_ip nPort c =
     (if bConnected c then (c, False)
      else if sockFD c < 0 then (c, False)
      else if conn (htonl (word_of_int l_ip)) (htons nPort) = -1 then (c, False)
      else (c\<lparr>bConnected := True, destIP := l_ip, destPort := nPort\<rparr>, True))"

text \<open>\<^verbatim>\<open>detach\<close> of \<^verbatim>\<open>CSockTcp\<close>: the caller keeps the descriptor.\<close>

definition sk_detach :: "csock \<Rightarrow> csock" where
  "sk_detach c = c\<lparr>sockFD := -1, bConnected := False\<rparr>"

definition sk_setNonBlocking :: "(int \<Rightarrow> int) \<Rightarrow> csock \<Rightarrow> bool" where
  "sk_setNonBlocking nonblock c \<longleftrightarrow> \<not> sockFD c \<le> 0 \<and> nonblock (sockFD c) = 0"

text \<open>\<^verbatim>\<open>getPort\<close>, \<^verbatim>\<open>Listen\<close> and \<^verbatim>\<open>Accept\<close> pass the descriptor on to the system.\<close>

definition sk_getPort :: "(int \<Rightarrow> 16 word) \<Rightarrow> csock \<Rightarrow> 16 word" where
  "sk_getPort sockname c = ntohs (sockname (sockFD c))"

definition sk_Listen :: "(int \<Rightarrow> int) \<Rightarrow> csock \<Rightarrow> bool" where
  "sk_Listen listen c \<longleftrightarrow> listen (sockFD c) = 0"

definition sk_Accept :: "(int \<Rightarrow> int) \<Rightarrow> csock \<Rightarrow> int" where
  "sk_Accept acc c = acc (sockFD c)"

section \<open>Receiving and sending\<close>

definition sk_Receive ::
  "sock_util \<Rightarrow> (int \<Rightarrow> nat \<Rightarrow> recv_answer) \<Rightarrow> char list \<Rightarrow> nat \<Rightarrow> nat \<Rightarrow> csock \<Rightarrow> (char list \<times> int) res" where
  "sk_Receive ut os buf off len c =
     (if \<not> bConnected c then Inr (buf, -1)
      else let n = ut_recv_cap ut len in
        case os (sockFD c) n of
          Recv_Failed e \<Rightarrow> Inr (buf, -1)
        | Received d \<Rightarrow> let got = take n d in bindE (storeE buf off got) (\<lambda>b. Inr (b, int (length got))))"

text \<open>The loop of \<^verbatim>\<open>SafeRecv\<close>: \<open>k\<close> counts the calls. Every pass that goes on has received something.\<close>

function safe_recv_loop ::
  "sock_util \<Rightarrow> (nat \<Rightarrow> int \<Rightarrow> nat \<Rightarrow> recv_answer) \<Rightarrow> csock \<Rightarrow> nat \<Rightarrow> nat \<Rightarrow> nat \<Rightarrow> char list \<Rightarrow> nat \<Rightarrow> (char list \<times> nat) res" where
  "safe_recv_loop ut os c off iLen k buf nRecved =
     (if nRecved < iLen then
        (case sk_Receive ut (os k) buf (off + nRecved) (iLen - nRecved) c of
           Inl e \<Rightarrow> Inl e
         | Inr (b, ret) \<Rightarrow>
             if ret \<le> 0 then Inr (b, nRecved)
             else safe_recv_loop ut os c off iLen (Suc k) b (nRecved + nat ret))
      else Inr (buf, nRecved))"
  by pat_completeness auto

termination
  by (relation "measure (\<lambda>(ut, os, c, off, iLen, k, buf, nRecved). iLen - nRecved)") auto

declare safe_recv_loop.simps [simp del]

definition SafeRecv ::
  "sock_util \<Rightarrow> (nat \<Rightarrow> int \<Rightarrow> nat \<Rightarrow> recv_answer) \<Rightarrow> csock \<Rightarrow> char list \<Rightarrow> nat \<Rightarrow> nat \<Rightarrow> (char list \<times> nat) res" where
  "SafeRecv ut os c buf off iLen = safe_recv_loop ut os c off iLen 0 buf 0"

text \<open>
  The loop of \<^verbatim>\<open>SafeSend\<close>; the result is what went out and the count. What \<^verbatim>\<open>send\<close> takes is at most what
  it was given.
\<close>

function safe_send_loop ::
  "sock_util \<Rightarrow> (nat \<Rightarrow> int \<Rightarrow> char list \<Rightarrow> send_answer) \<Rightarrow> csock \<Rightarrow> char list \<Rightarrow> nat \<Rightarrow> nat \<Rightarrow> char list \<Rightarrow> nat \<Rightarrow> (char list \<times> nat) res" where
  "safe_send_loop ut os c buf iLen k sent nSent =
     (if nSent < iLen then
        (let n = ut_send_cap ut (iLen - nSent) in
         case loadE buf nSent n of
           Inl e \<Rightarrow> Inl e
         | Inr bytes \<Rightarrow>
             (case os k (sockFD c) bytes of
                Send_Failed e \<Rightarrow> Inr (sent, nSent)
              | Sent m \<Rightarrow>
                  if min m n = 0 then Inr (sent, nSent)
                  else safe_send_loop ut os c buf iLen (Suc k) (sent @ take m bytes) (nSent + min m n)))
      else Inr (sent, nSent))"
  by pat_completeness auto

termination
  by (relation "measure (\<lambda>(ut, os, c, buf, iLen, k, sent, nSent). iLen - nSent)") auto

declare safe_send_loop.simps [simp del]

definition SafeSend ::
  "sock_util \<Rightarrow> (nat \<Rightarrow> int \<Rightarrow> char list \<Rightarrow> send_answer) \<Rightarrow> csock \<Rightarrow> char list \<Rightarrow> nat \<Rightarrow> (char list \<times> int) res" where
  "SafeSend ut os c buf iLen =
     (if \<not> bConnected c then Inr ([], -1)
      else bindE (safe_send_loop ut os c buf iLen 0 [] 0) (\<lambda>(sent, n). Inr (sent, int n)))"

section \<open>Whole buffers\<close>

text \<open>A receipt that delivers nothing: an error or the end of the connection.\<close>

definition no_bytes :: "recv_answer \<Rightarrow> nat \<Rightarrow> bool" where
  "no_bytes r m \<longleftrightarrow> (case r of Recv_Failed e \<Rightarrow> True | Received d \<Rightarrow> take m d = [])"

text \<open>
  \<open>received os fd k ds\<close>: the calls from the \<open>k\<close>-th on delivered the non-empty pieces \<open>ds\<close>.
\<close>

definition received :: "(nat \<Rightarrow> int \<Rightarrow> nat \<Rightarrow> recv_answer) \<Rightarrow> int \<Rightarrow> nat \<Rightarrow> char list list \<Rightarrow> bool" where
  "received os fd k ds \<longleftrightarrow> (\<forall>i < length ds. ds ! i \<noteq> [] \<and> (\<exists>d m. os (k + i) fd m = Received d \<and> ds ! i = take m d))"

lemma received_Cons:
  assumes "os k fd m = Received d" and "take m d \<noteq> []" and "received os fd (Suc k) ds"
  shows "received os fd k (take m d # ds)"
  unfolding received_def
proof (intro allI impI)
  fix i
  assume i: "i < length (take m d # ds)"
  show "(take m d # ds) ! i \<noteq> [] \<and> (\<exists>d' m'. os (k + i) fd m' = Received d' \<and> (take m d # ds) ! i = take m' d')"
  proof (cases i)
    case 0
    then show ?thesis using assms(1,2) by auto
  next
    case (Suc j)
    with i assms(3) show ?thesis by (auto simp: received_def)
  qed
qed

lemma sk_Receive_ok:
  assumes "util_ok ut" and "off + len \<le> length buf" and "bConnected c"
  shows "(\<exists>m. no_bytes (os (sockFD c) m) m \<and> (\<exists>r. sk_Receive ut os buf off len c = Inr (buf, r) \<and> r \<le> 0))
    \<or> (\<exists>m d. os (sockFD c) m = Received d \<and> take m d \<noteq> [] \<and> length (take m d) \<le> len
         \<and> sk_Receive ut os buf off len c = Inr (blit buf off (take m d), int (length (take m d))))"
proof -
  let ?n = "ut_recv_cap ut len"
  have n: "?n \<le> len" using assms(1) by (simp add: util_ok_def)
  show ?thesis
  proof (cases "os (sockFD c) ?n")
    case (Recv_Failed e)
    then show ?thesis using assms(3) by (intro disjI1 exI [of _ ?n]) (simp add: sk_Receive_def no_bytes_def)
  next
    case (Received d)
    show ?thesis
    proof (cases "take ?n d = []")
      case True
      have "storeE buf off [] = Inr buf" using assms(2) by (simp add: storeE_def blit_def)
      then have "sk_Receive ut os buf off len c = Inr (buf, 0)"
        unfolding sk_Receive_def Let_def Received recv_answer.case True using assms(3) by simp
      moreover have "no_bytes (os (sockFD c) ?n) ?n" unfolding no_bytes_def Received using True by simp
      ultimately show ?thesis by auto
    next
      case False
      have "length (take ?n d) \<le> len" using n by simp
      then show ?thesis using False Received assms(2,3)
        by (intro disjI2 exI [of _ ?n] exI [of _ d]) (simp add: sk_Receive_def storeE_def Let_def)
    qed
  qed
qed

lemma blit_blit_next:
  fixes b d e :: "char list"
  shows "off + length d + length e \<le> length b \<Longrightarrow> blit (blit b off d) (off + length d) e = blit b off (d @ e)"
  by (simp add: blit_def add.commute add.left_commute)

lemma safe_recv_loop_spec:
  assumes "util_ok ut" and "off + iLen \<le> length buf" and "bConnected c" and "n0 \<le> iLen"
  shows "\<exists>b n ds. safe_recv_loop ut os c off iLen k buf n0 = Inr (b, n) \<and> n \<le> iLen \<and> n = n0 + length (concat ds)
    \<and> b = blit buf (off + n0) (concat ds) \<and> received os (sockFD c) k ds
    \<and> (n = iLen \<or> (\<exists>m. no_bytes (os (k + length ds) (sockFD c) m) m))"
  using assms(2,4)
proof (induction "iLen - n0" arbitrary: n0 buf k rule: less_induct)
  case less
  show ?case
  proof (cases "n0 < iLen")
    case False
    then have "n0 = iLen" using less.prems(2) by simp
    then show ?thesis
      by (intro exI [of _ buf] exI [of _ n0] exI [of _ "[]"]) (simp add: safe_recv_loop.simps [of ut os c off iLen k buf iLen] received_def blit_def)
  next
    case True
    have sp: "off + n0 + (iLen - n0) \<le> length buf" using True less.prems(1) by simp
    from sk_Receive_ok [OF assms(1) sp assms(3), of "os k"] show ?thesis
    proof (elim disjE exE conjE)
      fix m r
      assume "no_bytes (os k (sockFD c) m) m" "sk_Receive ut (os k) buf (off + n0) (iLen - n0) c = Inr (buf, r)" "r \<le> 0"
      then show ?thesis using True
        by (intro exI [of _ buf] exI [of _ n0] exI [of _ "[]"])
          (auto simp: safe_recv_loop.simps [of ut os c off iLen k buf n0] received_def blit_def)
    next
      fix m and d :: "char list"
      let ?d = "take m d"
      assume a: "os k (sockFD c) m = Received d" "?d \<noteq> []" "length ?d \<le> iLen - n0"
        "sk_Receive ut (os k) buf (off + n0) (iLen - n0) c = Inr (blit buf (off + n0) ?d, int (length ?d))"
      let ?b = "blit buf (off + n0) ?d"
      have l: "off + n0 + length ?d \<le> length buf" using a(3) sp by simp
      have lt: "iLen - (n0 + length ?d) < iLen - n0" using True a(2) by (cases ?d) simp_all
      have le: "n0 + length ?d \<le> iLen" using True a(3) by simp
      have b: "off + iLen \<le> length ?b" using l less.prems(1) by simp
      from less.hyps [OF lt b le, of "Suc k"] obtain b' n ds where
        ih: "safe_recv_loop ut os c off iLen (Suc k) ?b (n0 + length ?d) = Inr (b', n)" "n \<le> iLen"
          "n = n0 + length ?d + length (concat ds)" "b' = blit ?b (off + (n0 + length ?d)) (concat ds)"
          "received os (sockFD c) (Suc k) ds" "n = iLen \<or> (\<exists>m. no_bytes (os (Suc k + length ds) (sockFD c) m) m)" by blast
      have "\<not> int (length ?d) \<le> 0" using a(2) by (cases ?d) simp_all
      then have "safe_recv_loop ut os c off iLen k buf n0 = Inr (b', n)"
        using a(4) ih(1) True by (simp add: safe_recv_loop.simps [of ut os c off iLen k buf n0] del: length_take)
      moreover have "b' = blit buf (off + n0) (concat (?d # ds))"
      proof -
        have "off + n0 + length ?d + length (concat ds) \<le> length buf" using ih(2,3) less.prems(1) by linarith
        from blit_blit_next [OF this] show ?thesis unfolding ih(4) by (simp only: add.assoc concat.simps)
      qed
      moreover have "received os (sockFD c) k (?d # ds)" by (rule received_Cons [OF a(1,2) ih(5)])
      ultimately show ?thesis using ih(2,3,6)
        by (intro exI [of _ b'] exI [of _ n] exI [of _ "?d # ds"]) (simp del: length_take)
    qed
  qed
qed

text \<open>A call of \<^verbatim>\<open>send\<close> that takes nothing.\<close>

definition takes_nothing :: "send_answer \<Rightarrow> bool" where
  "takes_nothing r \<longleftrightarrow> (case r of Send_Failed e \<Rightarrow> True | Sent m \<Rightarrow> m = 0)"

lemma safe_send_loop_spec:
  assumes "util_ok ut" and cap: "\<And>l. 0 < l \<Longrightarrow> 0 < ut_send_cap ut l" and "iLen \<le> length buf" and "n0 \<le> iLen"
  shows "\<exists>n j bytes. safe_send_loop ut os c buf iLen k (take n0 buf) n0 = Inr (take n buf, n) \<and> n \<le> iLen \<and> j \<ge> k
    \<and> (n = iLen \<or> takes_nothing (os j (sockFD c) bytes))"
  using assms(4)
proof (induction "iLen - n0" arbitrary: n0 k rule: less_induct)
  case less
  show ?case
  proof (cases "n0 < iLen")
    case False
    then show ?thesis using less.prems
      by (intro exI [of _ n0] exI [of _ k]) (simp add: safe_send_loop.simps)
  next
    case True
    let ?n = "ut_send_cap ut (iLen - n0)"
    let ?bytes = "take ?n (drop n0 buf)"
    have n: "0 < ?n" "?n \<le> iLen - n0" using assms(1) cap [of "iLen - n0"] True by (simp_all add: util_ok_def)
    have ld: "loadE buf n0 ?n = Inr ?bytes" using n assms(3) True by (simp add: loadE_def)
    note step = safe_send_loop.simps [of ut os c buf iLen k "take n0 buf" n0]
    show ?thesis
    proof (cases "takes_nothing (os k (sockFD c) ?bytes)")
      case none: True
      then have "safe_send_loop ut os c buf iLen k (take n0 buf) n0 = Inr (take n0 buf, n0)"
        using True ld by (auto simp: step Let_def takes_nothing_def split: send_answer.splits)
      with none less.prems show ?thesis by blast
    next
      case False
      then obtain m where m: "os k (sockFD c) ?bytes = Sent m" "m > 0"
        by (auto simp: takes_nothing_def split: send_answer.splits)
      let ?m = "min m ?n"
      have m0: "0 < ?m" "n0 + ?m \<le> iLen" using m(2) n True by auto
      have nz: "(?m = 0) = False" using m0(1) by simp
      have "take n0 buf @ take m ?bytes = take (n0 + ?m) buf" by (simp add: take_add min.commute)
      then have "safe_send_loop ut os c buf iLen k (take n0 buf) n0
          = safe_send_loop ut os c buf iLen (Suc k) (take (n0 + ?m) buf) (n0 + ?m)"
        unfolding step Let_def ld sum.case m(1) send_answer.case using True nz by (simp only: if_True if_False)
      moreover have "iLen - (n0 + ?m) < iLen - n0" using True m0(1) by linarith
      from less.hyps [OF this m0(2), of "Suc k"] obtain n j bytes where
        "safe_send_loop ut os c buf iLen (Suc k) (take (n0 + ?m) buf) (n0 + ?m) = Inr (take n buf, n)" "n \<le> iLen" "j \<ge> Suc k"
        "n = iLen \<or> takes_nothing (os j (sockFD c) bytes)" by blast
      ultimately show ?thesis by (metis Suc_leD)
    qed
  qed
qed


text \<open>Three bytes arrive as two and one; two of five go out before the connection breaks.\<close>

definition sk_util1 :: sock_util where
  "sk_util1 = \<lparr>ut_recv_cap = (\<lambda>n. n), ut_send_cap = (\<lambda>n. n)\<rparr>"

definition sk_recv1 :: "nat \<Rightarrow> int \<Rightarrow> nat \<Rightarrow> recv_answer" where
  "sk_recv1 k fd n = (if k = 0 then Received ''ab'' else if k = 1 then Received ''c'' else Recv_Failed 104)"

definition sk_send1 :: "nat \<Rightarrow> int \<Rightarrow> char list \<Rightarrow> send_answer" where
  "sk_send1 k fd bs = (if k = 0 then Sent 2 else Send_Failed 32)"

definition sk1 :: csock where
  "sk1 = (new_CSockTcp 0 0 0)\<lparr>sockFD := 7, bConnected := True\<rparr>"


section \<open>Descriptors\<close>

definition sk_held :: "csock \<Rightarrow> fds" where
  "sk_held c = (if sockFD c \<noteq> -1 then [sockFD c] else [])"

definition sk_opened :: "open_os \<Rightarrow> csock \<Rightarrow> fds" where
  "sk_opened os c = (if sockFD c = -1 \<and> oo_socket os \<noteq> -1 then [oo_socket os] else [])"

text \<open>
  The life of a socket object with the descriptors the system gave it and those closed or detached so
  far. \<^verbatim>\<open>Init\<close> is called on a fresh object.
\<close>

inductive sk_step :: "csock \<times> fds \<times> fds \<Rightarrow> csock \<times> fds \<times> fds \<Rightarrow> bool" where
  bind: "sk_Bind os p c = (c', r, f) \<Longrightarrow> sk_step (c, got, gone) (c', sk_opened os c @ got, f @ gone)"
| init: "sockFD c = -1 \<Longrightarrow> sk_Init os c = (c', r) \<Longrightarrow> sk_step (c, got, gone) (c', sk_opened os c @ got, gone)"
| connect_name: "sk_Connect_name aton conn h p c = (c', r) \<Longrightarrow> sk_step (c, got, gone) (c', got, gone)"
| connect: "sk_Connect conn i p c = (c', r) \<Longrightarrow> sk_step (c, got, gone) (c', got, gone)"
| detach: "sk_step (c, got, gone) (sk_detach c, got, sk_held c @ gone)"
| close: "sk_close c = (c', f) \<Longrightarrow> sk_step (c, got, gone) (c', got, f @ gone)"

inductive_cases sk_stepE: "sk_step (c, got, gone) (c', got', gone')"

lemma sk_connect_fd:
  "sockFD (fst (sk_Connect_name aton conn h p c)) = sockFD c"
  "sockFD (fst (sk_Connect conn i p c)) = sockFD c"
  by (simp_all add: sk_Connect_name_def sk_Connect_def Let_def)

lemma sk_bind_fds:
  "sk_Bind os p c = (c', r, f) \<Longrightarrow> mset (sk_opened os c) + mset (sk_held c) = mset f + mset (sk_held c')"
  by (auto simp: sk_Bind_def sk_close_def sk_opened_def sk_held_def Let_def split: if_splits)

lemma sk_step_fds:
  assumes "sk_step (c, got, gone) (c', got', gone')" and "mset got = mset gone + mset (sk_held c)"
  shows "mset got' = mset gone' + mset (sk_held c')"
  using assms(1)
proof (cases rule: sk_stepE [consumes 1])
  case 1
  from sk_bind_fds [OF 1(1)] 1(2,3) assms(2) show ?thesis by (simp add: ac_simps)
next
  case 2
  then show ?thesis using assms(2) by (auto simp: sk_Init_def sk_opened_def sk_held_def)
next
  case 3
  then show ?thesis using assms(2) sk_connect_fd(1) by (metis fst_conv sk_held_def)
next
  case 4
  then show ?thesis using assms(2) sk_connect_fd(2) by (metis fst_conv sk_held_def)
next
  case 5
  then show ?thesis using assms(2) by (simp add: sk_detach_def sk_held_def)
next
  case 6
  then show ?thesis using assms(2) by (auto simp: sk_close_def sk_held_def)
qed

lemma sk_life_fds:
  assumes "sk_step\<^sup>*\<^sup>* (new_CSockTcp p0 d0 q0, [], []) (c, got, gone)"
  shows "mset got = mset gone + mset (sk_held c)"
  using assms
proof (induction "(c, got, gone)" arbitrary: c got gone rule: rtranclp_induct)
  case base
  then show ?case by (simp add: new_CSockTcp_def sk_held_def)
next
  case (step y)
  obtain c0 g0 k0 where y: "y = (c0, g0, k0)" by (cases y)
  from sk_step_fds [OF step(2) [unfolded y] step(3) [OF y]] show ?case .
qed

text \<open>\<^verbatim>\<open>Init\<close> on an open object writes the new descriptor over the old one, which nothing closes.\<close>

lemma init_drops_descriptor:
  "oo_socket os = n \<Longrightarrow> sk_Init os c = (c', r) \<Longrightarrow> sockFD c' = n \<and> snd (sk_close c') = (if n \<noteq> -1 then [n] else [])"
  by (auto simp: sk_Init_def sk_close_def)

text \<open>
  \<^verbatim>\<open>inet_addr\<close> answers \<^verbatim>\<open>INADDR_NONE\<close> for a text that is no address; \<^verbatim>\<open>Connect\<close> by name takes it for the
  broadcast address.
\<close>

lemma bad_name_connects:
  "\<lbrakk>aton h = -1; conn (-1) (htons p) \<noteq> -1; \<not> bConnected c; 0 \<le> sockFD c\<rbrakk>
    \<Longrightarrow> sk_Connect_name aton conn h p c = (c\<lparr>bConnected := True, destIP := 2 ^ 32 - 1, destPort := p\<rparr>, True)"
  by (simp add: sk_Connect_name_def unsigned_minus_1_eq_mask mask_eq_exp_minus_1)

end
