(* ===== verification/Net_Aux.thy ===== *)
theory Net_Aux
  imports Sock_Tcp
begin

text \<open>
  The helpers of \<^verbatim>\<open>etransfer/NetAux.cpp\<close> as Linux compiles them: addresses of the machine and of
  its interfaces' hardware, the test for a private address, and \<^verbatim>\<open>ParseURL\<close>. Names are resolved in \<^verbatim>\<open>Sock_Addr\<close>. What
  \<^verbatim>\<open>ioctl\<close> answers is an argument.
\<close>

section \<open>Addresses of the machine\<close>

text \<open>
  The answer to \<^verbatim>\<open>SIOCGIFCONF\<close>: family and address, in network order, of each interface; \<open>None\<close> when the
  socket or the call failed. \<^verbatim>\<open>127\<close> is the first byte in memory.
\<close>

type_synonym if_list = "(nat \<times> 32 word) list option"

definition if_counts :: "nat \<times> 32 word \<Rightarrow> bool" where
  "if_counts i \<longleftrightarrow> fst i = AF_INET \<and> snd i AND 0xFF \<noteq> 0x7F"

fun first_address :: "(nat \<times> 32 word) list \<Rightarrow> 32 word \<Rightarrow> 32 word" where
  "first_address [] a = a"
| "first_address (i # is) a = (if if_counts i then snd i else first_address is a)"

text \<open>The argument is a reference: the result is its new value and the value returned.\<close>

definition getLocalIP :: "if_list \<Rightarrow> 32 word \<Rightarrow> 32 word \<times> bool" where
  "getLocalIP ifs a =
     (case ifs of
        None \<Rightarrow> (a, False)
      | Some l \<Rightarrow> (ntohl (first_address l a), True))"

fun counted_addresses :: "(nat \<times> 32 word) list \<Rightarrow> 32 word list" where
  "counted_addresses [] = []"
| "counted_addresses (i # is) =
     (if if_counts i then ntohl (snd i) # counted_addresses is else counted_addresses is)"

definition getLocalIPList :: "if_list \<Rightarrow> 32 word list \<times> bool" where
  "getLocalIPList ifs =
     (case ifs of
        None \<Rightarrow> ([], False)
      | Some l \<Rightarrow> (counted_addresses l, True))"

definition resolveHostName_text :: "resolver \<Rightarrow> char list \<Rightarrow> string \<Rightarrow> (char list \<times> bool) res" where
  "resolveHostName_text rs out sHost =
     bindE (put_cstr out (inet_ntoa (htonl (resolveHostName rs sHost)))) (\<lambda>b. Inr (b, True))"

definition O_NONBLOCK :: int where
  "O_NONBLOCK = 2048"

definition setSockNonBlocking :: "(int \<Rightarrow> int) \<Rightarrow> (int \<Rightarrow> int \<Rightarrow> int) \<Rightarrow> int \<Rightarrow> int" where
  "setSockNonBlocking getfl setfl sock = setfl sock (getfl sock OR O_NONBLOCK)"

definition isLocalhost :: "32 word \<Rightarrow> bool" where
  "isLocalhost a \<longleftrightarrow>
     (a \<ge> 167772161 \<and> a \<le> 184549375) \<or>
     (a \<ge> 2886729728 \<and> a \<le> 2894331903) \<or>
     (a \<ge> 3232235520 \<and> a \<le> 3232301055)"

section \<open>Hardware addresses\<close>

text \<open>
  What one pass of \<^verbatim>\<open>getLogicalMacAddress\<close> meets: no socket, a refused \<^verbatim>\<open>SIOCGIFHWADDR\<close> on a socket, or
  the six bytes on a socket.
\<close>

datatype hw_answer = No_Socket | Hw_Refused int | Hw_Address int "8 word list"

definition hex_digit :: "nat \<Rightarrow> char" where
  "hex_digit n = (if n < 10 then char_of (48 + n) else char_of (55 + n))"

definition hex_byte :: "8 word \<Rightarrow> string" where
  "hex_byte w = [hex_digit (unat w div 16), hex_digit (unat w mod 16)]"

definition mac_text :: "8 word list \<Rightarrow> string" where
  "mac_text bs = concat (map hex_byte (take 6 bs))"

definition MAC_ZERO :: string where
  "MAC_ZERO = ''000000000000''"

definition MAC_ONES :: string where
  "MAC_ONES = ''FFFFFFFFFFFF''"

text \<open>\<open>strstr\<close> finds the text.\<close>

fun has_substr :: "string \<Rightarrow> string \<Rightarrow> bool" where
  "has_substr p [] \<longleftrightarrow> p = []"
| "has_substr p (c # s) \<longleftrightarrow> take (length p) (c # s) = p \<or> has_substr p s"

text \<open>
  The passes over the interfaces, the last one first; the result is the buffer, whether an address was
  stored, and the sockets that were not closed.
\<close>

fun mac_passes :: "hw_answer list \<Rightarrow> char list \<Rightarrow> bool \<Rightarrow> (char list \<times> bool \<times> fds) res" where
  "mac_passes [] out ok = Inr (out, ok, [])"
| "mac_passes (h # hs) out ok =
     (case h of
        No_Socket \<Rightarrow> mac_passes hs out ok
      | Hw_Refused fd \<Rightarrow> bindE (mac_passes hs out ok) (\<lambda>(b, r, lf). Inr (b, r, fd # lf))
      | Hw_Address fd bs \<Rightarrow>
          bindE (put_cstr out (mac_text bs)) (\<lambda>b.
            if \<not> has_substr MAC_ZERO (mac_text bs) then Inr (b, True, []) else mac_passes hs b True))"

definition getLogicalMacAddress :: "hw_answer list option \<Rightarrow> char list \<Rightarrow> (char list \<times> bool \<times> fds) res" where
  "getLogicalMacAddress ifs out =
     (case ifs of
        None \<Rightarrow> Inr (out, False, [])
      | Some l \<Rightarrow> mac_passes (rev l) out False)"

definition getPhysicalMacAddress :: "char list \<Rightarrow> char list \<times> bool" where
  "getPhysicalMacAddress out = (out, False)"

definition mac_usable :: "string \<Rightarrow> bool" where
  "mac_usable s \<longleftrightarrow> s \<noteq> [] \<and> \<not> has_substr MAC_ZERO s \<and> \<not> has_substr MAC_ONES s"

definition getMacAddress :: "hw_answer list option \<Rightarrow> char list \<Rightarrow> (char list \<times> bool \<times> fds) res" where
  "getMacAddress ifs out =
     (case getPhysicalMacAddress out of
        (b, r) \<Rightarrow>
          if r \<and> mac_usable (c_str_of b) then Inr (b, True, [])
          else bindE (getLogicalMacAddress ifs b) (\<lambda>(b, r, lf).
                 if r \<and> mac_usable (c_str_of b) then Inr (b, True, lf)
                 else bindE (storeE b 0 [NUL]) (\<lambda>b. Inr (b, False, lf))))"

section \<open>\<^verbatim>\<open>ParseURL\<close>\<close>

text \<open>\<^verbatim>\<open>string::find\<close> of a character from a position on.\<close>

definition str_find :: "char \<Rightarrow> nat \<Rightarrow> string \<Rightarrow> nat option" where
  "str_find c k s =
     (let n = k + length (takeWhile (\<lambda>x. x \<noteq> c) (drop k s)) in if n < length s then Some n else None)"

text \<open>
  The blanks at both ends are erased; of a text without any other character \<^verbatim>\<open>find_first_not_of\<close> finds
  nothing and the erased range ends before it begins.
\<close>

definition trim_blanks :: "string \<Rightarrow> string res" where
  "trim_blanks s =
     (if \<forall>c \<in> set s. c = CHR '' '' then Inl Out_Of_Bounds
      else Inr (rev (dropWhile (\<lambda>c. c = CHR '' '') (rev (dropWhile (\<lambda>c. c = CHR '' '') s)))))"

definition url_char :: "char \<Rightarrow> string" where
  "url_char c = (if c = CHR 0x5C then ''/'' else if c = CHR '' '' then ''%20'' else [c])"

definition url_port :: "string \<Rightarrow> 16 word" where
  "url_port newurl =
     (case str_find (CHR '':'') 8 newurl of
        None \<Rightarrow> 80
      | Some pos \<Rightarrow>
          let port = (case str_find (CHR ''/'') (pos + 1) newurl of
                        None \<Rightarrow> drop (pos + 1) newurl
                      | Some pos1 \<Rightarrow> take (pos1 - (pos + 1)) (drop (pos + 1) newurl))
          in word_of_int (atoi (filter (\<lambda>c. \<not> is_space c) port)))"

text \<open>The result is the host, the port and the path; \<open>None\<close> is \<^verbatim>\<open>false\<close>, which leaves them as they are.\<close>

definition ParseURL :: "string \<Rightarrow> (string \<times> 16 word \<times> string) option res" where
  "ParseURL url =
     bindE (trim_blanks url) (\<lambda>tmp.
       let newurl = concat (map url_char tmp) in
       if take 7 newurl \<noteq> ''http://'' then Inr None
       else
         let (hostName, remotepath) =
               (case str_find (CHR ''/'') 8 newurl of
                  Some pos \<Rightarrow> (take (pos - 7) (drop 7 newurl), drop pos newurl)
                | None \<Rightarrow> (drop 7 newurl, ''/''));
             hostName = (case str_find (CHR '':'') 0 hostName of None \<Rightarrow> hostName | Some pos \<Rightarrow> take pos hostName)
         in Inr (Some (hostName, url_port newurl, remotepath)))"


section \<open>What they compute\<close>

lemma first_of_counted:
  "first_address l a = (case counted_addresses l of [] \<Rightarrow> a | x # xs \<Rightarrow> htonl x)"
  by (induction l) auto

text \<open>
  The single address is the first of the list; without any, the bytes of the caller's value are
  exchanged.
\<close>

lemma local_ip_is_first:
  "getLocalIP ifs a =
     (case getLocalIPList ifs of
        (xs, r) \<Rightarrow> (if \<not> r then a else if xs = [] then ntohl a else hd xs, r))"
  by (cases ifs) (auto simp: getLocalIP_def getLocalIPList_def first_of_counted split: list.split)

lemma counted_addresses_set:
  "set (counted_addresses l) = {ntohl a | a. (AF_INET, a) \<in> set l \<and> a AND 0xFF \<noteq> 0x7F}"
  by (induction l) (auto simp: if_counts_def)

text \<open>An address of the private blocks 10.0.0.0/8, 172.16.0.0/12 and 192.168.0.0/16.\<close>

definition private_address :: "32 word \<Rightarrow> bool" where
  "private_address a \<longleftrightarrow> drop_bit 24 a = 10 \<or> drop_bit 20 a = 0xAC1 \<or> drop_bit 16 a = 0xC0A8"

lemma div_eq_iff_range: "0 < d \<Longrightarrow> (m :: nat) div d = q \<longleftrightarrow> q * d \<le> m \<and> m < q * d + d"
  by (metis add.commute div_nat_eqI div_times_less_eq_dividend dividend_less_div_times mult.commute mult_Suc)

lemma drop_bit_range:
  fixes a :: "32 word"
  assumes "unat v * 2 ^ k + 2 ^ k \<le> 2 ^ 32"
  shows "drop_bit k a = v \<longleftrightarrow> unat v * 2 ^ k \<le> unat a \<and> unat a < unat v * 2 ^ k + 2 ^ k"
proof -
  have "drop_bit k a = v \<longleftrightarrow> unat a div 2 ^ k = unat v"
    by (simp only: word_unat_eq_iff unat_drop_bit_eq) (simp only: drop_bit_eq_div)
  also have "\<dots> \<longleftrightarrow> unat v * 2 ^ k \<le> unat a \<and> unat a < unat v * 2 ^ k + 2 ^ k"
    by (auto simp: div_eq_iff_range)
  finally show ?thesis .
qed

lemma isLocalhost_exact:
  "isLocalhost a \<longleftrightarrow>
     (private_address a \<and> a \<noteq> 0x0A000000) \<or> (0xAC200000 \<le> a \<and> a \<le> 0xAC83FFFF)"
proof -
  have u: "unat (10 :: 32 word) = 10" "unat (0xAC1 :: 32 word) = 0xAC1" "unat (0xC0A8 :: 32 word) = 0xC0A8" by simp_all
  have "private_address a \<longleftrightarrow> (10 * 2 ^ 24 \<le> unat a \<and> unat a < 11 * 2 ^ 24)
      \<or> (0xAC1 * 2 ^ 20 \<le> unat a \<and> unat a < 0xAC2 * 2 ^ 20) \<or> (0xC0A8 * 2 ^ 16 \<le> unat a \<and> unat a < 0xC0A9 * 2 ^ 16)"
    unfolding private_address_def
    using drop_bit_range [where v = 10 and k = 24 and a = a] drop_bit_range [where v = "0xAC1" and k = 20 and a = a] drop_bit_range [where v = "0xC0A8" and k = 16 and a = a] unfolding u by simp
  then show ?thesis
    unfolding isLocalhost_def word_le_nat_alt word_unat_eq_iff by simp linarith
qed

section \<open>Round trip of \<^verbatim>\<open>ParseURL\<close>\<close>

text \<open>A name as it stands in a URL, and the path after it.\<close>

definition plain_chars :: "string \<Rightarrow> bool" where
  "plain_chars s \<longleftrightarrow> (\<forall>c \<in> set s. c \<noteq> CHR '' '' \<and> c \<noteq> CHR 0x5C \<and> c \<noteq> CHR '':'')"

definition url_host :: "string \<Rightarrow> bool" where
  "url_host h \<longleftrightarrow> h \<noteq> [] \<and> plain_chars h \<and> CHR ''/'' \<notin> set h"

definition url_path :: "string \<Rightarrow> bool" where
  "url_path p \<longleftrightarrow> p = [] \<or> (hd p = CHR ''/'' \<and> plain_chars p)"

lemma str_find_here:
  assumes "c \<notin> set u" and "k = length p"
  shows "str_find c k (p @ u @ c # v) = Some (k + length u)"
proof -
  have "takeWhile (\<lambda>x. x \<noteq> c) (u @ c # v) = u" using assms(1) by (induction u) auto
  then show ?thesis using assms(2) by (simp add: str_find_def Let_def)
qed

lemma str_find_none:
  assumes "c \<notin> set (drop k s)"
  shows "str_find c k s = None"
proof -
  have t: "takeWhile (\<lambda>x. x \<noteq> c) (drop k s) = drop k s" using assms by (auto simp: takeWhile_eq_all_conv)
  show ?thesis unfolding str_find_def Let_def t by simp
qed

lemma trim_blanks_around:
  assumes "s \<noteq> []" and "hd s \<noteq> CHR '' ''" and "last s \<noteq> CHR '' ''"
  shows "trim_blanks (replicate m (CHR '' '') @ s @ replicate n (CHR '' '')) = Inr s"
proof -
  have d: "dropWhile (\<lambda>c. c = CHR '' '') (replicate m (CHR '' '') @ t) = dropWhile (\<lambda>c. c = CHR '' '') t" for m t
    by (induction m) auto
  have "dropWhile (\<lambda>c. c = CHR '' '') (s @ t) = s @ t" for t using assms(1,2) by (cases s) auto
  moreover have "dropWhile (\<lambda>c. c = CHR '' '') (rev s) = rev s" using assms(1,3) by (cases s rule: rev_cases) auto
  moreover have "\<exists>c \<in> set s. c \<noteq> CHR '' ''" using assms(1,2) by (cases s) auto
  ultimately show ?thesis by (auto simp: trim_blanks_def d)
qed

lemma plain_url_chars: "(\<forall>c \<in> set s. c \<noteq> CHR '' '' \<and> c \<noteq> CHR 0x5C) \<Longrightarrow> concat (map url_char s) = s"
  by (induction s) (auto simp: url_char_def)

lemma filter_digits: "\<forall>c \<in> set s. is_digit c \<Longrightarrow> filter (\<lambda>c. \<not> is_space c) s = s"
  by (induction s) (auto dest: digit_not_sign)

lemma show_nat_digits: "0 \<le> x \<Longrightarrow> (\<forall>c \<in> set (show_int x). is_digit c) \<and> show_int x \<noteq> []"
  using nat_digits_value [of "nat x" "Suc (nat x)"] by (simp add: show_int_def del: nat_digits.simps)

lemma url_split:
  assumes H: "length H = 7" and b: "b \<noteq> []" "CHR ''/'' \<notin> set b" and p: "p = [] \<or> hd p = CHR ''/''"
  shows "(case str_find (CHR ''/'') 8 (H @ b @ p) of
            Some pos \<Rightarrow> (take (pos - 7) (drop 7 (H @ b @ p)), drop pos (H @ b @ p))
          | None \<Rightarrow> (drop 7 (H @ b @ p), ''/'')) = (b, if p = [] then ''/'' else p)"
proof -
  obtain x b' where x: "b = x # b'" using b(1) by (cases b) auto
  show ?thesis
  proof (cases p)
    case Nil
    have "str_find (CHR ''/'') 8 (H @ b @ p) = None"
      using b(2) by (intro str_find_none) (simp add: Nil x H)
    then show ?thesis unfolding Nil using H by simp
  next
    case (Cons y p')
    with p have y: "y = CHR ''/''" by simp
    have "str_find (CHR ''/'') 8 (H @ b @ p) = Some (8 + length b')"
      using str_find_here [of "CHR ''/''" b' 8 "H @ [x]" p'] b(2) H by (simp add: Cons y x)
    then show ?thesis using H by (simp add: Cons x)
  qed
qed

lemma url_port_default: "length H = 7 \<Longrightarrow> plain_chars h \<Longrightarrow> plain_chars p \<Longrightarrow> h \<noteq> [] \<Longrightarrow> url_port (H @ h @ p) = 80"
proof -
  assume a: "length H = 7" "plain_chars h" "plain_chars p" "h \<noteq> []"
  have "str_find (CHR '':'') 8 (H @ h @ p) = None"
    using a by (intro str_find_none, cases h) (auto simp: plain_chars_def dest: in_set_dropD)
  then show ?thesis by (simp add: url_port_def)
qed

lemma url_port_given:
  assumes h: "h \<noteq> []" "plain_chars h" and p: "p = [] \<or> hd p = CHR ''/''"
    and ds: "\<forall>c \<in> set ds. is_digit c" and H: "length H = 7"
  shows "url_port (H @ h @ CHR '':'' # ds @ p) = word_of_int (atoi ds)"
proof -
  let ?u = "H @ h @ CHR '':'' # ds @ p"
  obtain x h' where x: "h = x # h'" using h(1) by (cases h) auto
  have c: "str_find (CHR '':'') 8 ?u = Some (7 + length h)"
    using str_find_here [of "CHR '':''" h' 8 "H @ [x]" "ds @ p"] h(2) H by (auto simp: x plain_chars_def)
  have sl: "CHR ''/'' \<notin> set ds" using ds by (auto simp: is_digit_def)
  have l: "drop (7 + length h + 1) ?u = ds @ p" using H by simp
  have "(case str_find (CHR ''/'') (7 + length h + 1) ?u of
           None \<Rightarrow> drop (7 + length h + 1) ?u
         | Some pos1 \<Rightarrow> take (pos1 - (7 + length h + 1)) (drop (7 + length h + 1) ?u)) = ds"
  proof (cases p)
    case Nil
    have "str_find (CHR ''/'') (7 + length h + 1) ?u = None" using sl by (intro str_find_none) (simp add: Nil H)
    then show ?thesis unfolding l by (simp add: Nil)
  next
    case (Cons y p')
    with p have y: "y = CHR ''/''" by simp
    have "str_find (CHR ''/'') (7 + length h + 1) ?u = Some (7 + length h + 1 + length ds)"
      using str_find_here [of "CHR ''/''" ds "7 + length h + 1" "H @ h @ [CHR '':'']" p'] sl H by (simp add: Cons y)
    then show ?thesis unfolding l by simp
  qed
  then show ?thesis unfolding url_port_def c option.case Let_def by (simp only: filter_digits [OF ds])
qed

lemma str_find_in_host: "CHR '':'' \<notin> set h \<Longrightarrow> str_find (CHR '':'') 0 (h @ CHR '':'' # ds) = Some (length h)"
  using str_find_here [of "CHR '':''" h 0 "[]" ds] by simp

lemma ParseURL_body:
  assumes u: "s = ''http://'' @ b @ p" and b: "b \<noteq> []" "CHR ''/'' \<notin> set b" and p: "p = [] \<or> hd p = CHR ''/''"
    and c: "\<forall>c \<in> set (b @ p). c \<noteq> CHR '' '' \<and> c \<noteq> CHR 0x5C"
  shows "ParseURL (replicate m (CHR '' '') @ s @ replicate n (CHR '' ''))
    = Inr (Some (case str_find (CHR '':'') 0 b of None \<Rightarrow> b | Some pos \<Rightarrow> take pos b, url_port s, if p = [] then ''/'' else p))"
proof -
  have "last s = last (b @ p)" using b(1) by (simp add: u)
  moreover have "last (b @ p) \<in> set (b @ p)" using b(1) by (intro last_in_set) simp
  ultimately have "last s \<noteq> CHR '' ''" using c by metis
  then have t: "trim_blanks (replicate m (CHR '' '') @ s @ replicate n (CHR '' '')) = Inr s"
    by (intro trim_blanks_around) (simp_all add: u)
  have e: "concat (map url_char s) = s"
    using c by (intro plain_url_chars) (auto simp: u)
  have h: "\<not> take 7 s \<noteq> ''http://''" by (simp add: u)
  have l7: "length ''http://'' = 7" by simp
  note sp = url_split [OF l7 b p, folded u]
  show ?thesis unfolding ParseURL_def t Let_def
    by (simp only: bindE_simps e h if_False sp prod.case)
qed



text \<open>Where it is not what was meant: a colon in the path is taken for the port; a blank text is a fault.\<close>

lemma port_from_path: "ParseURL ''http://node1/a:81/b'' = Inr (Some (''node1'', 81, ''/a:81/b''))"
  by code_simp

lemma blank_url_faults: "ParseURL (replicate n (CHR '' '')) = Inl Out_Of_Bounds"
  by (simp add: ParseURL_def trim_blanks_def)

text \<open>
  The hardware address: on success it is one of the interfaces', neither all zeros nor all ones; each
  refused query before it leaves a socket open.
\<close>

lemma mac_passes_result:
  "mac_passes l out ok = Inr (b, r, lf) \<Longrightarrow> length b = length out
    \<and> (r \<longrightarrow> ok \<and> b = out \<or> (\<exists>fd bs. Hw_Address fd bs \<in> set l \<and> c_str_of b = c_str_of (mac_text bs)))
    \<and> set lf \<subseteq> {fd. Hw_Refused fd \<in> set l}"
proof (induction l arbitrary: out ok b r lf)
  case Nil
  then show ?case by simp
next
  case (Cons h hs)
  show ?case
  proof (cases h)
    case No_Socket
    with Cons show ?thesis by auto
  next
    case (Hw_Refused fd)
    with Cons.prems obtain lf' where "mac_passes hs out ok = Inr (b, r, lf')" "lf = fd # lf'"
      by (auto simp: bindE_Inr_iff)
    with Cons.IH [OF this(1)] Hw_Refused show ?thesis by auto
  next
    case (Hw_Address fd bs)
    have st: "length b' = length out \<and> c_str_of b' = c_str_of (mac_text bs)" if "put_cstr out (mac_text bs) = Inr b'" for b'
      using that by (auto simp: put_cstr_def storeE_def blit_def c_str_of_def takeWhile_append takeWhile_eq_all_conv [THEN iffD2] split: if_splits)
    from Hw_Address Cons.prems obtain b' where b': "put_cstr out (mac_text bs) = Inr b'"
      "(if \<not> has_substr MAC_ZERO (mac_text bs) then Inr (b', True, []) else mac_passes hs b' True) = Inr (b, r, lf)"
      by (auto simp: bindE_Inr_iff)
    show ?thesis
    proof (cases "has_substr MAC_ZERO (mac_text bs)")
      case True
      with b'(2) have "mac_passes hs b' True = Inr (b, r, lf)" by simp
      from Cons.IH [OF this] st [OF b'(1)] Hw_Address show ?thesis by auto
    next
      case False
      with b'(2) have "b = b'" "lf = []" by simp_all
      with st [OF b'(1)] Hw_Address show ?thesis by auto
    qed
  qed
qed


lemma mac_address_result:
  assumes "getMacAddress ifs out = Inr (b, r, lf)"
  shows "if r then \<exists>l fd bs. ifs = Some l \<and> Hw_Address fd bs \<in> set l \<and> c_str_of b = c_str_of (mac_text bs) \<and> mac_usable (c_str_of b)
    else c_str_of b = []"
proof (cases r)
  case True
  then have g: "getLogicalMacAddress ifs out = Inr (b, True, lf)" and u: "mac_usable (c_str_of b)"
    using assms by (auto simp: getMacAddress_def getPhysicalMacAddress_def bindE_Inr_iff split: if_splits)
  from g obtain l where l: "ifs = Some l" "mac_passes (rev l) out False = Inr (b, True, lf)"
    by (auto simp: getLogicalMacAddress_def split: option.splits)
  with mac_passes_result [OF l(2)] u True show ?thesis by auto
next
  case False
  then obtain b0 where "storeE b0 0 [NUL] = Inr b"
    using assms by (auto simp: getMacAddress_def getPhysicalMacAddress_def bindE_Inr_iff split: if_splits)
  with False show ?thesis by (auto simp: storeE_def blit_def c_str_of_def split: if_splits)
qed

end
