(* ===== verification/Net_Http.thy ===== *)
theory Net_Http
  imports Net_Aux
begin

text \<open>
  The requests of \<^verbatim>\<open>etransfer/NetAux.cpp\<close>: \<^verbatim>\<open>HttpPost\<close>, \<^verbatim>\<open>HttpGet\<close> and \<^verbatim>\<open>HttpHead\<close> over a blocking
  socket. \<^verbatim>\<open>CUtility::parseHttpHead\<close>, \<^verbatim>\<open>HTTP_HEAD_ITEM\<close> and \<^verbatim>\<open>_snprintf\<close> are not in the repository: the
  parser and the formatting are arguments, and of the structure only the members read here are kept.
\<close>

section \<open>Requests\<close>

definition MAX_PATH :: nat where
  "MAX_PATH = 255"

definition CRLF :: string where
  "CRLF = [CHR 0x0D, CHR 0x0A]"

definition post_head :: "string \<Rightarrow> string \<Rightarrow> nat \<Rightarrow> string" where
  "post_head remotePath hostName len =
     ''POST '' @ c_str_of remotePath @ '' HTTP/1.1'' @ CRLF @ ''Host: '' @ c_str_of hostName @ CRLF
     @ ''User-Agent: Mozilla/4.0'' @ CRLF @ ''Content-Length: '' @ show_int (int len) @ CRLF
     @ ''Content-Type: text/plain'' @ CRLF @ ''Connection: Keep-Alive'' @ CRLF @ ''Accept: */*'' @ CRLF @ CRLF"

definition get_head :: "string \<Rightarrow> string \<Rightarrow> string" where
  "get_head remotePath hostName =
     ''GET '' @ c_str_of remotePath @ '' HTTP/1.1'' @ CRLF @ ''Host: '' @ c_str_of hostName @ CRLF
     @ ''User-Agent: Mozilla/4.0'' @ CRLF @ ''Connection: Keep-Alive'' @ CRLF @ ''Accept: */*'' @ CRLF @ CRLF"

definition head_head :: "string \<Rightarrow> string \<Rightarrow> string" where
  "head_head remotePath hostName =
     ''HEAD '' @ c_str_of remotePath @ '' HTTP/1.1'' @ CRLF @ ''Host: '' @ c_str_of hostName @ CRLF
     @ ''User-Agent: Mozilla/4.0'' @ CRLF @ ''Connection: Close'' @ CRLF @ ''Accept: */*'' @ CRLF @ CRLF"

text \<open>The answers of the system during one request; \<open>h_snprintf n t\<close> is what \<^verbatim>\<open>_snprintf\<close> stores of \<open>t\<close>.\<close>

record http_os =
  h_new :: csock
  h_open :: open_os
  h_resolver :: resolver
  h_connect :: "32 word \<Rightarrow> 16 word \<Rightarrow> int"
  h_snprintf :: "nat \<Rightarrow> string \<Rightarrow> string"
  h_send :: "nat \<Rightarrow> int \<Rightarrow> char list \<Rightarrow> send_answer"
  h_recv :: "nat \<Rightarrow> int \<Rightarrow> nat \<Rightarrow> recv_answer"

text \<open>\<^verbatim>\<open>tcp.Bind(0)\<close>, its result ignored, and \<^verbatim>\<open>tcp.Connect(resolveHostName(\<dots>), port)\<close> on a new object.\<close>

definition http_connect :: "http_os \<Rightarrow> string \<Rightarrow> 16 word \<Rightarrow> csock \<times> bool" where
  "http_connect os hostName port =
     (case sk_Bind (h_open os) 0 (h_new os) of
        (c, r, f) \<Rightarrow> sk_Connect (h_connect os) (uint (resolveHostName (h_resolver os) (c_str_of hostName))) port c)"

text \<open>The loops around \<^verbatim>\<open>send\<close>; the result is what went out and what is left.\<close>

function http_send :: "(nat \<Rightarrow> int \<Rightarrow> char list \<Rightarrow> send_answer) \<Rightarrow> int \<Rightarrow> nat \<Rightarrow> char list \<Rightarrow> char list \<times> char list" where
  "http_send os fd k rest =
     (if rest = [] then ([], [])
      else case os k fd rest of
        Send_Failed e \<Rightarrow> ([], rest)
      | Sent m \<Rightarrow>
          if min m (length rest) = 0 then ([], rest)
          else case http_send os fd (Suc k) (drop m rest) of (sent, r) \<Rightarrow> (take m rest @ sent, r))"
  by pat_completeness auto

termination
  by (relation "measure (\<lambda>(os, fd, k, rest). length rest)") auto

declare http_send.simps [simp del]

section \<open>\<^verbatim>\<open>HttpPost\<close>\<close>

text \<open>
  The result of \<^verbatim>\<open>ParseURL\<close> is not looked at; \<open>port0\<close> is what the variable held. The answer to the request
  is read into the buffer, which has room for it, and dropped. The result is what went out and the value
  returned.
\<close>

definition HttpPost :: "http_os \<Rightarrow> 16 word \<Rightarrow> string \<Rightarrow> char list \<Rightarrow> (char list \<times> bool) res" where
  "HttpPost os port0 url pBuffer =
     bindE (ParseURL url) (\<lambda>u.
       let (hostName, port, remotePath) = (case u of None \<Rightarrow> ([], port0, []) | Some x \<Rightarrow> x);
           port = (if port = 0 then 80 else port);
           (tcp, ok) = http_connect os hostName port
       in if \<not> ok then Inr ([], False)
          else
            bindE (storeE (replicate (MAX_PATH + length pBuffer) NUL) 0
                     (h_snprintf os (MAX_PATH - 1) (post_head remotePath hostName (length pBuffer)))) (\<lambda>buf.
            let buf_len = length (c_str_of buf) in
            bindE (storeE buf buf_len pBuffer) (\<lambda>buf.
              case http_send (h_send os) (sockFD tcp) 0 (take (buf_len + length pBuffer) buf) of
                (sent, rest) \<Rightarrow> Inr (sent, rest = []))))"

section \<open>\<^verbatim>\<open>HttpGet\<close>\<close>

record http_head =
  Response :: int
  ContentLength :: int
  bodyPos :: int
  Location :: string

type_synonym http_parser = "string \<Rightarrow> http_head \<Rightarrow> bool \<times> http_head"

text \<open>
  The loop that waits for the rest of the body. A call that fails answers -1, which is added to the count
  like any other.
\<close>

partial_function (option) http_body_loop ::
  "(nat \<Rightarrow> int \<Rightarrow> nat \<Rightarrow> recv_answer) \<Rightarrow> int \<Rightarrow> nat \<Rightarrow> int \<Rightarrow> nat \<Rightarrow> char list \<Rightarrow> int \<Rightarrow> (char list \<times> bool) res option" where
  "http_body_loop os fd outLen whole k out recved =
     (if recved < whole then
        (case os k fd (nat (int outLen - 1 - recved)) of
           Recv_Failed e \<Rightarrow> http_body_loop os fd outLen whole (Suc k) out (recved - 1)
         | Received d \<Rightarrow>
             (if take (nat (int outLen - 1 - recved)) d = [] then Some (Inr (out, recved = whole))
              else if recved < 0 then Some (Inl Out_Of_Bounds)
              else (case storeE out (nat recved) (take (nat (int outLen - 1 - recved)) d) of
                      Inl e \<Rightarrow> Some (Inl e)
                    | Inr b \<Rightarrow> http_body_loop os fd outLen whole (Suc k) b
                                 (recved + int (length (take (nat (int outLen - 1 - recved)) d))))))
      else Some (Inr (out, True)))"

text \<open>
  A request whose first answer is an error writes before its buffer. \<open>None\<close> is a request that does not end.
  An \<open>outLen\<close> of 0 asks \<^verbatim>\<open>recv\<close> for as many bytes as there are.
\<close>

definition http_fail :: "char list \<Rightarrow> string \<Rightarrow> http_head \<Rightarrow> (char list \<times> bool \<times> http_head) res option" where
  "http_fail out msg h = Some (bindE (put_cstr out msg) (\<lambda>b. Inr (b, False, h)))"

definition http_get_reply ::
  "http_os \<Rightarrow> http_parser \<Rightarrow> int \<Rightarrow> char list \<Rightarrow> nat \<Rightarrow> http_head \<Rightarrow> (char list \<times> bool \<times> http_head) res option" where
  "http_get_reply os parse fd out outLen h =
     (case storeE out 0 (replicate outLen NUL) of
        Inl e \<Rightarrow> Some (Inl e)
      | Inr out \<Rightarrow>
          if outLen = 0 then Some (Inl Buffer_Overflow)
          else case h_recv os 0 fd (outLen - 1) of
            Recv_Failed e \<Rightarrow> Some (Inl Out_Of_Bounds)
          | Received d \<Rightarrow>
              let got = take (outLen - 1) d in
              if got = [] then http_fail out ''first recv err!'' h
              else case storeE out 0 (got @ [NUL]) of
                Inl e \<Rightarrow> Some (Inl e)
              | Inr out \<Rightarrow>
                  (case parse (c_str_of out) h of
                     (r, h) \<Rightarrow>
                       if \<not> r \<or> Response h \<noteq> 200 then http_fail out ''parseHttpHead err,or response not 200!'' h
                       else if ContentLength h + bodyPos h \<ge> int outLen then http_fail out ''output buf is small!'' h
                       else map_option (\<lambda>x. bindE x (\<lambda>(b, r). Inr (b, r, h)))
                              (http_body_loop (h_recv os) fd outLen (ContentLength h + bodyPos h) 1 out (int (length got)))))"

definition HttpGet ::
  "http_os \<Rightarrow> http_parser \<Rightarrow> string \<Rightarrow> char list \<Rightarrow> nat \<Rightarrow> http_head \<Rightarrow> (char list \<times> bool \<times> http_head) res option" where
  "HttpGet os parse url pOut outLen h =
     (case ParseURL url of
        Inl e \<Rightarrow> Some (Inl e)
      | Inr None \<Rightarrow> http_fail pOut ''ParseURL failed!'' h
      | Inr (Some (hostName, port, remotePath)) \<Rightarrow>
          let port = (if port = 0 then 80 else port);
              (tcp, ok) = http_connect os hostName port
          in if \<not> ok then http_fail pOut ''Connect err!'' h
             else case storeE (replicate 4096 NUL) 0 (h_snprintf os (MAX_PATH - 1) (get_head remotePath hostName)) of
               Inl e \<Rightarrow> Some (Inl e)
             | Inr buf \<Rightarrow>
                 if snd (http_send (h_send os) (sockFD tcp) 0 (c_str_of buf)) \<noteq> []
                 then Some (Inr (pOut, False, h))
                 else http_get_reply os parse (sockFD tcp) pOut outLen h)"

section \<open>\<^verbatim>\<open>HttpHead\<close>\<close>

datatype head_end = Head_Returns bool http_head | Head_Redirect http_head

text \<open>
  The loop of one request: the answer goes over the request, into the same 4096 bytes. Each pass that goes
  on has received something, and there is always room for the final NUL.
\<close>

function http_head_loop ::
  "(nat \<Rightarrow> int \<Rightarrow> nat \<Rightarrow> recv_answer) \<Rightarrow> http_parser \<Rightarrow> int \<Rightarrow> nat \<Rightarrow> char list \<Rightarrow> nat \<Rightarrow> http_head \<Rightarrow> head_end res" where
  "http_head_loop os parse fd k buf recved h =
     (if recved = 0 \<or> int recved < ContentLength h + bodyPos h then
        (let n = 4096 - recved - 1 in
         case os k fd n of
           Recv_Failed e \<Rightarrow> Inr (Head_Returns False h)
         | Received d \<Rightarrow>
             if take n d = [] then Inr (Head_Returns False h)
             else
               (case storeE buf recved (take n d @ [NUL]) of
                  Inl e \<Rightarrow> Inl e
                | Inr b \<Rightarrow>
                    (case parse (c_str_of b) h of
                       (r, h) \<Rightarrow>
                         if \<not> r then http_head_loop os parse fd (Suc k) b (recved + length (take n d)) h
                         else if Response h = 200 then Inr (Head_Returns True h)
                         else if Response h = 301 \<or> Response h = 302 then Inr (Head_Redirect h)
                         else http_head_loop os parse fd (Suc k) b (recved + length (take n d)) h)))
      else Inr (Head_Returns True h))"
  by pat_completeness auto

termination
  by (relation "measure (\<lambda>(os, parse, fd, k, buf, recved, h). 4096 - recved)")
    (auto simp flip: length_greater_0_conv)

declare http_head_loop.simps [simp del]

definition zero_head :: http_head where
  "zero_head = \<lparr>Response = 0, ContentLength = 0, bodyPos = 0, Location = []\<rparr>"

definition http_head_request :: "http_os \<Rightarrow> http_parser \<Rightarrow> string \<Rightarrow> http_head \<Rightarrow> head_end res" where
  "http_head_request os parse url h =
     bindE (ParseURL url) (\<lambda>u.
       case u of
         None \<Rightarrow> Inr (Head_Returns False h)
       | Some (hostName, port, remotePath) \<Rightarrow>
           let port = (if port = 0 then 80 else port);
               (tcp, ok) = http_connect os hostName port
           in if \<not> ok then Inr (Head_Returns False h)
              else
                bindE (storeE (replicate 4096 NUL) 0 (h_snprintf os (MAX_PATH - 1) (head_head remotePath hostName))) (\<lambda>buf.
                  if snd (http_send (h_send os) (sockFD tcp) 0 (c_str_of buf)) \<noteq> [] then Inr (Head_Returns False h)
                  else http_head_loop (h_recv os) parse (sockFD tcp) 0 buf 0 zero_head))"

text \<open>Each redirection is a call within the call, with a socket of its own; \<open>j\<close> counts them.\<close>

partial_function (option) HttpHead ::
  "(nat \<Rightarrow> http_os) \<Rightarrow> http_parser \<Rightarrow> nat \<Rightarrow> string \<Rightarrow> http_head \<Rightarrow> (bool \<times> http_head) res option" where
  "HttpHead os parse j url h =
     (case http_head_request (os j) parse url h of
        Inl e \<Rightarrow> Some (Inl e)
      | Inr (Head_Returns r h') \<Rightarrow> Some (Inr (r, h'))
      | Inr (Head_Redirect h') \<Rightarrow> HttpHead os parse (Suc j) (Location h') h')"


section \<open>What a request does\<close>

text \<open>\<^verbatim>\<open>_snprintf\<close> stores a text that is shorter than the bound, and never more than the bound.\<close>

definition snprintf_ok :: "(nat \<Rightarrow> string \<Rightarrow> string) \<Rightarrow> bool" where
  "snprintf_ok f \<longleftrightarrow> (\<forall>n t. (length t < n \<longrightarrow> f n t = t) \<and> (\<exists>k \<le> n. f n t = take k t))"

lemma snprintf_le: "snprintf_ok f \<Longrightarrow> length (f n t) \<le> n"
  unfolding snprintf_ok_def by (metis length_take min.coboundedI2 order.trans min.cobounded2)

lemma snprintf_take: "snprintf_ok f \<Longrightarrow> \<exists>k \<le> n. f n t = take k t"
  by (simp add: snprintf_ok_def)

lemma http_send_all: "http_send os fd k rest = (sent, r) \<Longrightarrow> sent @ r = rest"
proof (induction os fd k rest arbitrary: sent r rule: http_send.induct)
  case (1 os fd k rest)
  show ?case
  proof (cases "rest = []")
    case True
    with 1(2) show ?thesis by (simp add: http_send.simps [of os fd k "[]"])
  next
    case ne: False
    show ?thesis
    proof (cases "os k fd rest")
      case (Send_Failed e)
      with 1(2) ne show ?thesis by (simp add: http_send.simps [of os fd k rest])
    next
      case (Sent m)
      obtain s' r' where s: "http_send os fd (Suc k) (drop m rest) = (s', r')" by (cases "http_send os fd (Suc k) (drop m rest)")
      show ?thesis
      proof (cases "min m (length rest) = 0")
        case True
        with 1(2) ne Sent show ?thesis by (simp add: http_send.simps [of os fd k rest])
      next
        case False
        with 1(2) ne Sent s have "sent = take m rest @ s'" "r = r'" by (auto simp: http_send.simps [of os fd k rest] split: if_splits)
        with 1(1) [OF ne Sent False s] show ?thesis by simp
      qed
    qed
  qed
qed

lemma http_send_complete:
  assumes "\<And>k rest. rest \<noteq> [] \<Longrightarrow> \<not> takes_nothing (os k fd rest)"
  shows "http_send os fd k rest = (rest, [])"
proof (induction "length rest" arbitrary: k rest rule: less_induct)
  case less
  show ?case
  proof (cases "rest = []")
    case True
    then show ?thesis by (simp add: http_send.simps [of os fd k "[]"])
  next
    case False
    then obtain m where m: "os k fd rest = Sent m" "m \<noteq> 0"
      using assms [of rest k] by (cases "os k fd rest") (auto simp: takes_nothing_def)
    have "http_send os fd (Suc k) (drop m rest) = (drop m rest, [])" using False m(2) by (intro less) simp
    then show ?thesis using False m by (simp add: http_send.simps [of os fd k rest])
  qed
qed

lemma c_str_of_no_nul: "no_nul (c_str_of s)"
  by (auto simp: no_nul_def c_str_of_def dest: set_takeWhileD)

lemma heads_no_nul:
  "no_nul (post_head p h n)" "no_nul (get_head p h)" "no_nul (head_head p h)"
  using c_str_of_no_nul [of p] c_str_of_no_nul [of h] no_nul_show_int [of "int n"]
  by (simp_all add: no_nul_def post_head_def get_head_def head_head_def CRLF_def NUL_def)

text \<open>A formatted request in a zeroed buffer, read back as a string.\<close>

lemma request_in_buffer:
  assumes f: "snprintf_ok f" and t: "no_nul t" and n: "n < sz"
  obtains k where "k \<le> n" "length t < n \<Longrightarrow> take k t = t"
    "storeE (replicate sz NUL) 0 (f n t) = Inr (take k t @ replicate (sz - length (take k t)) NUL)"
    "c_str_of (take k t @ replicate (sz - length (take k t)) NUL) = take k t"
proof -
  obtain k where k: "k \<le> n" "f n t = take k t" using snprintf_take [OF f] by blast
  have "no_nul (take k t)" using t by (auto simp: no_nul_def dest: in_set_takeD)
  moreover obtain m where "sz - length (take k t) = Suc m" using k(1) n by (cases "sz - length (take k t)") auto
  ultimately have "c_str_of (take k t @ replicate (sz - length (take k t)) NUL) = take k t"
    using c_str_of_append [of "take k t" "replicate m NUL"] by simp
  moreover have "storeE (replicate sz NUL) 0 (f n t) = Inr (take k t @ replicate (sz - length (take k t)) NUL)"
    using k n by (auto simp: storeE_def blit_def)
  moreover have "length t < n \<Longrightarrow> take k t = t" using f k(2) by (metis snprintf_ok_def)
  ultimately show ?thesis using k(1) that by blast
qed

lemma http_post_delivers:
  assumes f: "snprintf_ok (h_snprintf os)" and u: "ParseURL url = Inr (Some (host, port, path))"
    and c: "http_connect os host (if port = 0 then 80 else port) = (tcp, True)"
  shows "\<exists>k sent rest. HttpPost os port0 url body = Inr (sent, rest = []) \<and> k < MAX_PATH
    \<and> sent @ rest = take k (post_head path host (length body)) @ body
    \<and> (length (post_head path host (length body)) < MAX_PATH - 1 \<longrightarrow> take k (post_head path host (length body)) = post_head path host (length body))"
proof -
  let ?t = "post_head path host (length body)"
  have n: "MAX_PATH - 1 < MAX_PATH + length body" by (simp add: MAX_PATH_def)
  from request_in_buffer [OF f heads_no_nul(1) n, of path host "length body"] obtain k where k: "k \<le> MAX_PATH - 1"
    "length ?t < MAX_PATH - 1 \<Longrightarrow> take k ?t = ?t"
    "storeE (replicate (MAX_PATH + length body) NUL) 0 (h_snprintf os (MAX_PATH - 1) ?t)
      = Inr (take k ?t @ replicate (MAX_PATH + length body - length (take k ?t)) NUL)"
    "c_str_of (take k ?t @ replicate (MAX_PATH + length body - length (take k ?t)) NUL) = take k ?t" by blast
  let ?b = "take k ?t @ replicate (MAX_PATH + length body - length (take k ?t)) NUL"
  have l: "length (take k ?t) + length body \<le> length ?b" using k(1) by (simp add: MAX_PATH_def)
  then have st: "storeE ?b (length (take k ?t)) body = Inr (blit ?b (length (take k ?t)) body)" by (simp only: storeE_def if_True)
  have bl: "take (length (take k ?t) + length body) (blit ?b (length (take k ?t)) body) = take k ?t @ body"
    by (simp add: blit_def) (simp add: min_def)
  obtain sent rest where s: "http_send (h_send os) (sockFD tcp) 0 (take k ?t @ body) = (sent, rest)" by fastforce
  have "HttpPost os port0 url body = Inr (sent, rest = [])"
    unfolding HttpPost_def u bindE_simps option.case Let_def prod.case c k(3) k(4) st bl s by simp
  moreover have "k < MAX_PATH" using k(1) by (simp add: MAX_PATH_def)
  ultimately show ?thesis using http_send_all [OF s] k(2) by blast
qed

section \<open>Waiting for the body\<close>

text \<open>From some call on every receipt fails: the loop does not end.\<close>

lemma http_body_never_ends:
  assumes "\<forall>i n. i \<ge> k \<longrightarrow> (\<exists>e. os i fd n = Recv_Failed e)" and "recved < whole"
  shows "http_body_loop os fd outLen whole k out recved = None"
proof -
  let ?stuck = "\<lambda>os fd (whole :: int) k recved. (\<forall>i n. i \<ge> k \<longrightarrow> (\<exists>e. os i fd n = Recv_Failed e)) \<and> recved < whole"
  have "\<not> ?stuck os fd whole k recved" if ret: "http_body_loop os fd outLen whole k out recved = Some r" for r
  proof (rule http_body_loop.raw_induct [where P = "\<lambda>os fd outLen whole k out recved r. \<not> ?stuck os fd whole k recved", OF _ ret])
    fix loop os fd outLen and whole recved :: int and k out r
    assume IH: "\<And>os fd outLen whole k out recved r. loop os fd outLen whole k out recved = Some r \<Longrightarrow> \<not> ?stuck os fd whole k recved"
      and body: "(if recved < whole then
        (case os k fd (nat (int outLen - 1 - recved)) of
           Recv_Failed e \<Rightarrow> loop os fd outLen whole (Suc k) out (recved - 1)
         | Received d \<Rightarrow>
             (if take (nat (int outLen - 1 - recved)) d = [] then Some (Inr (out, recved = whole))
              else if recved < 0 then Some (Inl Out_Of_Bounds)
              else (case storeE out (nat recved) (take (nat (int outLen - 1 - recved)) d) of
                      Inl e \<Rightarrow> Some (Inl e)
                    | Inr b \<Rightarrow> loop os fd outLen whole (Suc k) b
                                 (recved + int (length (take (nat (int outLen - 1 - recved)) d))))))
      else Some (Inr (out, True))) = Some r"
    show "\<not> ?stuck os fd whole k recved"
    proof
      assume a: "?stuck os fd whole k recved"
      then obtain e where "os k fd (nat (int outLen - 1 - recved)) = Recv_Failed e" by blast
      with body a have "loop os fd outLen whole (Suc k) out (recved - 1) = Some r" by simp
      from IH [OF this] a show False by auto
    qed
  qed
  with assms show ?thesis by (cases "http_body_loop os fd outLen whole k out recved") auto
qed

text \<open>While receipts do not fail, the body is put together in order.\<close>

lemma http_body_loop_spec:
  assumes rcv: "\<And>i n. \<exists>d. os i fd n = Received d" and w: "whole < int outLen" and l: "length out = outLen" and r: "recved \<le> outLen - 1" "0 < outLen"
  shows "\<exists>ds. http_body_loop os fd outLen whole k out (int recved)
      = Some (Inr (blit out recved (concat ds), whole \<le> int (recved + length (concat ds))))
    \<and> received os fd k ds \<and> recved + length (concat ds) \<le> outLen - 1"
  using l r(1)
proof (induction "nat (whole - int recved)" arbitrary: k out recved rule: less_induct)
  case less
  note step = http_body_loop.simps [of os fd outLen whole k out "int recved"]
  show ?case
  proof (cases "int recved < whole")
    case False
    then show ?thesis using less.prems
      by (intro exI [of _ "[]"]) (simp add: step received_def blit_def)
  next
    case True
    let ?n = "nat (int outLen - 1 - int recved)"
    obtain d where d: "os k fd ?n = Received d" using rcv by blast
    show ?thesis
    proof (cases "take ?n d = []")
      case none: True
      have "http_body_loop os fd outLen whole k out (int recved) = Some (Inr (out, False))"
        unfolding step d recv_answer.case none using True by simp
      then show ?thesis using True less.prems
        by (intro exI [of _ "[]"]) (simp add: received_def blit_def)
    next
      case some: False
      let ?d = "take ?n d"
      have ln: "recved + length ?d \<le> outLen - 1" using less.prems(2) r(2) by simp
      have st: "storeE out recved ?d = Inr (blit out recved ?d)" using ln less.prems(1) r(2) by (simp add: storeE_def)
      have loop: "http_body_loop os fd outLen whole k out (int recved)
          = http_body_loop os fd outLen whole (Suc k) (blit out recved ?d) (int (recved + length ?d))"
        unfolding step d recv_answer.case using some True by (simp add: st)
      have "0 < length ?d" using some by blast
      then have lt: "nat (whole - int (recved + length ?d)) < nat (whole - int recved)" using True by linarith
      have lb: "length (blit out recved ?d) = outLen" using ln less.prems(1) r(2) by (simp add: blit_def)
      from less.hyps [OF lt lb ln, of "Suc k"] obtain ds where ds:
        "http_body_loop os fd outLen whole (Suc k) (blit out recved ?d) (int (recved + length ?d))
          = Some (Inr (blit (blit out recved ?d) (recved + length ?d) (concat ds), whole \<le> int (recved + length ?d + length (concat ds))))"
        "received os fd (Suc k) ds" "recved + length ?d + length (concat ds) \<le> outLen - 1" by blast
      have "recved + length ?d + length (concat ds) \<le> length out" using ds(3) less.prems(1) by linarith
      from blit_blit_next [OF this] have bl: "blit (blit out recved ?d) (recved + length ?d) (concat ds) = blit out recved (concat (?d # ds))"
        by (simp only: concat.simps)
      have sum: "recved + length ?d + length (concat ds) = recved + length (concat (?d # ds))" by (simp only: concat.simps length_append add.assoc)
      have "received os fd k (?d # ds)" using received_Cons [OF d some ds(2)] .
      with ds(1,3) show ?thesis unfolding loop bl sum by blast
    qed
  qed
qed

section \<open>The outcomes of \<^verbatim>\<open>HttpGet\<close>\<close>

text \<open>The request is put together, the connection made, and every \<^verbatim>\<open>send\<close> takes something.\<close>

definition request_goes_out :: "http_os \<Rightarrow> string \<Rightarrow> csock \<Rightarrow> bool" where
  "request_goes_out os url tcp \<longleftrightarrow>
     snprintf_ok (h_snprintf os)
     \<and> (\<forall>k rest. rest \<noteq> [] \<longrightarrow> \<not> takes_nothing (h_send os k (sockFD tcp) rest))
     \<and> (case ParseURL url of
          Inr (Some (host, port, path)) \<Rightarrow> http_connect os host (if port = 0 then 80 else port) = (tcp, True)
        | _ \<Rightarrow> False)"

lemma request_goes_outE:
  assumes "request_goes_out os url tcp"
  obtains host port path where "ParseURL url = Inr (Some (host, port, path))"
    "http_connect os host (if port = 0 then 80 else port) = (tcp, True)"
  using assms by (auto simp: request_goes_out_def split: sum.splits option.splits)

lemma request_sent:
  "request_goes_out os url tcp \<Longrightarrow> http_send (h_send os) (sockFD tcp) k rest = (rest, [])"
  by (rule http_send_complete) (simp add: request_goes_out_def)

lemma get_reply:
  assumes "request_goes_out os url tcp"
  shows "HttpGet os parse url out outLen h = http_get_reply os parse (sockFD tcp) out outLen h"
proof -
  from assms obtain host port path where u: "ParseURL url = Inr (Some (host, port, path))"
    and c: "http_connect os host (if port = 0 then 80 else port) = (tcp, True)" by (rule request_goes_outE)
  have f: "snprintf_ok (h_snprintf os)" using assms by (simp add: request_goes_out_def)
  have n: "MAX_PATH - 1 < 4096" by (simp add: MAX_PATH_def)
  from request_in_buffer [OF f heads_no_nul(2) n, of path host] obtain b where
    b: "storeE (replicate 4096 NUL) 0 (h_snprintf os (MAX_PATH - 1) (get_head path host)) = Inr b" by blast
  show ?thesis unfolding HttpGet_def u sum.case option.case prod.case Let_def c b request_sent [OF assms] by simp
qed

lemma first_receipt:
  assumes "length out = outLen" and "got \<noteq> []" and "length got < outLen"
  defines "b \<equiv> blit (replicate outLen NUL) 0 got"
  shows "storeE out 0 (replicate outLen NUL) = Inr (replicate outLen NUL)"
    and "storeE (replicate outLen NUL) 0 (got @ [NUL]) = Inr b"
    and "c_str_of b = c_str_of got" and "length b = outLen"
proof -
  show "storeE out 0 (replicate outLen NUL) = Inr (replicate outLen NUL)"
    using assms(1) by (simp add: storeE_def blit_def)
  obtain m where m: "outLen - length got = Suc m" using assms(3) by (cases "outLen - length got") auto
  have b: "b = got @ NUL # replicate m NUL" using assms(3) m by (simp add: b_def blit_def)
  have d: "outLen - Suc (length got) = m" using m by simp
  show "storeE (replicate outLen NUL) 0 (got @ [NUL]) = Inr b"
    using assms(3) d unfolding b by (simp add: storeE_def blit_def)
  show "c_str_of b = c_str_of got" unfolding b c_str_of_def by (simp add: takeWhile_append takeWhile_eq_all_conv [THEN iffD2])
  show "length b = outLen" unfolding b using m assms(3) by simp
qed

text \<open>The first piece has come and its head is accepted.\<close>

definition head_accepted ::
  "http_os \<Rightarrow> int \<Rightarrow> http_parser \<Rightarrow> nat \<Rightarrow> http_head \<Rightarrow> char list \<Rightarrow> http_head \<Rightarrow> bool" where
  "head_accepted os fd parse outLen h d h' \<longleftrightarrow>
     1 < outLen \<and> d \<noteq> [] \<and> h_recv os 0 fd (outLen - 1) = Received d
     \<and> parse (c_str_of (take (outLen - 1) d)) h = (True, h') \<and> Response h' = 200
     \<and> ContentLength h' + bodyPos h' < int outLen"

lemma get_reply_accepted:
  assumes a: "head_accepted os fd parse outLen h d h'" and l: "length out = outLen"
  shows "http_get_reply os parse fd out outLen h =
    map_option (\<lambda>x. bindE x (\<lambda>(b, r). Inr (b, r, h')))
      (http_body_loop (h_recv os) fd outLen (ContentLength h' + bodyPos h') 1
         (blit (replicate outLen NUL) 0 (take (outLen - 1) d)) (int (length (take (outLen - 1) d))))"
proof -
  let ?g = "take (outLen - 1) d"
  have g: "?g \<noteq> []" "length ?g < outLen" using a by (auto simp: head_accepted_def)
  note st = first_receipt [OF l g]
  have p: "parse (c_str_of (blit (replicate outLen NUL) 0 ?g)) h = (True, h')" using a st(3) by (simp add: head_accepted_def)
  have r: "h_recv os 0 fd (outLen - 1) = Received d" "outLen \<noteq> 0" "Response h' = 200" "\<not> int outLen \<le> ContentLength h' + bodyPos h'"
    using a by (auto simp: head_accepted_def)
  show ?thesis unfolding http_get_reply_def st(1) sum.case Let_def r(1) recv_answer.case st(2) p prod.case using r g(1) by simp
qed

text \<open>C40.
  A download that no failing call interrupts puts the answer together. When the first piece brings a head
  that is accepted and the body fits, \<^verbatim>\<open>HttpGet\<close> returns; the caller's buffer then holds the pieces of the
  successive calls joined in order from its start, zeros behind them, never past its last byte; and the result
  is true exactly when head and body have come in full.
\<close>

theorem http_get_complete:
  assumes "request_goes_out os url tcp" and "length out = outLen"
    and "head_accepted os (sockFD tcp) parse outLen h d h'" and "\<And>i n. \<exists>d. h_recv os i (sockFD tcp) n = Received d"
  shows "\<exists>ds. HttpGet os parse url out outLen h
      = Some (Inr (blit (replicate outLen NUL) 0 (concat ds), ContentLength h' + bodyPos h' \<le> int (length (concat ds)), h'))
    \<and> received (h_recv os) (sockFD tcp) 0 ds \<and> length (concat ds) < outLen"
proof -
  let ?g = "take (outLen - 1) d" and ?fd = "sockFD tcp"
  have g: "?g \<noteq> []" "length ?g < outLen" "length ?g \<le> outLen - 1" "0 < outLen"
    and w: "ContentLength h' + bodyPos h' < int outLen" and d: "h_recv os 0 ?fd (outLen - 1) = Received d"
    using assms(3) by (auto simp: head_accepted_def)
  note st = first_receipt [OF assms(2) g(1,2)]
  from http_body_loop_spec [where os = "h_recv os" and fd = "sockFD tcp" and k = 1, OF assms(4) w st(4) g(3,4)] obtain ds where ds:
    "http_body_loop (h_recv os) ?fd outLen (ContentLength h' + bodyPos h') 1 (blit (replicate outLen NUL) 0 ?g) (int (length ?g))
      = Some (Inr (blit (blit (replicate outLen NUL) 0 ?g) (length ?g) (concat ds),
          ContentLength h' + bodyPos h' \<le> int (length ?g + length (concat ds))))"
    "received (h_recv os) ?fd 1 ds" "length ?g + length (concat ds) \<le> outLen - 1" by blast
  have "0 + length ?g + length (concat ds) \<le> length (replicate outLen NUL)" using ds(3) by simp
  from blit_blit_next [OF this] have bl: "blit (blit (replicate outLen NUL) 0 ?g) (length ?g) (concat ds)
      = blit (replicate outLen NUL) 0 (concat (?g # ds))" by (simp only: add_0 concat.simps)
  have sum: "length ?g + length (concat ds) = length (concat (?g # ds))" by (simp only: concat.simps length_append)
  have "HttpGet os parse url out outLen h
      = Some (Inr (blit (replicate outLen NUL) 0 (concat (?g # ds)), ContentLength h' + bodyPos h' \<le> int (length (concat (?g # ds))), h'))"
    unfolding get_reply [OF assms(1)] get_reply_accepted [OF assms(3,2)] ds(1) bl sum by simp
  moreover have "received (h_recv os) ?fd 0 (?g # ds)" using received_Cons [where os = "h_recv os" and fd = ?fd and k = 0 and ds = ds, OF d g(1)] ds(2) by simp
  moreover have "length (concat (?g # ds)) < outLen" using ds(3) g(4) unfolding sum by simp
  ultimately show ?thesis by blast
qed

text \<open>
  An error in place of the first piece is written before the buffer; errors from then on keep the request
  in its loop.
\<close>

lemma http_get_first_fails:
  assumes "request_goes_out os url tcp" and "length out = outLen" and "0 < outLen"
    and "h_recv os 0 (sockFD tcp) (outLen - 1) = Recv_Failed e"
  shows "HttpGet os parse url out outLen h = Some (Inl Out_Of_Bounds)"
  unfolding get_reply [OF assms(1)] http_get_reply_def using assms by (simp add: storeE_def)

lemma http_get_never_returns:
  assumes "request_goes_out os url tcp" and "length out = outLen" and "head_accepted os (sockFD tcp) parse outLen h d h'"
    and "\<forall>i n. i \<ge> 1 \<longrightarrow> (\<exists>e. h_recv os i (sockFD tcp) n = Recv_Failed e)"
    and "int (length (take (outLen - 1) d)) < ContentLength h' + bodyPos h'"
  shows "HttpGet os parse url out outLen h = None"
  unfolding get_reply [OF assms(1)] get_reply_accepted [OF assms(3,2)]
  by (simp only: http_body_never_ends [where os = "h_recv os" and fd = "sockFD tcp", OF assms(4,5)] option.map)

section \<open>The outcomes of \<^verbatim>\<open>HttpHead\<close>\<close>

text \<open>The answer stays in the buffer, whatever comes.\<close>

lemma http_head_loop_in_buffer:
  assumes "length buf = 4096" and "recved < 4096"
  shows "\<exists>e. http_head_loop os parse fd k buf recved h = Inr e"
  using assms
proof (induction os parse fd k buf recved h rule: http_head_loop.induct)
  case (1 os parse fd k buf recved h)
  note step = http_head_loop.simps [of os parse fd k buf recved h]
  show ?case
  proof (cases "recved = 0 \<or> int recved < ContentLength h + bodyPos h")
    case False
    then show ?thesis unfolding step by simp
  next
    case go: True
    let ?n = "4096 - recved - 1"
    show ?thesis
    proof (cases "os k fd ?n")
      case (Recv_Failed e)
      then show ?thesis unfolding step using go by simp
    next
      case (Received d)
      show ?thesis
      proof (cases "take ?n d = []")
        case True
        then show ?thesis unfolding step Let_def Received recv_answer.case using go by simp
      next
        case False
        let ?b = "blit buf recved (take ?n d @ [NUL])"
        have st: "storeE buf recved (take ?n d @ [NUL]) = Inr ?b" using 1(3,4) by (simp add: storeE_def)
        have l: "length ?b = 4096" "recved + length (take ?n d) < 4096" using 1(3,4) by (auto simp: blit_def)
        obtain r h' where p: "parse (c_str_of ?b) h = (r, h')" by fastforce
        note IH = 1(1) [OF go refl Received False st p [symmetric] _ l] 1(2) [OF go refl Received False st p [symmetric] _ _ _ l]
        show ?thesis unfolding step Let_def Received recv_answer.case st p sum.case prod.case
          using go False IH by (auto simp del: take_eq_Nil length_take)
      qed
    qed
  qed
qed

text \<open>A server that redirects an address to itself keeps the client calling itself, with one more socket each time.\<close>

lemma redirects_never_end:
  assumes "\<forall>j h. \<exists>h'. http_head_request (os j) parse url h = Inr (Head_Redirect h') \<and> Location h' = url"
  shows "HttpHead os parse j url h = None"
proof -
  let ?stuck = "\<lambda>os parse url. \<forall>j h. \<exists>h'. http_head_request (os j) parse url h = Inr (Head_Redirect h') \<and> Location h' = url"
  have "\<not> ?stuck os parse url" if ret: "HttpHead os parse j url h = Some r" for r
  proof (rule HttpHead.raw_induct [where P = "\<lambda>os parse j url h r. \<not> ?stuck os parse url", OF _ ret])
    fix call os parse j url h r
    assume IH: "\<And>os parse j url h r. call os parse j url h = Some r \<Longrightarrow> \<not> ?stuck os parse url"
      and body: "(case http_head_request (os j) parse url h of
        Inl e \<Rightarrow> Some (Inl e)
      | Inr (Head_Returns r h') \<Rightarrow> Some (Inr (r, h'))
      | Inr (Head_Redirect h') \<Rightarrow> call os parse (Suc j) (Location h') h') = Some r"
    show "\<not> ?stuck os parse url"
    proof
      assume a: "?stuck os parse url"
      then obtain h' where "http_head_request (os j) parse url h = Inr (Head_Redirect h')" "Location h' = url" by blast
      with body have "call os parse (Suc j) url h' = Some r" by simp
      from IH [OF this] a show False by blast
    qed
  qed
  with assms show ?thesis by (cases "HttpHead os parse j url h") auto
qed

section \<open>Example\<close>

text \<open>An answer of eight bytes, the last three of them the body, in two pieces.\<close>

definition http1 :: http_os where
  "http1 =
     \<lparr>h_new = new_CSockTcp 0 0 0,
      h_open = \<lparr>oo_socket = 5, oo_reuse = 0, oo_nodelay = 0, oo_keepalive = 0, oo_bind = 0\<rparr>,
      h_resolver = \<lparr>rs_inet_addr = (\<lambda>_. 0x0100007F), rs_gethostbyname = (\<lambda>_. None)\<rparr>,
      h_connect = (\<lambda>_ _. 0),
      h_snprintf = (\<lambda>n t. take n t),
      h_send = (\<lambda>_ _ bs. Sent (length bs)),
      h_recv = (\<lambda>k _ _. Received (if k = 0 then ''head.a'' else if k = 1 then ''bc'' else []))\<rparr>"

definition parse1 :: http_parser where
  "parse1 s h = (True, \<lparr>Response = 200, ContentLength = 3, bodyPos = 5, Location = []\<rparr>)"

definition http1_socket :: csock where
  "http1_socket = \<lparr>sockFD = 5, sk_port = 0, bConnected = True, destIP = 2130706433, destPort = 80\<rparr>"

lemma http1_goes_out: "request_goes_out http1 ''http://h/'' http1_socket"
proof -
  have p: "ParseURL ''http://h/'' = Inr (Some (''h'', 80, ''/''))" by code_simp
  have c: "http_connect http1 ''h'' 80 = (http1_socket, True)"
    by (simp add: http_connect_def http1_def sk_Bind_def sk_Connect_def new_CSockTcp_def http1_socket_def
        resolveHostName_def INADDR_NONE_def htonl_def Let_def)
  have "snprintf_ok (h_snprintf http1)" by (auto simp: snprintf_ok_def http1_def)
  then show ?thesis by (simp add: request_goes_out_def p c) (simp add: http1_def takes_nothing_def)
qed

lemma http_get_complete_witness:
  "\<exists>ds. HttpGet http1 parse1 ''http://h/'' ''............'' 12 zero_head
      = Some (Inr (blit (replicate 12 NUL) 0 (concat ds), 3 + 5 \<le> int (length (concat ds)), \<lparr>Response = 200, ContentLength = 3, bodyPos = 5, Location = []\<rparr>))
    \<and> received (h_recv http1) (sockFD http1_socket) 0 ds \<and> length (concat ds) < 12"
  using http_get_complete [OF http1_goes_out, of "''............''" 12 parse1 zero_head "''head.a''"
      "\<lparr>Response = 200, ContentLength = 3, bodyPos = 5, Location = []\<rparr>"]
  by (simp add: head_accepted_def parse1_def http1_def)

end
