(* ===== verification/Net_Windows.thy ===== *)
theory Net_Windows
  imports Net_Aux
begin

text \<open>
  The helpers of \<^verbatim>\<open>etransfer/NetAux.cpp\<close> as Windows compiles them (the \<^verbatim>\<open>WIN32\<close> branches): address and gateway of
  the machine, the hardware address found by way of the registry and the devices, the series number, and
  the random digits of both systems. What Windows and \<^verbatim>\<open>CUtility\<close> (not in the repository) answer are arguments, the same
  for every call of a run.
\<close>

section \<open>Addresses of the machine\<close>

text \<open>
  The constant of \<^verbatim>\<open>windows.h\<close>. An entry of the list that \<^verbatim>\<open>GetAdaptersInfo\<close> delivers has the adapter's
  name, its address and its gateway as texts in arrays of 16 bytes, and its hardware address.
\<close>

definition WIN_MAX_PATH :: nat where
  "WIN_MAX_PATH = 260"

record adapter_info =
  ad_name :: string
  ad_ip :: "char list"
  ad_gateway :: "char list"
  ad_address :: "8 word list"

text \<open>The list of the second call; \<^const>\<open>None\<close> when it reports an error.\<close>

type_synonym adapters = "adapter_info list option"

text \<open>The bytes copied before have a NUL behind them, so a gateway counts when its first byte is not NUL.\<close>

definition has_gateway :: "adapter_info \<Rightarrow> bool" where
  "has_gateway a \<longleftrightarrow> c_str_of (take 16 (ad_gateway a)) \<noteq> []"

definition win_getLocalIP :: "adapters \<Rightarrow> char list \<Rightarrow> (char list \<times> bool) res" where
  "win_getLocalIP infos szLocalIP =
     bindE (storeE szLocalIP 0 [NUL]) (\<lambda>b.
       case infos of
         None \<Rightarrow> Inr (b, True)
       | Some l \<Rightarrow>
           (case find has_gateway l of
              None \<Rightarrow> Inr (b, True)
            | Some a \<Rightarrow> bindE (storeE b 0 (take 16 (ad_ip a))) (\<lambda>b. Inr (b, True))))"

text \<open>The text goes through an array on the stack and \<^verbatim>\<open>CHost::fromStr\<close>.\<close>

definition win_getLocalIP_word :: "resolver \<Rightarrow> adapters \<Rightarrow> char list \<Rightarrow> (32 word \<times> bool) res" where
  "win_getLocalIP_word rs infos szIp =
     bindE (win_getLocalIP infos szIp) (\<lambda>(b, r).
     bindE (cstrE b 0) (\<lambda>text. Inr (ch_ip (ch_fromStr rs text 0), True)))"

text \<open>
  \<^verbatim>\<open>SIO_GET_INTERFACE_LIST\<close> on a socket: no socket, a refused call, or the addresses in network order. The
  sockets that stay open are part of the result.
\<close>

datatype win_if_answer = Win_No_Socket | Win_Refused int | Win_Interfaces int "32 word list"

definition win_getLocalIPList :: "win_if_answer \<Rightarrow> 32 word list \<times> bool \<times> fds" where
  "win_getLocalIPList w =
     (case w of
        Win_No_Socket \<Rightarrow> ([], False, [])
      | Win_Refused s \<Rightarrow> ([], False, [s])
      | Win_Interfaces s l \<Rightarrow> (map ntohl (filter (\<lambda>a. a AND 0xFF \<noteq> 0x7F) l), True, []))"

text \<open>The gateway of each adapter is copied until one is a text.\<close>

fun gate_passes :: "adapter_info list \<Rightarrow> char list \<Rightarrow> char list res" where
  "gate_passes [] b = Inr b"
| "gate_passes (a # as) b =
     bindE (storeE b 0 (take 16 (ad_gateway a))) (\<lambda>b.
     bindE (cstrE b 0) (\<lambda>text. if text \<noteq> [] then Inr b else gate_passes as b))"

definition win_getGateIP :: "adapters \<Rightarrow> char list \<Rightarrow> (char list \<times> bool) res" where
  "win_getGateIP infos szGateIP =
     bindE (storeE szGateIP 0 [NUL]) (\<lambda>b.
     bindE (case infos of None \<Rightarrow> Inr b | Some l \<Rightarrow> gate_passes l b) (\<lambda>b. Inr (b, True)))"

definition win_InitNetwork :: "(16 word \<Rightarrow> int) \<Rightarrow> bool" where
  "win_InitNetwork WSAStartup \<longleftrightarrow> WSAStartup 0x0202 = 0"

definition FIONBIO :: int where
  "FIONBIO = -2147195266"

definition win_setSockNonBlocking :: "(int \<Rightarrow> int \<Rightarrow> int \<Rightarrow> int) \<Rightarrow> int \<Rightarrow> int" where
  "win_setSockNonBlocking ioctlsocket sock = ioctlsocket sock FIONBIO 1"

section \<open>Hardware addresses\<close>

fun win_mac_passes :: "adapter_info list \<Rightarrow> char list \<Rightarrow> char list res" where
  "win_mac_passes [] b = Inr b"
| "win_mac_passes (a # as) b =
     bindE (put_cstr b (mac_text (ad_address a))) (\<lambda>b.
       if mac_text (ad_address a) \<noteq> MAC_ZERO then Inr b else win_mac_passes as b)"

definition win_getLogicalMacAddress :: "adapters \<Rightarrow> char list \<Rightarrow> (char list \<times> bool) res" where
  "win_getLogicalMacAddress infos szMacAddr =
     bindE (case infos of None \<Rightarrow> Inr szMacAddr | Some l \<Rightarrow> win_mac_passes l szMacAddr) (\<lambda>b. Inr (b, True))"

text \<open>
  What the devices answer: the handle of an opened name, the permanent address or the error number of
  the query, whether \<^verbatim>\<open>VirtualAlloc\<close> succeeds and whether the list of wireless stations is delivered.
\<close>

record device_os =
  dv_open :: "string \<Rightarrow> int option"
  dv_address :: "int \<Rightarrow> int + 8 word list"
  dv_alloc :: bool
  dv_stations :: "int \<Rightarrow> bool"

definition IfWirelessAdapter :: "device_os \<Rightarrow> int \<Rightarrow> bool" where
  "IfWirelessAdapter dv hAdapter \<longleftrightarrow> dv_alloc dv \<and> dv_stations dv hAdapter"

text \<open>
  The bytes of the answer lie in an array of zeros; the error number is printed with \<^verbatim>\<open>%d\<close>. The result is the code
  returned, the buffer, and the handle when one was opened: nothing closes it.
\<close>

definition GetWireLanMAC :: "device_os \<Rightarrow> string \<Rightarrow> char list \<Rightarrow> (int \<times> char list \<times> fds) res" where
  "GetWireLanMAC dv szAdapterName szMacAddr =
     bindE (put_cstr (replicate WIN_MAX_PATH NUL) (''//./'' @ szAdapterName)) (\<lambda>szDeviceName.
       case dv_open dv (c_str_of szDeviceName) of
         None \<Rightarrow> Inr (0, szMacAddr, [])
       | Some h \<Rightarrow>
           (case dv_address dv h of
              Inl err \<Rightarrow> bindE (put_cstr szMacAddr (show_int err)) (\<lambda>b. Inr (0, b, [h]))
            | Inr bs \<Rightarrow> bindE (put_cstr szMacAddr (mac_text (take 6 bs @ replicate (6 - length bs) 0))) (\<lambda>b.
                Inr (if IfWirelessAdapter dv h then 1 else 2, b, [h]))))"

section \<open>The adapters of the registry\<close>

text \<open>
  A key under the class of network adapters: its name, whether it can be opened, its \<^verbatim>\<open>Characteristics\<close>
  and the bytes of its \<^verbatim>\<open>NetCfgInstanceId\<close>.
\<close>

record reg_key =
  rk_name :: string
  rk_opens :: bool
  rk_characteristics :: "32 word option"
  rk_instance :: "char list option"

definition NCF_PHYSICAL :: "32 word" where
  "NCF_PHYSICAL = 0x4"

definition top_SubKey :: string where
  "top_SubKey = ''SYSTEM'' @ [CHR 0x5C] @ ''CurrentControlSet'' @ [CHR 0x5C] @ ''Control'' @ [CHR 0x5C] @ ''Class''
     @ [CHR 0x5C] @ ''{4D36E972-E325-11CE-BFC1-08002bE10318}''"

text \<open>
  The locals of the scan: the array of names, the number of names in it, the array for the instance id and the
  variable with its length, which \<^verbatim>\<open>RegQueryValueEx\<close> reads as the room there is and sets to the
  length of the value, whether the value fits or not.
\<close>

record reg_scan =
  sc_names :: "char list"
  sc_counter :: nat
  sc_id :: "char list"
  sc_room :: nat

definition scan_start :: "char list \<Rightarrow> reg_scan" where
  "scan_start stack = \<lparr>sc_names = replicate (WIN_MAX_PATH * 10) NUL, sc_counter = 0, sc_id = stack, sc_room = WIN_MAX_PATH\<rparr>"

definition query_instance :: "reg_key \<Rightarrow> reg_scan \<Rightarrow> (reg_scan \<times> bool) res" where
  "query_instance k s =
     (case rk_instance k of
        None \<Rightarrow> Inr (s, False)
      | Some d \<Rightarrow>
          if length d \<le> sc_room s then
            bindE (storeE (sc_id s) 0 d) (\<lambda>b. Inr (s\<lparr>sc_id := b, sc_room := length d\<rparr>, True))
          else Inr (s\<lparr>sc_room := length d\<rparr>, False))"

definition scan_key :: "reg_key \<Rightarrow> reg_scan \<Rightarrow> reg_scan res" where
  "scan_key k s =
     bindE (put_cstr (replicate WIN_MAX_PATH NUL) (top_SubKey @ [CHR 0x5C] @ rk_name k)) (\<lambda>sub_SubKey.
       if \<not> rk_opens k then Inr s
       else
         (case rk_characteristics k of
            None \<Rightarrow> Inr s
          | Some c \<Rightarrow>
              if c AND NCF_PHYSICAL = NCF_PHYSICAL then
                bindE (query_instance k s) (\<lambda>(s, found).
                  if found then
                    bindE (cstrE (sc_id s) 0) (\<lambda>iid.
                    bindE (storeE (sc_names s) (sc_counter s * WIN_MAX_PATH) iid) (\<lambda>ns.
                      Inr (s\<lparr>sc_names := ns, sc_counter := sc_counter s + 1\<rparr>)))
                  else Inr s)
              else Inr s))"

fun scan_keys :: "reg_key list \<Rightarrow> reg_scan \<Rightarrow> reg_scan res" where
  "scan_keys [] s = Inr s"
| "scan_keys (k # ks) s = (if sc_counter s < 10 then bindE (scan_key k s) (scan_keys ks) else Inr s)"

section \<open>The wired adapter\<close>

text \<open>\<^verbatim>\<open>strncmp\<close> over the length of the adapter's name.\<close>

definition names_adapter :: "reg_scan \<Rightarrow> string \<Rightarrow> nat \<Rightarrow> bool" where
  "names_adapter s nm i \<longleftrightarrow> take (length nm) (drop (i * WIN_MAX_PATH) (sc_names s)) = nm"

text \<open>The loop over the names for one adapter; the result says whether a wired one was found.\<close>

fun name_passes :: "device_os \<Rightarrow> reg_scan \<Rightarrow> string \<Rightarrow> nat list \<Rightarrow> char list \<Rightarrow> (char list \<times> bool \<times> fds) res" where
  "name_passes dv s nm [] b = Inr (b, False, [])"
| "name_passes dv s nm (i # is) b =
     (if names_adapter s nm i then
        bindE (GetWireLanMAC dv nm b) (\<lambda>(r, b, hs).
          if r = 2 then Inr (b, True, hs)
          else bindE (name_passes dv s nm is b) (\<lambda>(b, f, hs'). Inr (b, f, hs @ hs')))
      else name_passes dv s nm is b)"

fun adapter_passes :: "device_os \<Rightarrow> reg_scan \<Rightarrow> adapter_info list \<Rightarrow> char list \<Rightarrow> (char list \<times> bool \<times> fds) res" where
  "adapter_passes dv s [] b = Inr (b, False, [])"
| "adapter_passes dv s (a # as) b =
     bindE (put_cstr (replicate WIN_MAX_PATH NUL) (ad_name a)) (\<lambda>szAdapterName.
     bindE (name_passes dv s (c_str_of szAdapterName) [0..<sc_counter s] b) (\<lambda>(b, f, hs).
       if f then Inr (b, True, hs)
       else bindE (adapter_passes dv s as b) (\<lambda>(b, f, hs'). Inr (b, f, hs @ hs'))))"

text \<open>
  The keys are \<^const>\<open>None\<close> when the class cannot be opened; \<open>stack\<close> is the array for the instance id before
  it is set. The final test is of the caller's pointer, which is not null.
\<close>

definition GetWireLanRealMACAddr ::
  "device_os \<Rightarrow> reg_key list option \<Rightarrow> adapters \<Rightarrow> char list \<Rightarrow> char list \<Rightarrow> (char list \<times> bool \<times> fds) res" where
  "GetWireLanRealMACAddr dv keys infos stack szAdapterMACAddr =
     (case keys of
        None \<Rightarrow> Inr (szAdapterMACAddr, False, [])
      | Some ks \<Rightarrow>
          bindE (scan_keys ks (scan_start stack)) (\<lambda>s.
            case infos of
              None \<Rightarrow> Inr (szAdapterMACAddr, True, [])
            | Some l \<Rightarrow> bindE (adapter_passes dv s l szAdapterMACAddr) (\<lambda>(b, f, hs). Inr (b, True, hs))))"

definition win_getMacAddress ::
  "device_os \<Rightarrow> reg_key list option \<Rightarrow> adapters \<Rightarrow> char list \<Rightarrow> char list \<Rightarrow> (char list \<times> bool \<times> fds) res" where
  "win_getMacAddress dv keys infos stack szMacAddr =
     bindE (GetWireLanRealMACAddr dv keys infos stack szMacAddr) (\<lambda>(b, r, hs).
     bindE (if r then cstrE b 0 else Inr []) (\<lambda>text.
       if r \<and> mac_usable text then Inr (b, True, hs)
       else
         bindE (win_getLogicalMacAddress infos b) (\<lambda>(b, r).
         bindE (cstrE b 0) (\<lambda>text.
           if r \<and> mac_usable text then Inr (b, True, hs)
           else bindE (storeE b 0 [NUL]) (\<lambda>b. Inr (b, False, hs))))))"

section \<open>Series numbers and random digits\<close>

text \<open>
  \<^verbatim>\<open>CUtility\<close> is not in the repository: \<open>keyValue\<close> is \<^verbatim>\<open>getKeyValueStr\<close>, \<open>enBase64\<close> the encoding. \<open>env\<close> is what the
  function of the library writes, \<open>volume\<close> the number of the volume; the first component of the
  result is the static \<^verbatim>\<open>hdstr\<close>.
\<close>

definition win_getHardDiskSeries ::
  "(string \<Rightarrow> string \<Rightarrow> string) \<Rightarrow> (char list \<Rightarrow> string) \<Rightarrow> string option \<Rightarrow> 32 word option \<Rightarrow> string \<Rightarrow> char list
     \<Rightarrow> (string \<times> char list \<times> bool) res" where
  "win_getHardDiskSeries keyValue enBase64 env volume hdstr szSeries =
     bindE (storeE szSeries 0 [NUL]) (\<lambda>b.
       let (hdstr, bResult) = (case env of
               None \<Rightarrow> (hdstr, False)
             | Some e \<Rightarrow> let h = keyValue e ''hd'' in (h, h \<noteq> [] \<or> has_substr ''00000000'' h));
           (hdstr, bResult) = (if bResult then (hdstr, True) else (case volume of
               None \<Rightarrow> (hdstr, False)
             | Some diskid \<Rightarrow> (enBase64 (enc32 (sint diskid)), True)))
       in if bResult then bindE (put_cstr b hdstr) (\<lambda>b. Inr (hdstr, b, True)) else Inr (hdstr, b, False))"

text \<open>The other systems clear the text, which the function does before the branch, and refuse.\<close>

definition getHardDiskSeries :: "char list \<Rightarrow> (char list \<times> bool) res" where
  "getHardDiskSeries szSeries = bindE (storeE szSeries 0 [NUL]) (\<lambda>b. Inr (b, False))"

text \<open>The \<open>i\<close>-th call of \<^verbatim>\<open>CUtility::Random\<close>, its remainder in C, and \<^verbatim>\<open>CUtility::IntToString\<close>.\<close>

definition c_rem10 :: "int \<Rightarrow> int" where
  "c_rem10 x = (if x < 0 then - ((- x) mod 10) else x mod 10)"

definition random_digits :: "(nat \<Rightarrow> int) \<Rightarrow> (int \<Rightarrow> string) \<Rightarrow> string" where
  "random_digits rnd toStr = concat (map (\<lambda>i. toStr (c_rem10 (rnd i))) [0..<16])"

definition getRandomMacAddress :: "(nat \<Rightarrow> int) \<Rightarrow> (int \<Rightarrow> string) \<Rightarrow> char list \<Rightarrow> (char list \<times> bool) res" where
  "getRandomMacAddress rnd toStr szMacAddr = bindE (put_cstr szMacAddr (random_digits rnd toStr)) (\<lambda>b. Inr (b, True))"

definition getRandomHardDiskSeries :: "(nat \<Rightarrow> int) \<Rightarrow> (int \<Rightarrow> string) \<Rightarrow> char list \<Rightarrow> (char list \<times> bool) res" where
  "getRandomHardDiskSeries rnd toStr szSeries = bindE (put_cstr szSeries (random_digits rnd toStr)) (\<lambda>b. Inr (b, True))"

section \<open>What the scan collects\<close>

text \<open>
  The names in the array: each in its 260 bytes, NULs behind it and in the rest of the array.
\<close>

definition name_slot :: "string \<Rightarrow> char list" where
  "name_slot iid = iid @ replicate (WIN_MAX_PATH - length iid) NUL"

definition stored :: "reg_scan \<Rightarrow> string list \<Rightarrow> bool" where
  "stored s ids \<longleftrightarrow> sc_counter s = length ids \<and> length ids \<le> 10 \<and> (\<forall>iid \<in> set ids. no_nul iid \<and> length iid < WIN_MAX_PATH)
     \<and> sc_names s = concat (map name_slot ids) @ replicate (WIN_MAX_PATH * (10 - length ids)) NUL"

lemma length_slots: "\<forall>iid \<in> set ids. length iid < WIN_MAX_PATH \<Longrightarrow>
    length (concat (map name_slot ids)) = WIN_MAX_PATH * length ids"
  by (induction ids) (auto simp: name_slot_def)

lemma store_slot:
  assumes "stored s ids" and "length ids < 10" and "no_nul iid" and "length iid < WIN_MAX_PATH"
  shows "\<exists>ns. storeE (sc_names s) (sc_counter s * WIN_MAX_PATH) iid = Inr ns
    \<and> stored (s\<lparr>sc_names := ns, sc_counter := sc_counter s + 1\<rparr>) (ids @ [iid])"
proof -
  let ?p = "concat (map name_slot ids)" and ?m = WIN_MAX_PATH
  have l: "length ?p = ?m * length ids" using assms(1) by (intro length_slots) (simp add: stored_def)
  obtain d where d: "10 - length ids = Suc d" using assms(2) by (metis Suc_diff_Suc)
  then have d': "10 - Suc (length ids) = d" by simp
  have n: "sc_names s = ?p @ replicate (?m + ?m * d) NUL" "sc_counter s * ?m = length ?p"
    using assms(1) l d by (simp_all add: stored_def mult.commute)
  have b: "blit (?p @ replicate (?m + ?m * d) NUL) (length ?p) iid = (?p @ name_slot iid) @ replicate (?m * d) NUL"
    using assms(4) by (simp add: blit_def name_slot_def replicate_add [symmetric] del: replicate_add)
  have "storeE (sc_names s) (sc_counter s * ?m) iid = Inr ((?p @ name_slot iid) @ replicate (?m * d) NUL)"
    unfolding n using assms(4) b by (simp add: storeE_def)
  moreover have "stored (s\<lparr>sc_names := (?p @ name_slot iid) @ replicate (?m * d) NUL, sc_counter := sc_counter s + 1\<rparr>) (ids @ [iid])"
    using assms d' by (auto simp: stored_def)
  ultimately show ?thesis by blast
qed

text \<open>A key whose path fits and whose instance id, when it has one, is a text in \<open>n\<close> bytes.\<close>

definition key_ok :: "nat \<Rightarrow> reg_key \<Rightarrow> bool" where
  "key_ok n k \<longleftrightarrow> length top_SubKey + 1 + length (rk_name k) < WIN_MAX_PATH
     \<and> (\<forall>d. rk_instance k = Some d \<longrightarrow> length d = n \<and> n \<le> WIN_MAX_PATH \<and> (\<exists>iid. no_nul iid \<and> d = iid @ [NUL]))"

definition physical_key :: "reg_key \<Rightarrow> bool" where
  "physical_key k \<longleftrightarrow> rk_opens k \<and> (\<exists>c. rk_characteristics k = Some c \<and> c AND NCF_PHYSICAL = NCF_PHYSICAL) \<and> rk_instance k \<noteq> None"

definition physical_names :: "reg_key list \<Rightarrow> string list" where
  "physical_names ks = map (\<lambda>k. c_str_of (the (rk_instance k))) (filter physical_key ks)"

text \<open>The room for the instance id never gets below the length that all of them have.\<close>

definition scan_ok :: "nat \<Rightarrow> reg_scan \<Rightarrow> bool" where
  "scan_ok n s \<longleftrightarrow> length (sc_id s) = WIN_MAX_PATH \<and> min n WIN_MAX_PATH \<le> sc_room s \<and> sc_room s \<le> WIN_MAX_PATH"

lemma scan_key_ok:
  assumes k: "key_ok n k" and s: "scan_ok n s" "stored s ids" "length ids < 10"
  shows "\<exists>s'. scan_key k s = Inr s' \<and> scan_ok n s'
    \<and> stored s' (ids @ (if physical_key k then [c_str_of (the (rk_instance k))] else []))"
proof -
  have p: "put_cstr (replicate WIN_MAX_PATH NUL) (top_SubKey @ [CHR 0x5C] @ rk_name k)
      = Inr ((top_SubKey @ [CHR 0x5C] @ rk_name k) @ NUL # drop (Suc (length (top_SubKey @ [CHR 0x5C] @ rk_name k))) (replicate WIN_MAX_PATH NUL))"
    using k by (intro put_cstr_in) (simp add: key_ok_def)
  show ?thesis
  proof (cases "physical_key k")
    case False
    then have "scan_key k s = Inr s"
      unfolding scan_key_def p by (auto simp: physical_key_def query_instance_def split: option.splits)
    with False s show ?thesis by simp
  next
    case True
    then obtain c d where kc: "rk_opens k" "rk_characteristics k = Some c" "c AND NCF_PHYSICAL = NCF_PHYSICAL" "rk_instance k = Some d"
      by (auto simp: physical_key_def)
    with k obtain iid where d: "length d = n" "n \<le> WIN_MAX_PATH" "no_nul iid" "d = iid @ [NUL]" by (auto simp: key_ok_def)
    let ?b = "d @ drop n (sc_id s)"
    let ?s = "s\<lparr>sc_id := ?b, sc_room := n\<rparr>"
    have q: "query_instance k s = Inr (?s, True)"
      using kc(4) d(1,2) s(1) by (simp add: query_instance_def storeE_def blit_def scan_ok_def min_def)
    have i: "cstrE (sc_id ?s) 0 = Inr iid" using cstrE_append [OF d(3), of "[]"] d(4) by simp
    have l: "length iid < WIN_MAX_PATH" using d by simp
    have "stored ?s ids" using s(2) by (simp add: stored_def)
    from store_slot [OF this s(3) d(3) l] obtain ns where
      ns: "storeE (sc_names s) (sc_counter s * WIN_MAX_PATH) iid = Inr ns"
        "stored (?s\<lparr>sc_names := ns, sc_counter := sc_counter s + 1\<rparr>) (ids @ [iid])" by auto
    have "scan_key k s = Inr (?s\<lparr>sc_names := ns, sc_counter := sc_counter s + 1\<rparr>)"
      unfolding scan_key_def p using kc q i ns(1) by simp
    moreover have "scan_ok n (?s\<lparr>sc_names := ns, sc_counter := sc_counter s + 1\<rparr>)"
      using s(1) d(1,2) by (simp add: scan_ok_def)
    moreover have "c_str_of d = iid" using c_str_of_append [OF d(3), of "[]"] d(4) by simp
    ultimately show ?thesis using True kc(4) ns(2) by simp
  qed
qed

lemma scan_keys_ok:
  assumes "\<forall>k \<in> set ks. key_ok n k" and "scan_ok n s" and "stored s ids"
  shows "\<exists>s'. scan_keys ks s = Inr s' \<and> stored s' (take 10 (ids @ physical_names ks))"
  using assms
proof (induction ks arbitrary: s ids)
  case Nil
  then show ?case by (simp add: stored_def physical_names_def)
next
  case (Cons k ks)
  show ?case
  proof (cases "length ids < 10")
    case False
    then have "length ids = 10" using Cons.prems(3) by (simp add: stored_def)
    with Cons.prems(3) show ?thesis by (simp add: stored_def)
  next
    case True
    have "key_ok n k" using Cons.prems(1) by simp
    from scan_key_ok [OF this Cons.prems(2,3) True] obtain s1 where s1: "scan_key k s = Inr s1" "scan_ok n s1"
      "stored s1 (ids @ (if physical_key k then [c_str_of (the (rk_instance k))] else []))" by blast
    have ks: "\<forall>k \<in> set ks. key_ok n k" using Cons.prems(1) by simp
    have e: "(ids @ (if physical_key k then [c_str_of (the (rk_instance k))] else [])) @ physical_names ks
        = ids @ physical_names (k # ks)" by (simp add: physical_names_def)
    from Cons.IH [OF ks s1(2,3)] obtain s' where "scan_keys ks s1 = Inr s'"
      "stored s' (take 10 (ids @ physical_names (k # ks)))" unfolding e by blast
    moreover have "sc_counter s < 10" using Cons.prems(3) True by (simp add: stored_def)
    ultimately show ?thesis using s1(1) by simp
  qed
qed

lemma scan_collects:
  assumes "\<forall>k \<in> set ks. key_ok n k" and "length stack = WIN_MAX_PATH"
  shows "\<exists>s. scan_keys ks (scan_start stack) = Inr s \<and> stored s (take 10 (physical_names ks))"
proof -
  have "scan_ok n (scan_start stack)" using assms(2) by (simp add: scan_ok_def scan_start_def)
  moreover have "stored (scan_start stack) []" by (simp add: stored_def scan_start_def)
  ultimately show ?thesis using scan_keys_ok [OF assms(1), of "scan_start stack" "[]"] by simp
qed

section \<open>Which adapter wins\<close>

lemma drop_slots:
  assumes "\<forall>iid \<in> set ids. length iid < WIN_MAX_PATH" and "i < length ids"
  shows "\<exists>r. drop (i * WIN_MAX_PATH) (concat (map name_slot ids) @ z) = ids ! i @ NUL # r"
  using assms
proof (induction ids arbitrary: i)
  case Nil
  then show ?case by simp
next
  case (Cons iid ids)
  show ?case
  proof (cases i)
    case 0
    obtain m where "WIN_MAX_PATH - length iid = Suc m" using Cons.prems(1) by (metis Suc_diff_Suc list.set_intros(1))
    with 0 show ?thesis by (simp add: name_slot_def)
  next
    case (Suc k)
    have "length (name_slot iid) = WIN_MAX_PATH" using Cons.prems(1) by (simp add: name_slot_def)
    then have "drop (i * WIN_MAX_PATH) (concat (map name_slot (iid # ids)) @ z) = drop (k * WIN_MAX_PATH) (concat (map name_slot ids) @ z)"
      unfolding Suc by (simp add: drop_append)
    with Cons Suc show ?thesis by simp
  qed
qed

text \<open>The comparison asks whether the adapter's name is a prefix of an instance id.\<close>

lemma names_adapter_iff:
  assumes "stored s ids" and "i < length ids" and "no_nul nm"
  shows "names_adapter s nm i \<longleftrightarrow> take (length nm) (ids ! i) = nm"
proof -
  from assms(1,2) drop_slots [of ids i "replicate (WIN_MAX_PATH * (10 - length ids)) NUL"] obtain r where
    r: "drop (i * WIN_MAX_PATH) (sc_names s) = ids ! i @ NUL # r" by (auto simp: stored_def)
  show ?thesis
  proof (cases "length nm \<le> length (ids ! i)")
    case True
    then show ?thesis by (simp add: names_adapter_def r)
  next
    case False
    then obtain m where m: "length nm - length (ids ! i) = Suc m" by (metis Suc_diff_Suc not_le)
    have "NUL \<in> set (take (length nm) (ids ! i @ NUL # r))" using False m by simp
    with assms(3) have "take (length nm) (ids ! i @ NUL # r) \<noteq> nm" by (metis no_nul_def)
    moreover from False have "length (take (length nm) (ids ! i)) < length nm" by simp
    then have "take (length nm) (ids ! i) \<noteq> nm" by force
    ultimately show ?thesis by (simp add: names_adapter_def r)
  qed
qed

text \<open>What a card leaves in the buffer, and whether it is wired; nothing when it cannot be opened.\<close>

definition card_outcome :: "device_os \<Rightarrow> string \<Rightarrow> (string \<times> bool) list" where
  "card_outcome dv nm =
     (case dv_open dv (''//./'' @ nm) of
        None \<Rightarrow> []
      | Some h \<Rightarrow>
          (case dv_address dv h of
             Inl err \<Rightarrow> [(show_int err, False)]
           | Inr bs \<Rightarrow> [(mac_text (take 6 bs @ replicate (6 - length bs) 0), \<not> IfWirelessAdapter dv h)]))"

text \<open>The first wired card settles the text; without one each card replaces what was there.\<close>

fun settle :: "(string \<times> bool) list \<Rightarrow> string \<Rightarrow> string" where
  "settle [] t = t"
| "settle ((x, wired) # os) t = (if wired then x else settle os x)"

lemma settle_append:
  "settle (os @ os') t = (if \<exists>o' \<in> set os. snd o' then settle os t else settle os' (settle os t))"
  by (induction os t rule: settle.induct) auto

lemma settle_last: "\<forall>o' \<in> set os. \<not> snd o' \<Longrightarrow> settle os t = (if os = [] then t else fst (last os))"
  by (induction os t rule: settle.induct) auto

lemma length_show_int32:
  assumes "is_int32 x"
  shows "length (show_int x) \<le> 11"
proof -
  have "nat \<bar>x\<bar> < 10 ^ Suc 9" using assms by (auto simp: is_int32_def)
  from length_nat_digits [OF this] have "length (nat_digits f (nat \<bar>x\<bar>)) \<le> 10" for f by simp
  from this [of "Suc (nat (- x))"] this [of "Suc (nat x)"] show ?thesis
    by (auto simp: show_int_def simp del: nat_digits.simps)
qed

lemma length_mac_text: "length bs = 6 \<Longrightarrow> length (mac_text bs) = 12"
  by (auto simp: mac_text_def hex_byte_def length_concat sum_list_triv o_def)

lemma no_nul_mac_text: "no_nul (mac_text bs)"
proof -
  have h: "NUL \<noteq> hex_digit k" if "k < 16" for k
  proof
    assume "NUL = hex_digit k"
    then have "(of_char NUL :: nat) = of_char (hex_digit k)" by simp
    with that show False by (auto simp: hex_digit_def NUL_def split: if_splits)
  qed
  moreover have "unat w div 16 < 16" "unat w mod 16 < 16" for w :: "8 word"
    using unsigned_less [of w, where 'a = nat] by simp_all
  ultimately show ?thesis using h by (auto simp: mac_text_def hex_byte_def no_nul_def)
qed

definition errors_int32 :: "device_os \<Rightarrow> bool" where
  "errors_int32 dv \<longleftrightarrow> (\<forall>h e. dv_address dv h = Inl e \<longrightarrow> is_int32 e)"

text \<open>The caller's array: room for a printed address, and a text in it.\<close>

definition mac_buffer :: "char list \<Rightarrow> bool" where
  "mac_buffer b \<longleftrightarrow> 13 \<le> length b \<and> NUL \<in> set b"

lemma put_text:
  assumes "mac_buffer b" and "no_nul t" and "length t \<le> 12"
  shows "\<exists>b'. put_cstr b t = Inr b' \<and> mac_buffer b' \<and> c_str_of b' = t"
proof -
  have l: "length t < length b" using assms(1,3) by (simp add: mac_buffer_def)
  then have "length (t @ NUL # drop (Suc (length t)) b) = length b" by simp
  with l assms show ?thesis using put_cstr_in [OF l] by (auto simp: mac_buffer_def c_str_of_append)
qed

lemma GetWireLanMAC_outcome:
  assumes "no_nul nm" and "length nm < 255" and "errors_int32 dv" and "mac_buffer b"
  shows "\<exists>r b' hs. GetWireLanMAC dv nm b = Inr (r, b', hs) \<and> mac_buffer b' \<and> c_str_of b' = settle (card_outcome dv nm) (c_str_of b)
    \<and> (r = 2 \<longleftrightarrow> (\<exists>o' \<in> set (card_outcome dv nm). snd o')) \<and> length hs = length (card_outcome dv nm)"
proof -
  let ?d = "''//./'' @ nm"
  have "no_nul ?d" using assms(1) by (simp add: NUL_def)
  then obtain d where d: "put_cstr (replicate WIN_MAX_PATH NUL) ?d = Inr d" "c_str_of d = ?d"
    using put_cstr_in [of ?d "replicate WIN_MAX_PATH NUL"] assms(2) c_str_of_append [of ?d]
    by (simp only: length_append length_replicate WIN_MAX_PATH_def list.size)
  show ?thesis
  proof (cases "dv_open dv ?d")
    case None
    then show ?thesis using assms(4) d by (simp add: GetWireLanMAC_def card_outcome_def del: append.simps append_Cons)
  next
    case (Some h)
    show ?thesis
    proof (cases "dv_address dv h")
      case (Inl e)
      then have "length (show_int e) \<le> 12" using assms(3) length_show_int32 [of e] by (auto simp: errors_int32_def)
      from put_text [OF assms(4) no_nul_show_int this] Some Inl d show ?thesis
        by (auto simp: GetWireLanMAC_def card_outcome_def simp del: append.simps append_Cons)
    next
      case (Inr bs)
      have "length (mac_text (take 6 bs @ replicate (6 - length bs) 0)) \<le> 12" by (subst length_mac_text) auto
      from put_text [OF assms(4) no_nul_mac_text this] Some Inr d show ?thesis
        by (auto simp: GetWireLanMAC_def card_outcome_def simp del: append.simps append_Cons)
    qed
  qed
qed

text \<open>A pass over cards ends well: the text is settled by what the cards left, and a handle was opened for some card or none.\<close>

definition passed :: "(string \<times> bool) list \<Rightarrow> char list \<Rightarrow> (char list \<times> bool \<times> fds) res \<Rightarrow> bool" where
  "passed os b res \<longleftrightarrow> (\<exists>b' f hs. res = Inr (b', f, hs) \<and> mac_buffer b' \<and> c_str_of b' = settle os (c_str_of b)
     \<and> (f \<longleftrightarrow> (\<exists>o' \<in> set os. snd o')) \<and> (hs = [] \<longleftrightarrow> os = []))"

lemma passed_none: "mac_buffer b \<Longrightarrow> passed [] b (Inr (b, False, []))"
  unfolding passed_def by (intro exI [of _ b] exI [of _ False] exI [of _ "[]"]) simp

lemma passed_stop: "passed os b (Inr (b', True, hs)) \<Longrightarrow> passed (os @ os') b (Inr (b', True, hs))"
  by (auto simp: passed_def settle_append)

lemma passed_next:
  assumes "passed os b (Inr (b1, False, hs))" and "passed os' b1 res"
  shows "passed (os @ os') b (bindE res (\<lambda>(b, f, hs'). Inr (b, f, hs @ hs')))"
proof -
  have a: "c_str_of b1 = settle os (c_str_of b)" "\<not> (\<exists>o' \<in> set os. snd o')" "hs = [] \<longleftrightarrow> os = []"
    using assms(1) by (auto simp: passed_def)
  from assms(2) obtain b' f hs' where "res = Inr (b', f, hs')" "mac_buffer b'" "c_str_of b' = settle os' (c_str_of b1)"
    "f \<longleftrightarrow> (\<exists>o' \<in> set os'. snd o')" "hs' = [] \<longleftrightarrow> os' = []" unfolding passed_def by blast
  with a show ?thesis unfolding passed_def
    by (intro exI [of _ b'] exI [of _ f] exI [of _ "hs @ hs'"]) (auto simp: settle_append)
qed

definition name_outcomes :: "device_os \<Rightarrow> string \<Rightarrow> string list \<Rightarrow> (string \<times> bool) list" where
  "name_outcomes dv nm ids = concat (map (\<lambda>iid. if take (length nm) iid = nm then card_outcome dv nm else []) ids)"

lemma name_passes_passed:
  assumes s: "stored s ids" and nm: "no_nul nm" "length nm < 255" and err: "errors_int32 dv"
    and "\<forall>i \<in> set js. i < length ids" and "mac_buffer b"
  shows "passed (name_outcomes dv nm (map (\<lambda>i. ids ! i) js)) b (name_passes dv s nm js b)"
  using assms(5,6)
proof (induction js arbitrary: b)
  case Nil
  then show ?case by (simp add: name_outcomes_def passed_none)
next
  case (Cons i js)
  have match: "names_adapter s nm i \<longleftrightarrow> take (length nm) (ids ! i) = nm"
    using Cons.prems(1) by (intro names_adapter_iff [OF s _ nm(1)]) simp
  have js: "\<forall>i \<in> set js. i < length ids" using Cons.prems(1) by simp
  show ?case
  proof (cases "names_adapter s nm i")
    case False
    with match Cons.IH [OF js Cons.prems(2)] show ?thesis by (simp add: name_outcomes_def)
  next
    case True
    from GetWireLanMAC_outcome [OF nm err Cons.prems(2)] obtain r b1 hs where
      g: "GetWireLanMAC dv nm b = Inr (r, b1, hs)" "mac_buffer b1" "c_str_of b1 = settle (card_outcome dv nm) (c_str_of b)"
        "r = 2 \<longleftrightarrow> (\<exists>o' \<in> set (card_outcome dv nm). snd o')" "length hs = length (card_outcome dv nm)" by blast
    have e: "hs = [] \<longleftrightarrow> card_outcome dv nm = []" using g(5) by (metis length_0_conv)
    have p: "passed (card_outcome dv nm) b (Inr (b1, r = 2, hs))" using g(2-4) e unfolding passed_def by blast
    have o: "name_outcomes dv nm (map (\<lambda>i. ids ! i) (i # js)) = card_outcome dv nm @ name_outcomes dv nm (map (\<lambda>i. ids ! i) js)"
      using True match by (simp add: name_outcomes_def)
    show ?thesis
    proof (cases "r = 2")
      case True
      then show ?thesis unfolding o using p passed_stop g(1) \<open>names_adapter s nm i\<close> by simp
    next
      case False
      then show ?thesis unfolding o using p passed_next [OF _ Cons.IH [OF js g(2)], of _ b hs] g(1) True by simp
    qed
  qed
qed

text \<open>An adapter's name as Windows delivers it, and what all of them leave.\<close>

definition adapter_ok :: "adapter_info \<Rightarrow> bool" where
  "adapter_ok a \<longleftrightarrow> no_nul (ad_name a) \<and> length (ad_name a) < 255"

definition card_outcomes :: "device_os \<Rightarrow> string list \<Rightarrow> adapter_info list \<Rightarrow> (string \<times> bool) list" where
  "card_outcomes dv ids as = concat (map (\<lambda>a. name_outcomes dv (ad_name a) ids) as)"

lemma adapter_passes_passed:
  assumes s: "stored s ids" and err: "errors_int32 dv" and "\<forall>a \<in> set as. adapter_ok a" and "mac_buffer b"
  shows "passed (card_outcomes dv ids as) b (adapter_passes dv s as b)"
  using assms(3,4)
proof (induction as arbitrary: b)
  case Nil
  then show ?case by (simp add: card_outcomes_def passed_none)
next
  case (Cons a as)
  let ?nm = "ad_name a"
  have nm: "no_nul ?nm" "length ?nm < 255" using Cons.prems(1) by (simp_all add: adapter_ok_def)
  have "length ?nm < length (replicate WIN_MAX_PATH NUL)" using nm(2) by (simp add: WIN_MAX_PATH_def)
  from put_cstr_in [OF this] obtain d where d: "put_cstr (replicate WIN_MAX_PATH NUL) ?nm = Inr d" "c_str_of d = ?nm"
    using c_str_of_append [OF nm(1)] by simp
  have n: "sc_counter s = length ids" using s by (simp add: stored_def)
  have p: "passed (name_outcomes dv ?nm ids) b (name_passes dv s ?nm [0..<length ids] b)"
    using name_passes_passed [OF s nm err _ Cons.prems(2), of "[0..<length ids]"] by (simp add: map_nth)
  then obtain b1 f hs where r: "name_passes dv s ?nm [0..<length ids] b = Inr (b1, f, hs)" "mac_buffer b1"
    unfolding passed_def by blast
  have o: "card_outcomes dv ids (a # as) = name_outcomes dv ?nm ids @ card_outcomes dv ids as" by (simp add: card_outcomes_def)
  show ?case
  proof (cases f)
    case True
    then show ?thesis unfolding o using p r(1) d n passed_stop by simp
  next
    case False
    have "\<forall>a \<in> set as. adapter_ok a" using Cons.prems(1) by simp
    from passed_next [OF _ Cons.IH [OF this r(2)], of _ b hs] False p r(1) d n show ?thesis unfolding o by simp
  qed
qed

lemma real_mac_settled:
  assumes keys: "\<forall>k \<in> set ks. key_ok n k" and cards: "\<forall>a \<in> set as. adapter_ok a" and err: "errors_int32 dv"
    and bufs: "mac_buffer out" "length stack = WIN_MAX_PATH"
  shows "\<exists>b hs. GetWireLanRealMACAddr dv (Some ks) (Some as) stack out = Inr (b, True, hs)
    \<and> mac_buffer b \<and> c_str_of b = settle (card_outcomes dv (take 10 (physical_names ks)) as) (c_str_of out)
    \<and> (hs = [] \<longleftrightarrow> card_outcomes dv (take 10 (physical_names ks)) as = [])"
proof -
  from scan_collects [OF keys bufs(2)] obtain s where
    s: "scan_keys ks (scan_start stack) = Inr s" "stored s (take 10 (physical_names ks))" by blast
  from adapter_passes_passed [OF s(2) err cards bufs(1)] obtain b f hs where
    "adapter_passes dv s as out = Inr (b, f, hs)" "mac_buffer b"
    "c_str_of b = settle (card_outcomes dv (take 10 (physical_names ks)) as) (c_str_of out)"
    "hs = [] \<longleftrightarrow> card_outcomes dv (take 10 (physical_names ks)) as = []" unfolding passed_def by blast
  with s(1) show ?thesis by (simp add: GetWireLanRealMACAddr_def)
qed

text \<open>
  C38. The Windows hardware address. With a registry whose instance ids have one length, the adapters are
  matched with the first ten physical keys by name; the first wired card whose query succeeds settles the address.
  Without one the buffer keeps what the last card that could be opened left there, the address of a
  wireless card or the number of an error, or what the caller had in it; the function answers success in each case, and the
  handles it opened stay open.
\<close>

theorem wired_card_preferred:
  assumes keys: "\<forall>k \<in> set ks. key_ok n k" and cards: "\<forall>a \<in> set as. adapter_ok a" and err: "errors_int32 dv"
    and bufs: "mac_buffer out" "length stack = WIN_MAX_PATH"
  shows "\<exists>b hs. GetWireLanRealMACAddr dv (Some ks) (Some as) stack out = Inr (b, True, hs)
    \<and> mac_buffer b \<and> c_str_of b = settle (card_outcomes dv (take 10 (physical_names ks)) as) (c_str_of out)
    \<and> (hs = [] \<longleftrightarrow> card_outcomes dv (take 10 (physical_names ks)) as = [])"
  by (rule real_mac_settled [OF assms])

lemma has_substr_length: "has_substr p s \<Longrightarrow> length p \<le> length s"
proof (induction p s rule: has_substr.induct)
  case (2 p c s)
  then show ?case by (metis has_substr.simps(2) le_SucI length_Cons length_take min.cobounded1)
qed simp

lemma show_int_usable:
  assumes "is_int32 e"
  shows "mac_usable (show_int e)"
proof -
  have "\<not> has_substr MAC_ZERO (show_int e)" "\<not> has_substr MAC_ONES (show_int e)"
    using has_substr_length length_show_int32 [OF assms] by (fastforce simp: MAC_ZERO_def MAC_ONES_def)+
  moreover have "show_int e \<noteq> []" by (simp add: show_int_def)
  ultimately show ?thesis by (simp add: mac_usable_def)
qed

text \<open>The address taken when no wired card answers.\<close>

lemma unwired_address:
  assumes keys: "\<forall>k \<in> set ks. key_ok n k" and cards: "\<forall>a \<in> set as. adapter_ok a" and err: "errors_int32 dv"
    and bufs: "mac_buffer out" "length stack = WIN_MAX_PATH"
    and settled: "settle (card_outcomes dv (take 10 (physical_names ks)) as) (c_str_of out) = t" "mac_usable t"
  shows "\<exists>b hs. win_getMacAddress dv (Some ks) (Some as) stack out = Inr (b, True, hs) \<and> c_str_of b = t"
proof -
  from real_mac_settled [OF keys cards err bufs] settled(1) obtain b hs where
    "GetWireLanRealMACAddr dv (Some ks) (Some as) stack out = Inr (b, True, hs)" "mac_buffer b" "c_str_of b = t" by blast
  with settled(2) show ?thesis by (simp add: win_getMacAddress_def cstrE_def mac_buffer_def)
qed

text \<open>
  C39. An error number for an address. When no card is wired and the last one that could be opened refuses the
  query, \<^verbatim>\<open>getMacAddress\<close> succeeds and delivers the decimal number of the error as the address of the
  machine; that an adapter before it was wireless and had answered makes no difference.
\<close>

theorem error_number_accepted:
  assumes keys: "\<forall>k \<in> set ks. key_ok n k" and cards: "\<forall>a \<in> set as. adapter_ok a" and err: "errors_int32 dv"
    and bufs: "mac_buffer out" "length stack = WIN_MAX_PATH"
    and refused: "card_outcomes dv (take 10 (physical_names ks)) as = os @ card_outcome dv nm" "\<forall>o' \<in> set os. \<not> snd o'"
      "dv_open dv (''//./'' @ nm) = Some h" "dv_address dv h = Inl e"
  shows "\<exists>b hs. win_getMacAddress dv (Some ks) (Some as) stack out = Inr (b, True, hs) \<and> c_str_of b = show_int e"
proof (rule unwired_address [OF keys cards err bufs])
  show "settle (card_outcomes dv (take 10 (physical_names ks)) as) (c_str_of out) = show_int e"
    unfolding refused(1) settle_append using refused(2-4) by (simp add: card_outcome_def)
  show "mac_usable (show_int e)" using err refused(4) by (intro show_int_usable) (simp add: errors_int32_def)
qed

section \<open>Addresses, series numbers and random digits\<close>

text \<open>The texts of an adapter end within their 16 bytes.\<close>

definition texts_ok :: "adapter_info \<Rightarrow> bool" where
  "texts_ok a \<longleftrightarrow> length (ad_ip a) = 16 \<and> NUL \<in> set (ad_ip a) \<and> length (ad_gateway a) = 16 \<and> NUL \<in> set (ad_gateway a)"

lemma store_text:
  assumes "length d = 16" and "NUL \<in> set d" and "16 \<le> length b"
  shows "\<exists>b'. storeE b 0 d = Inr b' \<and> length b' = length b \<and> cstrE b' 0 = Inr (c_str_of d) \<and> NUL \<in> set b'"
proof -
  have "c_str_of (d @ z) = c_str_of d" for z using assms(2) unfolding c_str_of_def by (intro takeWhile_append1) auto
  with assms show ?thesis by (auto simp: storeE_def blit_def cstrE_def)
qed

text \<open>Address and gateway of the machine are those of the first adapter with a gateway.\<close>

lemma local_ip_gateway:
  assumes "\<forall>a \<in> set l. texts_ok a" and "16 \<le> length out"
  shows "\<exists>b. win_getLocalIP (Some l) out = Inr (b, True)
    \<and> cstrE b 0 = Inr (case find has_gateway l of None \<Rightarrow> [] | Some a \<Rightarrow> c_str_of (ad_ip a))"
proof -
  obtain c z where o: "out = c # z" using assms(2) by (cases out) auto
  have b: "storeE out 0 [NUL] = Inr (NUL # z)" "16 \<le> length (NUL # z)" using o assms(2) by (simp_all add: storeE_def blit_def)
  show ?thesis
  proof (cases "find has_gateway l")
    case None
    then show ?thesis using b by (simp add: win_getLocalIP_def cstrE_def c_str_of_def)
  next
    case (Some a)
    then have "texts_ok a" using assms(1) by (auto simp: find_Some_iff)
    with store_text [OF _ _ b(2), of "ad_ip a"] Some b(1) show ?thesis by (auto simp: win_getLocalIP_def texts_ok_def)
  qed
qed

lemma gate_passes_text:
  assumes "\<forall>a \<in> set l. texts_ok a" and "16 \<le> length b" and "cstrE b 0 = Inr []"
  shows "\<exists>b'. gate_passes l b = Inr b' \<and> cstrE b' 0 = Inr (case find has_gateway l of None \<Rightarrow> [] | Some a \<Rightarrow> c_str_of (ad_gateway a))"
  using assms
proof (induction l arbitrary: b)
  case Nil
  then show ?case by simp
next
  case (Cons a l)
  then have a: "length (ad_gateway a) = 16" "NUL \<in> set (ad_gateway a)" by (simp_all add: texts_ok_def)
  from store_text [OF a Cons.prems(2)] obtain b1 where
    b1: "storeE b 0 (ad_gateway a) = Inr b1" "16 \<le> length b1" "cstrE b1 0 = Inr (c_str_of (ad_gateway a))"
    using Cons.prems(2) by auto
  show ?case
  proof (cases "has_gateway a")
    case True
    then show ?thesis using a b1 by (simp add: has_gateway_def)
  next
    case False
    with a have "c_str_of (ad_gateway a) = []" by (simp add: has_gateway_def)
    with b1 Cons.IH [of b1] Cons.prems(1) False a show ?thesis by simp
  qed
qed

lemma gate_ip_gateway:
  assumes "\<forall>a \<in> set l. texts_ok a" and "16 \<le> length out"
  shows "\<exists>b. win_getGateIP (Some l) out = Inr (b, True)
    \<and> cstrE b 0 = Inr (case find has_gateway l of None \<Rightarrow> [] | Some a \<Rightarrow> c_str_of (ad_gateway a))"
proof -
  obtain c z where o: "out = c # z" using assms(2) by (cases out) auto
  have b: "storeE out 0 [NUL] = Inr (NUL # z)" "16 \<le> length (NUL # z)" "cstrE (NUL # z) 0 = Inr []"
    using o assms(2) by (simp_all add: storeE_def blit_def cstrE_def c_str_of_def)
  from gate_passes_text [OF assms(1) b(2,3)] b(1) show ?thesis by (auto simp: win_getGateIP_def)
qed

text \<open>The test of the series number rejects only an empty one: the zeros it looks for are accepted.\<close>

lemma zero_series_accepted:
  assumes "keyValue e ''hd'' = h" and "h \<noteq> []" and "length h < length out"
  shows "win_getHardDiskSeries keyValue enBase64 (Some e) volume hdstr out
    = Inr (h, h @ NUL # drop (Suc (length h)) (NUL # drop 1 out), True)"
proof -
  obtain c z where "out = c # z" using assms(3) by (cases out) auto
  with assms show ?thesis by (simp add: win_getHardDiskSeries_def storeE_def blit_def Let_def put_cstr_in)
qed

text \<open>Without a library and a volume the series of an earlier call stays behind the failure.\<close>

lemma no_series:
  "out \<noteq> [] \<Longrightarrow> win_getHardDiskSeries keyValue enBase64 None None hdstr out = Inr (hdstr, NUL # drop 1 out, False)"
  by (cases out) (simp_all add: win_getHardDiskSeries_def storeE_def blit_def Let_def)

text \<open>Sixteen characters, when \<^verbatim>\<open>IntToString\<close> prints a digit as one: the buffer of an address is too small.\<close>

lemma random_digits_length:
  assumes "\<And>d. 0 \<le> d \<and> d < 10 \<Longrightarrow> length (toStr d) = 1" and "\<And>i. 0 \<le> rnd i"
  shows "length (random_digits rnd toStr) = 16"
proof -
  have "length (toStr (c_rem10 (rnd i))) = 1" for i using assms(1) [of "c_rem10 (rnd i)"] assms(2) [of i] by (simp add: c_rem10_def)
  then show ?thesis by (simp add: random_digits_def length_concat o_def sum_list_triv)
qed

lemma random_mac_overflow:
  assumes "\<And>d. 0 \<le> d \<and> d < 10 \<Longrightarrow> length (toStr d) = 1" and "\<And>i. 0 \<le> rnd i" and "length out = 13"
  shows "getRandomMacAddress rnd toStr out = Inl Buffer_Overflow"
  using random_digits_length [of toStr rnd] assms by (simp add: getRandomMacAddress_def put_cstr_out)

section \<open>Examples\<close>

definition example_key :: reg_key where
  "example_key = \<lparr>rk_name = ''0001'', rk_opens = True, rk_characteristics = Some 0x84, rk_instance = Some (''{A}'' @ [NUL])\<rparr>"

definition example_card :: adapter_info where
  "example_card = \<lparr>ad_name = ''{A}'', ad_ip = replicate 16 NUL, ad_gateway = replicate 16 NUL, ad_address = [0, 1, 2, 3, 4, 5]\<rparr>"

definition example_devices :: "int + 8 word list \<Rightarrow> device_os" where
  "example_devices r = \<lparr>dv_open = (\<lambda>_. Some 7), dv_address = (\<lambda>_. r), dv_alloc = True, dv_stations = (\<lambda>_. False)\<rparr>"

lemma example_windows:
  "\<forall>k \<in> set [example_key]. key_ok 4 k" "\<forall>a \<in> set [example_card]. adapter_ok a"
  "errors_int32 (example_devices (Inl 5))" "errors_int32 (example_devices (Inr bs))"
  "mac_buffer (replicate 32 NUL)" "length (replicate 260 NUL) = WIN_MAX_PATH" "take 10 (physical_names [example_key]) = [''{A}'']"
  by (auto simp: example_key_def example_card_def example_devices_def key_ok_def top_SubKey_def WIN_MAX_PATH_def adapter_ok_def
      errors_int32_def is_int32_def mac_buffer_def physical_names_def physical_key_def NCF_PHYSICAL_def c_str_of_def no_nul_def NUL_def
      intro!: exI [of _ "''{A}''"])

lemma wired_card_preferred_witness:
  "\<exists>b hs. GetWireLanRealMACAddr (example_devices (Inr [0, 1, 2, 3, 4, 0xAB])) (Some [example_key]) (Some [example_card])
      (replicate 260 NUL) (replicate 32 NUL) = Inr (b, True, hs) \<and> c_str_of b = ''0001020304AB'' \<and> hs \<noteq> []"
proof -
  let ?dv = "example_devices (Inr [0, 1, 2, 3, 4, 0xAB])"
  have "mac_text [0, 1, 2, 3, 4, 0xAB] = ''0001020304AB''" by code_simp
  then have o: "card_outcomes ?dv [''{A}''] [example_card] = [(''0001020304AB'', True)]"
    by (simp add: card_outcomes_def name_outcomes_def example_card_def card_outcome_def example_devices_def IfWirelessAdapter_def)
  from wired_card_preferred [OF example_windows(1,2,4-6), of "[0, 1, 2, 3, 4, 0xAB]"] show ?thesis
    unfolding example_windows(7) o by auto
qed

lemma error_number_accepted_witness:
  "\<exists>b hs. win_getMacAddress (example_devices (Inl 5)) (Some [example_key]) (Some [example_card])
      (replicate 260 NUL) (replicate 32 NUL) = Inr (b, True, hs) \<and> c_str_of b = ''5''"
proof -
  let ?dv = "example_devices (Inl 5)"
  have o: "card_outcomes ?dv (take 10 (physical_names [example_key])) [example_card] = [] @ card_outcome ?dv ''{A}''"
    unfolding example_windows(7) by (simp add: card_outcomes_def name_outcomes_def example_card_def)
  have d: "\<forall>o' \<in> set []. \<not> snd (o' :: string \<times> bool)" "dv_open ?dv (''//./'' @ ''{A}'') = Some 7" "dv_address ?dv 7 = Inl 5"
    by (simp_all add: example_devices_def)
  have "show_int 5 = ''5''" by code_simp
  with error_number_accepted [OF example_windows(1-3,5,6) o d] show ?thesis by simp
qed

end
