(* ===== verification/User_Lookup.thy ===== *)
theory User_Lookup
  imports C_Memory
begin

text \<open>
  The list of logged-in users (\<^verbatim>\<open>libuser.c\<close>): \<^verbatim>\<open>who\<close> with \<^verbatim>\<open>Showmessage\<close> and \<^verbatim>\<open>Timeformat\<close>. The records of
  the login file and \<^verbatim>\<open>ctime\<close> are arguments; the result is what is printed. (\<^verbatim>\<open>whoami\<close> is with the client.)
\<close>

text \<open>\<^verbatim>\<open>%-8.8s\<close> of an array and \<^verbatim>\<open>%12.12s\<close> of a string: cut, then filled up on the right or on the left.\<close>

definition left_8 :: "char list \<Rightarrow> string" where
  "left_8 a = (let t = take 8 (c_str_of a) in t @ replicate (8 - length t) (CHR '' ''))"

definition right_12 :: "char list \<Rightarrow> string" where
  "right_12 a = (let t = take 12 (c_str_of a) in replicate (12 - length t) (CHR '' '') @ t)"

record utmp =
  ut_type :: int
  ut_name :: "char list"
  ut_line :: "char list"
  ut_time :: int

definition USER_PROCESS :: int where
  "USER_PROCESS = 7"

definition Timeformat :: "(int \<Rightarrow> string) \<Rightarrow> int \<Rightarrow> string" where
  "Timeformat ctime timearg = right_12 (drop 4 (ctime timearg)) @ [CHR 0x0A]"

definition Showmessage :: "(int \<Rightarrow> string) \<Rightarrow> utmp \<Rightarrow> string" where
  "Showmessage ctime u =
     (if ut_type u \<noteq> USER_PROCESS then []
      else left_8 (ut_name u) @ '' '' @ left_8 (ut_line u) @ '' '' @ Timeformat ctime (ut_time u))"

text \<open>
  \<open>records fd\<close> are the records that \<^verbatim>\<open>read\<close> delivers whole from the descriptor, none from -1. The test for a
  failed \<^verbatim>\<open>open\<close> compares with 1.
\<close>

definition who :: "(int \<Rightarrow> string) \<Rightarrow> int \<Rightarrow> (int \<Rightarrow> utmp list) \<Rightarrow> string" where
  "who ctime utmpfd records =
     (if utmpfd = 1 then ''error'' @ [CHR 0x0A] else concat (map (Showmessage ctime) (records utmpfd)))"

text \<open>A line of 31 characters for each user process, in the order of the file, and nothing else.\<close>

lemma Showmessage_line: "ut_type u = USER_PROCESS \<Longrightarrow> length (Showmessage ctime u) = 31"
  by (simp add: Showmessage_def Timeformat_def left_8_def right_12_def Let_def)

lemma who_lists_users:
  assumes "fd \<noteq> 1"
  shows "who ctime fd records = concat (map (Showmessage ctime) (filter (\<lambda>u. ut_type u = USER_PROCESS) (records fd)))
    \<and> length (who ctime fd records) = 31 * length (filter (\<lambda>u. ut_type u = USER_PROCESS) (records fd))"
proof -
  have "concat (map (Showmessage ctime) us) = concat (map (Showmessage ctime) (filter (\<lambda>u. ut_type u = USER_PROCESS) us))
    \<and> length (concat (map (Showmessage ctime) us)) = 31 * length (filter (\<lambda>u. ut_type u = USER_PROCESS) us)" for us
  proof (induction us)
    case (Cons u us)
    then show ?case using Showmessage_line [of u ctime] by (cases "ut_type u = USER_PROCESS") (auto simp: Showmessage_def)
  qed simp
  then show ?thesis using assms by (simp add: who_def)
qed

text \<open>A login file that cannot be opened lists nobody and is no error.\<close>

lemma who_missing_file: "records (-1) = [] \<Longrightarrow> who ctime (-1) records = []"
  by (simp add: who_def)

end
