(* ===== verification/Spec2Isabelle.thy ===== *)
theory Spec2Isabelle
  imports Job_Board Job_Failures Job_Node Report_Race Client_Exchange Msg_Service Net_Http Net_Windows User_Lookup
begin

text \<open>
  A model of \<^emph>\<open>easy pbs\<close>, a small batch system: a server process on every host (\<^verbatim>\<open>src/epbssrv.c\<close>), of which
  the first host's also keeps the queue, and a command line client (\<^verbatim>\<open>src/epbscli.c\<close>). A client submits a command
  for a number of nodes; the server queues it, sends it to free hosts, takes their reports in and answers queries.

  \<^bold>\<open>How the program is modelled.\<close> A function of the code is a HOL function on the state it reads and writes, named
  as in the code where that is possible. \<^typ>\<open>'a res\<close> is \<^typ>\<open>fault + 'a\<close>: a \<^typ>\<open>fault\<close> is what C leaves undefined or a call of
  \<^verbatim>\<open>exit\<close>, so that an access outside an array, a copy longer than its destination, a null pointer or an uninitialised
  read is a value and not a silence. Messages are byte lists with little-endian 32-bit integers
  in them, read and written at the offsets of the code. Texts given to \<^verbatim>\<open>sprintf\<close> as formats are treated as formats.
  Addresses and ports are words. What the system calls, the clock, a fresh allocation and the uninitialised stack
  answer are arguments, so that a theorem holds for all of them. Threads are step functions or step relations on the
  shared record \<^typ>\<open>server\<close>; a step is what runs without an observable interference point of the model. Loops that may not end
  are \<^verbatim>\<open>partial_function (option)\<close>, for which \<^const>\<open>None\<close> is not returning.

  \<^bold>\<open>Foundations.\<close>
  \<^item> \<^verbatim>\<open>Epbs_Prelude\<close>: faults and results, checked arrays, counting loops, reachability with the locales
    \<open>invariant_system\<close> and \<open>simulation\<close>, ordered maps for \<^verbatim>\<open>std::map\<close>.
  \<^item> \<^verbatim>\<open>C_Memory\<close>: buffers and the integers in them (locale \<open>int_array\<close>), C strings, \<^verbatim>\<open>sprintf\<close>, \<^verbatim>\<open>strstr\<close>, \<^verbatim>\<open>atoi\<close>.
  \<^item> \<^verbatim>\<open>Server_State\<close>: the shared tables (\<^verbatim>\<open>libjobq.h\<close>, \<^verbatim>\<open>libhost.h\<close>) and their well-formedness \<open>server_ok\<close>.

  \<^bold>\<open>Transport.\<close>
  \<^item> \<^verbatim>\<open>Msg_Wire\<close>, \<^verbatim>\<open>Msg_Service\<close> (\<^verbatim>\<open>libmsg.c\<close>, \<^verbatim>\<open>libmsg.h\<close>, \<^verbatim>\<open>deal_msg_request\<close> of \<^verbatim>\<open>epbssrv.c\<close>): datagrams, stream messages, the
    pipe between the message thread and \<^verbatim>\<open>msg_recv\<close>; messages keep their order and bounds.
  \<^item> \<^verbatim>\<open>Sock_Addr\<close> (\<^verbatim>\<open>etransfer/NetAux.h\<close>): addresses; their order is what \<^verbatim>\<open>std::map\<close> needs (locale \<open>map_order\<close>), and
    their texts read back.
  \<^item> \<^verbatim>\<open>Tcp_Socket\<close> (\<^verbatim>\<open>utcp_socket.cpp\<close>, \<^verbatim>\<open>usocket.h\<close>) and \<^verbatim>\<open>Sock_Tcp\<close> (\<^verbatim>\<open>SockTcp.cpp\<close>, \<^verbatim>\<open>SockBase.cpp\<close>, \<^verbatim>\<open>SockTcpListenner.h\<close>):
    the non-blocking and the blocking sockets; descriptors are accounted for, transfers stay in their buffers.
  \<^item> \<^verbatim>\<open>Etransfer\<close> (\<^verbatim>\<open>eTransfer.cpp\<close>): the poll engine with its heap of socket objects; no pointer dangles, \<^verbatim>\<open>select\<close>
    reports what is there.
  \<^item> \<^verbatim>\<open>Conn_Loop\<close>: the loop that three of the server's threads share (locale \<open>conn_handler\<close>).
  \<^item> \<^verbatim>\<open>Net_Aux\<close>, \<^verbatim>\<open>Net_Http\<close> (\<^verbatim>\<open>NetAux.cpp\<close>): local addresses, \<^verbatim>\<open>ParseURL\<close> and the HTTP requests.
  \<^item> \<^verbatim>\<open>Net_Windows\<close>: the \<^verbatim>\<open>WIN32\<close> branches of the same file; the search for the wired card's hardware address, equal to
    a reference over the registry's keys and the adapters, and what it delivers when there is none.

  \<^bold>\<open>Server.\<close>
  \<^item> \<^verbatim>\<open>Host_Table\<close> (\<^verbatim>\<open>libhost.c\<close>): the configuration file, the local machine, the host table.
  \<^item> \<^verbatim>\<open>Job_Ring\<close>, \<^verbatim>\<open>Job_Monitor\<close>, \<^verbatim>\<open>Job_Dispatch\<close> (\<^verbatim>\<open>libjobq.c\<close>): the ring as a bounded queue (locale \<open>bounded_queue\<close>,
    refined by the ring), the thread that takes submissions, cancellations and queries, the thread that
    dispatches, the node's side, the thread that takes reports in.
  \<^item> \<^verbatim>\<open>Host_Monitor\<close> (\<^verbatim>\<open>host_monitor.c\<close>, \<^verbatim>\<open>epbs_host_status\<close> of \<^verbatim>\<open>libhost.c\<close>): host states in and out.
  \<^item> \<^verbatim>\<open>Server_System\<close> (\<^verbatim>\<open>epbssrv.c\<close>): the configuration and the interleaving of the first host's threads.

  \<^bold>\<open>Client.\<close> \<^verbatim>\<open>Client_Cli\<close> (arguments and messages), \<^verbatim>\<open>Client_Exchange\<close> (the conversations), \<^verbatim>\<open>User_Lookup\<close> (\<^verbatim>\<open>libuser.c\<close>).

  \<^bold>\<open>Across components.\<close>
  \<^item> \<^verbatim>\<open>Server_System\<close>: in every reachable state of the server's threads nothing was dispatched, because the job
    monitor never accepts a client; and the threads that do accept clients close none of their connections.
  \<^item> \<^verbatim>\<open>Job_Lifecycle\<close>: were it served, a job would go all the way from the submission through queue, dispatch, nodes and
    reports to the answer of a query; and a job started on too few hosts never finishes.
  \<^item> \<^verbatim>\<open>Job_Failures\<close>: a job for no nodes or for more than there are is accepted, marked running and dropped; late reports
    finish the next job of their slot.
  \<^item> \<^verbatim>\<open>Job_Cancel\<close>: a cancellation from the client through the monitor to the nodes, which cancel their latest job whatever
    it is, while the tables record nothing. \<^verbatim>\<open>Job_Node\<close>: a node's threads in every order; no job is lost or run twice, and
    one cancelled while it sleeps never runs its program but is reported as finished.
  \<^item> \<^verbatim>\<open>Report_Race\<close>: the pop thread and the report thread in every order; a job ends as finished exactly when no
    report overtakes the write of \<^verbatim>\<open>jobnodes\<close>.
  \<^item> \<^verbatim>\<open>Shared_Tables\<close>, \<^verbatim>\<open>Job_Board\<close>: any operation of any thread on any input keeps the tables' shape, and is a move of an
    abstract job board, by which a job's state changes in three ways only.
  \<^item> \<^verbatim>\<open>Client_Exchange\<close>: client and server functions put together message by message.

  \<^bold>\<open>Bounds and fuel.\<close> The constants are the code's (five hosts, 32 jobs, 2000 bytes, \<^verbatim>\<open>FD_SETSIZE\<close> 1024). No theorem rests
  on fuel: \<open>nat_digits\<close> takes one more unit than the number it prints has value, which its lemmas prove enough, and the
  runs \<open>pop_run\<close> and \<open>race_run\<close> take a number or list of steps whose existence is part of what is proved.

  \<^bold>\<open>Not modelled.\<close> \<^verbatim>\<open>UTransfer\<close>, \<^verbatim>\<open>CPPTimers\<close>, \<^verbatim>\<open>CUtility\<close>, \<^verbatim>\<open>IniFile\<close> and \<^verbatim>\<open>host_configure\<close> are not in the repository;
  what the code gets from them is an argument. Code between \<^verbatim>\<open>#if 0\<close> and \<^verbatim>\<open>#endif\<close> (\<^verbatim>\<open>host_monitor_transfer_0\<close>,
  \<^verbatim>\<open>host_query\<close>, \<^verbatim>\<open>job_queue_result_0\<close>, the UDP answers of the client) compiles to nothing. The other branches of
  \<^verbatim>\<open>WIN32\<close> tests outside \<^verbatim>\<open>NetAux.cpp\<close> only choose headers. \<^verbatim>\<open>Mutex\<close>, \<^verbatim>\<open>WEvent\<close> and \<^verbatim>\<open>AutoLock\<close> wrap pthread calls. Locks appear as the atomicity of a step. Output
  on the terminal is modelled where it is the answer to a query and otherwise left out.
\<close>

end
